(* ===== verification/Prelude.thy ===== *)
theory Prelude
  imports
    Main
    "HOL-Library.Word"
    "HOL-Library.AList"
    "HOL-Library.Char_ord"
    "HOL-Library.List_Lexorder"
    "HOL-Library.Product_Lexorder"
    "HOL-Library.Option_ord"
    "HOL-Library.Sublist"
begin

text \<open>
  Shared vocabulary of the development.

  \<^item> Type names for the Rust types every component uses: \<open>str\<close>, paths, the 128-bit hash
    value, and the result type (\<open>Inl\<close> is the error).
  \<^item> Models of the standard containers.  A \<open>BTreeMap\<close> is a key-sorted association list, a
    \<open>BTreeSet\<close> a sorted list, and a \<open>HashMap\<close> (or persistent hash trie) an association list
    with distinct keys whose order stands for the iteration order the hasher happens to
    produce; no theorem assumes anything about that order.  A \<open>HashMap\<close> that is never
    iterated is a plain map.
  \<^item> The interface \<open>finite_map\<close> that both map models implement, with the facts clients use.
  \<^item> String searching as in \<open>str::split_once\<close>, \<open>str::rfind\<close> and friends, and slicing by byte offsets.

  A Rust \<open>str\<close> is modelled as a HOL string, that is, as text whose scalar values fit in a
  character; the order of UTF-8 byte strings is the order of the scalar values, so string
  comparison is lexicographic comparison of characters.
\<close>

section \<open>Types and collections\<close>

type_synonym str = string
type_synonym path = string
type_synonym u32 = "32 word"
type_synonym u128 = "128 word"
type_synonym revision = nat
type_synonym ('e, 'a) result = "'e + 'a"

named_theorems store_simps \<open>projections of the content store after each operation\<close>
named_theorems registry_simps \<open>projections of the identity registry after each mutator\<close>
named_theorems layer_simps \<open>projections of the code layer after each operation\<close>
named_theorems head_simps \<open>projections of the session head after each commit step\<close>

section \<open>Maps\<close>

type_synonym ('k, 'v) btree_map = "('k \<times> 'v) list"
type_synonym ('k, 'v) hash_map = "('k \<times> 'v) list"
type_synonym 'a btree_set = "'a list"

fun bt_insert :: "'k::linorder \<Rightarrow> 'v \<Rightarrow> ('k, 'v) btree_map \<Rightarrow> ('k, 'v) btree_map" where
  "bt_insert k v [] = [(k, v)]"
| "bt_insert k v ((k', v') # m) =
     (if k < k' then (k, v) # (k', v') # m
      else if k = k' then (k, v) # m
      else (k', v') # bt_insert k v m)"

definition bt_remove :: "'k \<Rightarrow> ('k, 'v) btree_map \<Rightarrow> ('k, 'v) btree_map" where
  "bt_remove k m = filter (\<lambda>p. fst p \<noteq> k) m"

definition bt_inv :: "('k::linorder, 'v) btree_map \<Rightarrow> bool" where
  "bt_inv m \<longleftrightarrow> sorted_wrt (<) (map fst m)"

definition hm_inv :: "('k, 'v) hash_map \<Rightarrow> bool" where
  "hm_inv m \<longleftrightarrow> distinct (map fst m)"

text \<open>The interface of a finite map: what a lookup returns after each update.\<close>

locale finite_map =
  fixes inv :: "('k \<times> 'v) list \<Rightarrow> bool"
    and ins :: "'k \<Rightarrow> 'v \<Rightarrow> ('k \<times> 'v) list \<Rightarrow> ('k \<times> 'v) list"
    and del :: "'k \<Rightarrow> ('k \<times> 'v) list \<Rightarrow> ('k \<times> 'v) list"
  assumes inv_empty: "inv []"
    and inv_ins: "inv m \<Longrightarrow> inv (ins k v m)"
    and inv_del: "inv m \<Longrightarrow> inv (del k m)"
    and inv_distinct: "inv m \<Longrightarrow> distinct (map fst m)"
    and get_ins: "inv m \<Longrightarrow> map_of (ins k v m) = (map_of m)(k \<mapsto> v)"
    and get_del: "inv m \<Longrightarrow> map_of (del k m) = (map_of m)(k := None)"
begin

lemma keys_ins: "inv m \<Longrightarrow> set (map fst (ins k v m)) = insert k (set (map fst m))"
  by (metis dom_fun_upd dom_map_of_conv_image_fst get_ins list.set_map option.distinct(1))

lemma keys_del: "inv m \<Longrightarrow> set (map fst (del k m)) = set (map fst m) - {k}"
  by (metis dom_fun_upd dom_map_of_conv_image_fst get_del list.set_map)

lemma entry_iff: "inv m \<Longrightarrow> (k, v) \<in> set m \<longleftrightarrow> map_of m k = Some v"
  by (auto simp: inv_distinct dest: map_of_SomeD)

lemma inv_ins_all: "inv m \<Longrightarrow> inv (fold (\<lambda>(k, v). ins k v) kvs m)"
  by (induction kvs arbitrary: m) (auto intro: inv_ins)

lemma get_ins_all:
  "inv m \<Longrightarrow> map_of (fold (\<lambda>(k, v). ins k v) kvs m) = map_of m ++ map_of (rev kvs)"
proof (induction kvs arbitrary: m)
  case Nil
  then show ?case by simp
next
  case (Cons kv kvs)
  obtain k v where "kv = (k, v)" by (cases kv)
  with Cons show ?case by (auto simp: inv_ins get_ins map_add_def fun_eq_iff split: option.splits)
qed

end

lemma keys_bt_insert [simp]: "fst ` set (bt_insert k v m) = insert k (fst ` set m)"
  by (induction k v m rule: bt_insert.induct) auto

lemma bt_inv_insert: "bt_inv m \<Longrightarrow> bt_inv (bt_insert k v m)"
proof (induction k v m rule: bt_insert.induct)
  case (2 k v k' v' m)
  then show ?case by (auto simp: bt_inv_def)
qed (simp add: bt_inv_def)

lemma map_of_bt_insert: "bt_inv m \<Longrightarrow> map_of (bt_insert k v m) = (map_of m)(k \<mapsto> v)"
proof (induction k v m rule: bt_insert.induct)
  case (2 k v k' v' m)
  then show ?case by (auto simp: bt_inv_def fun_eq_iff)
qed simp

lemma map_of_filter_key: "map_of (filter (\<lambda>p. fst p \<noteq> k) m) = (map_of m)(k := None)"
  by (induction m) (auto simp: fun_eq_iff)

lemma bt_inv_filter: "bt_inv m \<Longrightarrow> bt_inv (filter P m)"
  by (induction m) (auto simp: bt_inv_def)

lemma bt_inv_distinct: "bt_inv m \<Longrightarrow> distinct (map fst m)"
  by (simp add: bt_inv_def strict_sorted_iff)

text \<open>A sorted map is determined by its lookups.\<close>

lemma entries_of_keys: "distinct (map fst m) \<Longrightarrow> m = map (\<lambda>k. (k, the (map_of m k))) (map fst m)"
proof (rule nth_equalityI)
  fix i
  assume d: "distinct (map fst m)" and i: "i < length m"
  have "map_of m (fst (m ! i)) = Some (snd (m ! i))"
    by (rule map_of_is_SomeI [OF d]) (use i in simp)
  with i show "m ! i = map (\<lambda>k. (k, the (map_of m k))) (map fst m) ! i" by (simp add: prod_eq_iff)
qed simp

lemma bt_unique:
  assumes "bt_inv m" "bt_inv m'" "map_of m = map_of m'"
  shows "m = m'"
proof -
  have "set (map fst m) = set (map fst m')"
    using assms(3) by (metis dom_map_of_conv_image_fst list.set_map)
  then have "map fst m = map fst m'"
    using assms(1,2) by (simp add: bt_inv_def strict_sorted_equal del: set_map)
  then show ?thesis
    using assms entries_of_keys [of m] entries_of_keys [of m'] bt_inv_distinct by metis
qed

interpretation bt: finite_map bt_inv bt_insert bt_remove
  by unfold_locales
    (auto simp: bt_inv_insert map_of_bt_insert map_of_filter_key bt_inv_filter bt_remove_def
       bt_inv_distinct, simp add: bt_inv_def)

interpretation hm: finite_map hm_inv AList.update AList.delete
  by unfold_locales
    (auto simp: hm_inv_def distinct_update distinct_delete update_conv' delete_conv')

section \<open>Sets\<close>

definition bs_insert :: "'a::linorder \<Rightarrow> 'a btree_set \<Rightarrow> 'a btree_set" where
  "bs_insert x xs = (if x \<in> set xs then xs else insort x xs)"

definition bs_remove :: "'a \<Rightarrow> 'a btree_set \<Rightarrow> 'a btree_set" where
  "bs_remove x xs = filter (\<lambda>y. y \<noteq> x) xs"

definition bs_inv :: "'a::linorder btree_set \<Rightarrow> bool" where
  "bs_inv xs \<longleftrightarrow> sorted_wrt (<) xs"

lemma set_bs_insert [simp]: "set (bs_insert x xs) = insert x (set xs)"
  by (auto simp: bs_insert_def set_insort_key)

lemma set_bs_remove [simp]: "set (bs_remove x xs) = set xs - {x}"
  by (auto simp: bs_remove_def)

lemma bs_inv_insert: "bs_inv xs \<Longrightarrow> bs_inv (bs_insert x xs)"
  by (simp add: bs_inv_def bs_insert_def strict_sorted_iff sorted_insort distinct_insort)

lemma bs_inv_remove: "bs_inv xs \<Longrightarrow> bs_inv (bs_remove x xs)"
  by (simp add: bs_inv_def bs_remove_def sorted_wrt_filter)

text \<open>Two sorted sets with the same elements are equal: the order of insertion never shows.\<close>

lemma bs_unique: "bs_inv xs \<Longrightarrow> bs_inv ys \<Longrightarrow> set xs = set ys \<Longrightarrow> xs = ys"
  by (simp add: bs_inv_def strict_sorted_equal)

lemma bs_inv_fold_insert: "bs_inv acc \<Longrightarrow> bs_inv (fold bs_insert xs acc)"
  by (induction xs arbitrary: acc) (auto intro: bs_inv_insert)

lemma set_fold_bs_insert [simp]: "set (fold bs_insert xs acc) = set acc \<union> set xs"
  by (induction xs arbitrary: acc) auto

section \<open>Options and lists\<close>

definition min_opt :: "'a::linorder list \<Rightarrow> 'a option" where
  "min_opt xs = (case xs of [] \<Rightarrow> None | y # ys \<Rightarrow> Some (fold min ys y))"

lemma fold_min_Min: "fold min ys y = Min (insert y (set ys))"
  by (metis Min.set_eq_fold list.simps(15))

lemma min_opt_None [simp]: "min_opt xs = None \<longleftrightarrow> xs = []"
  by (simp add: min_opt_def split: list.splits)

lemma min_opt_Some_iff: "min_opt xs = Some x \<longleftrightarrow> xs \<noteq> [] \<and> x = Min (set xs)"
  by (auto simp: min_opt_def fold_min_Min split: list.splits)

lemma min_opt_in: "min_opt xs = Some x \<Longrightarrow> x \<in> set xs"
  by (auto simp: min_opt_Some_iff)

lemma min_opt_cong: "set xs = set ys \<Longrightarrow> min_opt xs = min_opt ys"
  by (cases xs; cases ys) (auto simp: min_opt_def fold_min_Min)

lemma enumerate_mem: "(i, x) \<in> set (List.enumerate n xs) \<Longrightarrow> x \<in> set xs"
  by (auto simp: in_set_enumerate_eq)

lemma find_SomeD_mem: "find P xs = Some x \<Longrightarrow> x \<in> set xs \<and> P x"
  by (induction xs) (auto split: if_splits)

lemma option_case_Some_iff:
  "(case m of None \<Rightarrow> None | Some x \<Rightarrow> f x) = Some y \<longleftrightarrow> (\<exists>x. m = Some x \<and> f x = Some y)"
  by (cases m) auto

lemma find_snoc: "find P (xs @ [x]) = (case find P xs of None \<Rightarrow> if P x then Some x else None | Some y \<Rightarrow> Some y)"
  by (induction xs) simp_all

text \<open>A loop that sets a different key in each iteration.\<close>

lemma fold_distinct_update:
  assumes "\<And>x s. x \<in> set xs \<Longrightarrow> get s (k x) = get r (k x) \<Longrightarrow> get (f x s) = (get s)(k x \<mapsto> v x)"
    and "distinct (map k xs)"
  shows "get (fold f xs r) i = (case find (\<lambda>x. k x = i) xs of Some x \<Rightarrow> Some (v x) | None \<Rightarrow> get r i)"
  using assms
proof (induction xs arbitrary: i rule: rev_induct)
  case (snoc x xs)
  have none: "find (\<lambda>y. k y = k x) xs = None" using snoc.prems(2) by (auto simp: find_None_iff image_iff)
  have IH: "get (fold f xs r) j = (case find (\<lambda>y. k y = j) xs of Some y \<Rightarrow> Some (v y) | None \<Rightarrow> get r j)" for j
    using snoc by simp
  have "get (f x (fold f xs r)) = (get (fold f xs r))(k x \<mapsto> v x)"
    by (rule snoc.prems(1)) (simp_all add: IH none)
  then show ?case
    using none by (cases "k x = i") (auto simp: IH find_snoc split: option.splits)
qed simp

section \<open>Results\<close>

text \<open>The question mark operator, \<open>ok_or\<close>, and a loop that returns at the first error.\<close>

definition rbind :: "('e, 'a) result \<Rightarrow> ('a \<Rightarrow> ('e, 'b) result) \<Rightarrow> ('e, 'b) result" where
  "rbind m f = (case m of Inl e \<Rightarrow> Inl e | Inr x \<Rightarrow> f x)"

definition ok_or :: "'a option \<Rightarrow> 'e \<Rightarrow> ('e, 'a) result" where
  "ok_or x e = (case x of None \<Rightarrow> Inl e | Some y \<Rightarrow> Inr y)"

fun fold_result :: "('x \<Rightarrow> 'a \<Rightarrow> ('e, 'a) result) \<Rightarrow> 'x list \<Rightarrow> 'a \<Rightarrow> ('e, 'a) result" where
  "fold_result f [] acc = Inr acc"
| "fold_result f (x # xs) acc = rbind (f x acc) (fold_result f xs)"

lemma rbind_simps [simp]: "rbind (Inl e) f = Inl e" "rbind (Inr x) f = f x"
  by (simp_all add: rbind_def)

lemma rbind_Inr_iff: "rbind m f = Inr y \<longleftrightarrow> (\<exists>x. m = Inr x \<and> f x = Inr y)"
  by (cases m) auto

lemma ok_or_simps [simp]: "ok_or None e = Inl e" "ok_or (Some x) e = Inr x"
  by (simp_all add: ok_or_def)

lemma ok_or_Inr_iff [simp]: "ok_or m e = Inr x \<longleftrightarrow> m = Some x"
  by (cases m) auto

lemma fold_result_Inr: "(\<And>x acc. x \<in> set xs \<Longrightarrow> f x acc = Inr (g x acc)) \<Longrightarrow> fold_result f xs acc = Inr (fold g xs acc)"
  by (induction xs arbitrary: acc) auto

lemma fold_result_append:
  "fold_result f (xs @ ys) acc = rbind (fold_result f xs acc) (fold_result f ys)"
  by (induction xs arbitrary: acc) (auto simp: rbind_def split: sum.splits)

lemma fold_result_unit_Inr_iff:
  "fold_result (\<lambda>x _. f x) xs () = Inr () \<longleftrightarrow> (\<forall>x\<in>set xs. f x = Inr ())"
  by (induction xs) (auto simp: rbind_def split: sum.splits)

text \<open>A loop whose body may panic (\<open>None\<close>).\<close>

fun fold_option :: "('x \<Rightarrow> 'a \<Rightarrow> 'a option) \<Rightarrow> 'x list \<Rightarrow> 'a \<Rightarrow> 'a option" where
  "fold_option f [] acc = Some acc"
| "fold_option f (x # xs) acc = Option.bind (f x acc) (fold_option f xs)"

lemma fold_option_Some: "(\<And>x acc. x \<in> set xs \<Longrightarrow> f x acc = Some (g x acc)) \<Longrightarrow> fold_option f xs acc = Some (fold g xs acc)"
  by (induction xs arbitrary: acc) auto

lemma fold_option_total:
  "P s \<Longrightarrow> (\<And>x s. x \<in> set xs \<Longrightarrow> P s \<Longrightarrow> \<exists>t. f x s = Some t \<and> P t) \<Longrightarrow> \<exists>t. fold_option f xs s = Some t \<and> P t"
proof (induction xs arbitrary: s)
  case (Cons x xs)
  then obtain t where "f x s = Some t" "P t" by (meson list.set_intros(1))
  with Cons show ?case by simp
qed simp

lemma fold_option_preserves:
  "fold_option f xs s = Some t \<Longrightarrow> P s \<Longrightarrow> (\<And>x s t. x \<in> set xs \<Longrightarrow> P s \<Longrightarrow> f x s = Some t \<Longrightarrow> P t) \<Longrightarrow> P t"
  by (induction xs arbitrary: s) (auto simp: bind_eq_Some_conv)

lemma fold_option_mono:
  "fold_option f xs s = Some t \<Longrightarrow> (\<And>x s t. x \<in> set xs \<Longrightarrow> f x s = Some t \<Longrightarrow> g x s = Some t) \<Longrightarrow> fold_option g xs s = Some t"
  by (induction xs arbitrary: s) (auto simp: bind_eq_Some_conv)

section \<open>String searching\<close>

fun find_sub :: "'a list \<Rightarrow> 'a list \<Rightarrow> nat option" where
  "find_sub pat [] = (if pat = [] then Some 0 else None)"
| "find_sub pat (c # cs) =
     (if prefix pat (c # cs) then Some 0 else map_option Suc (find_sub pat cs))"

fun rfind_sub :: "'a list \<Rightarrow> 'a list \<Rightarrow> nat option" where
  "rfind_sub pat [] = (if pat = [] then Some 0 else None)"
| "rfind_sub pat (c # cs) =
     (case rfind_sub pat cs of
        Some i \<Rightarrow> Some (Suc i)
      | None \<Rightarrow> if prefix pat (c # cs) then Some 0 else None)"

definition split_once :: "'a list \<Rightarrow> 'a list \<Rightarrow> ('a list \<times> 'a list) option" where
  "split_once sep s =
     map_option (\<lambda>i. (take i s, drop (i + length sep) s)) (find_sub sep s)"

definition strip_prefix :: "'a list \<Rightarrow> 'a list \<Rightarrow> 'a list option" where
  "strip_prefix p s = (if prefix p s then Some (drop (length p) s) else None)"

definition contains_sub :: "'a list \<Rightarrow> 'a list \<Rightarrow> bool" where
  "contains_sub pat s \<longleftrightarrow> find_sub pat s \<noteq> None"

text \<open>A \<open>find\<close> hit is an occurrence of the pattern, so the text splits around it.\<close>

lemma find_sub_SomeD:
  "find_sub pat s = Some i \<Longrightarrow> prefix pat (drop i s) \<and> i \<le> length s"
  by (induction pat s arbitrary: i rule: find_sub.induct) (auto split: if_splits)

lemma rfind_sub_SomeD:
  "rfind_sub pat s = Some i \<Longrightarrow> prefix pat (drop i s) \<and> i \<le> length s"
  by (induction pat s arbitrary: i rule: rfind_sub.induct) (auto split: if_splits option.splits)

lemma rfind_sub_ge:
  "prefix pat (drop j s) \<Longrightarrow> j \<le> length s \<Longrightarrow> \<exists>k\<ge>j. rfind_sub pat s = Some k"
proof (induction pat s arbitrary: j rule: rfind_sub.induct)
  case (2 pat c cs)
  show ?case
  proof (cases j)
    case 0
    with 2 show ?thesis by (cases "rfind_sub pat cs") auto
  next
    case (Suc m)
    with 2 obtain k where "k \<ge> m" "rfind_sub pat cs = Some k" by auto
    with Suc show ?thesis by auto
  qed
qed simp

lemma prefix_drop_split:
  assumes "prefix pat (drop i s)" "i \<le> length s"
  shows "s = take i s @ pat @ drop (i + length pat) s"
proof -
  from assms(1) obtain r where r: "drop i s = pat @ r" by (auto simp: prefix_def)
  then have "drop (i + length pat) s = r"
    by (metis add.commute append_eq_conv_conj drop_drop)
  with r show ?thesis by (metis append_take_drop_id)
qed

lemma split_once_SomeD: "split_once sep s = Some (a, b) \<Longrightarrow> s = a @ sep @ b"
  by (auto simp: split_once_def dest!: find_sub_SomeD prefix_drop_split)

lemma rfind_sub_split:
  "rfind_sub pat s = Some i \<Longrightarrow> s = take i s @ pat @ drop (i + length pat) s"
  using rfind_sub_SomeD prefix_drop_split by blast

lemma find_sub_append_sep:
  assumes "hd sep \<notin> set a" "sep \<noteq> []"
  shows "find_sub sep (a @ sep @ b) = Some (length a)"
  using assms
proof (induction a)
  case Nil
  then show ?case by (cases sep) auto
next
  case (Cons x a)
  then have "\<not> prefix sep ((x # a) @ sep @ b)" by (cases sep) auto
  with Cons show ?case by auto
qed

lemma split_once_append:
  assumes "hd sep \<notin> set a" "sep \<noteq> []"
  shows "split_once sep (a @ sep @ b) = Some (a, b)"
  using find_sub_append_sep [OF assms, of b] by (simp add: split_once_def)

lemma strip_prefix_Some_iff: "strip_prefix p s = Some r \<longleftrightarrow> s = p @ r"
  by (auto simp: strip_prefix_def prefix_def)

section \<open>Byte slices of a text\<close>

text \<open>
  Offsets count bytes of UTF-8, in which a scalar value below 128 takes one byte and the other
  characters of the model two.  A slice that starts or ends inside a character does not exist.
\<close>

definition utf8_width :: "char \<Rightarrow> nat" where
  "utf8_width c = (if (of_char c :: nat) < 128 then 1 else 2)"

definition utf8_len :: "str \<Rightarrow> nat" where
  "utf8_len s = sum_list (map utf8_width s)"

fun skip_bytes :: "nat \<Rightarrow> str \<Rightarrow> str option" where
  "skip_bytes n [] = (if n = 0 then Some [] else None)"
| "skip_bytes n (c # s) =
     (if n = 0 then Some (c # s) else if utf8_width c \<le> n then skip_bytes (n - utf8_width c) s else None)"

fun take_bytes :: "nat \<Rightarrow> str \<Rightarrow> str option" where
  "take_bytes n [] = (if n = 0 then Some [] else None)"
| "take_bytes n (c # s) =
     (if n = 0 then Some []
      else if utf8_width c \<le> n then map_option (Cons c) (take_bytes (n - utf8_width c) s) else None)"

definition byte_get :: "str \<Rightarrow> nat \<Rightarrow> nat \<Rightarrow> str option" where
  "byte_get s start end = (if start \<le> end then Option.bind (skip_bytes start s) (take_bytes (end - start)) else None)"

lemma utf8_len_append [simp]: "utf8_len (s @ t) = utf8_len s + utf8_len t"
  by (simp add: utf8_len_def)

lemma utf8_width_pos [simp]: "0 < utf8_width c"
  by (simp add: utf8_width_def)

lemma skip_bytes_append: "skip_bytes (utf8_len s) (s @ t) = Some t"
  by (induction s) (auto simp: utf8_len_def, cases t, auto)

lemma take_bytes_append: "take_bytes (utf8_len s) (s @ t) = Some s"
  by (induction s) (auto simp: utf8_len_def, cases t, auto)

lemma byte_get_append: "byte_get (s @ t @ u) (utf8_len s) (utf8_len (s @ t)) = Some t"
  by (simp add: byte_get_def skip_bytes_append take_bytes_append)

lemma skip_bytes_SomeD: "skip_bytes n s = Some t \<Longrightarrow> \<exists>before. s = before @ t \<and> n = utf8_len before"
proof (induction n s rule: skip_bytes.induct)
  case (2 n c s)
  then show ?case
  proof (cases "n = 0")
    case False
    with 2 obtain before where "s = before @ t" "n - utf8_width c = utf8_len before" "utf8_width c \<le> n"
      by (auto split: if_splits)
    then show ?thesis by (intro exI [of _ "c # before"]) (simp add: utf8_len_def)
  qed (simp add: utf8_len_def)
qed (auto simp: utf8_len_def split: if_splits)

lemma take_bytes_SomeD: "take_bytes n s = Some t \<Longrightarrow> \<exists>rest. s = t @ rest \<and> n = utf8_len t"
proof (induction n s arbitrary: t rule: take_bytes.induct)
  case (2 n c s)
  then show ?case by (fastforce simp: utf8_len_def split: if_splits)
qed (auto simp: utf8_len_def split: if_splits)

text \<open>The text a range of byte offsets covers, when both ends lie between characters.\<close>

definition text_at :: "str \<Rightarrow> nat \<times> nat \<Rightarrow> str \<Rightarrow> bool" where
  "text_at s r part \<longleftrightarrow> (\<exists>before rest. s = before @ part @ rest \<and> r = (utf8_len before, utf8_len (before @ part)))"

lemma byte_get_iff: "byte_get s (fst r) (snd r) = Some part \<longleftrightarrow> text_at s r part"
proof
  assume "byte_get s (fst r) (snd r) = Some part"
  then obtain t where t: "fst r \<le> snd r" "skip_bytes (fst r) s = Some t" "take_bytes (snd r - fst r) t = Some part"
    by (auto simp: byte_get_def bind_eq_Some_conv split: if_splits)
  obtain before rest where "s = before @ t" "fst r = utf8_len before" "t = part @ rest" "snd r - fst r = utf8_len part"
    using skip_bytes_SomeD [OF t(2)] take_bytes_SomeD [OF t(3)] by blast
  with t(1) show "text_at s r part" unfolding text_at_def by (intro exI [of _ before] exI [of _ rest]) (auto simp: prod_eq_iff)
qed (use byte_get_append in \<open>auto simp: text_at_def\<close>)

end
