(* ===== verification/Decimal.thy ===== *)
theory Decimal
  imports Prelude
begin

text \<open>
  Decimal text of integers: what \<open>to_string\<close> prints and what the standard parser for
  unsigned integers of a given bound accepts, with the round trip.
\<close>

definition digit_char :: "nat \<Rightarrow> char" where
  "digit_char d = char_of (48 + d)"

fun nat_to_string :: "nat \<Rightarrow> str" where
  "nat_to_string n = (if n < 10 then [digit_char n] else nat_to_string (n div 10) @ [digit_char (n mod 10)])"

declare nat_to_string.simps [simp del]

definition digit_value :: "char \<Rightarrow> nat option" where
  "digit_value c =
     (let n = of_char c :: nat in if 48 \<le> n \<and> n \<le> 57 then Some (n - 48) else None)"

fun parse_digits :: "nat \<Rightarrow> nat \<Rightarrow> str \<Rightarrow> nat option" where
  "parse_digits bound acc [] = Some acc"
| "parse_digits bound acc (c # cs) =
     (case digit_value c of
        None \<Rightarrow> None
      | Some d \<Rightarrow> let n = acc * 10 + d in if n < bound then parse_digits bound n cs else None)"

definition parse_unsigned :: "nat \<Rightarrow> str \<Rightarrow> nat option" where
  "parse_unsigned bound s =
     (let digits = (case s of c # cs \<Rightarrow> if c = CHR ''+'' then cs else s | [] \<Rightarrow> s)
      in if digits = [] then None else parse_digits bound 0 digits)"

lemma parse_digits_append:
  "parse_digits bound acc (s @ t) = Option.bind (parse_digits bound acc s) (\<lambda>m. parse_digits bound m t)"
  by (induction bound acc s rule: parse_digits.induct) (auto simp: Let_def split: option.splits)

lemma digit_value_char: "d < 10 \<Longrightarrow> digit_value (digit_char d) = Some d"
  by (simp add: digit_value_def digit_char_def Let_def)

lemma parse_nat_to_string: "n < bound \<Longrightarrow> parse_digits bound 0 (nat_to_string n) = Some n"
proof (induction n rule: nat_to_string.induct)
  case (1 n)
  show ?case
  proof (cases "n < 10")
    case True
    with 1 show ?thesis by (simp add: nat_to_string.simps [of n] digit_value_char)
  next
    case False
    moreover have "n div 10 < bound" using 1(2) by (meson div_le_dividend le_less_trans)
    moreover have "n div 10 * 10 + n mod 10 = n" by simp
    ultimately show ?thesis using 1
      by (simp add: nat_to_string.simps [of n] parse_digits_append digit_value_char Let_def)
  qed
qed

lemma nat_to_string_digits: "c \<in> set (nat_to_string n) \<Longrightarrow> digit_value c \<noteq> None"
proof (induction n rule: nat_to_string.induct)
  case (1 n)
  show ?case
  proof (cases "n < 10")
    case True
    then have "c = digit_char n" using 1(2) by (simp add: nat_to_string.simps [of n])
    with True show ?thesis by (simp add: digit_value_char)
  next
    case False
    then have "c = digit_char (n mod 10) \<or> c \<in> set (nat_to_string (n div 10))"
      using 1(2) by (simp add: nat_to_string.simps [of n])
    with 1(1) [OF False] show ?thesis by (auto simp: digit_value_char)
  qed
qed

lemma nat_to_string_not_Nil: "nat_to_string n \<noteq> []"
  by (subst nat_to_string.simps) simp

lemma parse_unsigned_nat_to_string: "n < bound \<Longrightarrow> parse_unsigned bound (nat_to_string n) = Some n"
proof -
  assume n: "n < bound"
  obtain c cs where s: "nat_to_string n = c # cs" using nat_to_string_not_Nil by (meson neq_Nil_conv)
  with nat_to_string_digits [of c n] have "c \<noteq> CHR ''+''" by (auto simp: digit_value_def)
  then show ?thesis using parse_nat_to_string [OF n] s by (simp add: parse_unsigned_def)
qed

end
