(* ===== verification/Config.thy ===== *)
theory Config
  imports Decimal
begin

text \<open>
  The sidecar configuration of \<open>rust/src/config.rs\<close>: the configuration tree, its loading
  (merge of the local file, environment and secret expansion), its validation with the
  topological order of the layers, and the hash policy of a layer (\<open>rust/src/hash.rs\<close>).

  Parameters for what is outside the repository: \<open>parse_toml\<close> (the TOML parser), \<open>de_config\<close>
  (the derived decoder into the configuration tree), \<open>env\<close> (the process environment) and the
  texts of the three files.  A TOML or JSON value is a \<open>cvalue\<close>; its tables are sorted by
  key, as both libraries keep them.
\<close>

section \<open>Data\<close>

datatype config_error =
    UnknownSchemaVersion nat
  | DanglingRef str str
  | ReservedName str
  | Cycle str
  | OriginViolation str
  | UnknownKind str
  | DimMismatch str
  | SecretInline str
  | ParseError str
  | UndefinedEnv str
  | BlockingOverflow str
  | InvalidValue str str str

text \<open>The message of an error, as \<open>Display\<close> prints it.\<close>

fun config_error_message :: "config_error \<Rightarrow> str" where
  "config_error_message (UnknownSchemaVersion v) = ''unsupported schema_version: '' @ nat_to_string v"
| "config_error_message (DanglingRef key target) = ''dangling config reference '' @ key @ '' -> '' @ target"
| "config_error_message (ReservedName name) = ''reserved layer name: '' @ name"
| "config_error_message (Cycle cycle) = ''layer dependency cycle: '' @ cycle"
| "config_error_message (OriginViolation s) = ''layer origin violation: '' @ s"
| "config_error_message (UnknownKind kind) = ''unknown entity kind: '' @ kind"
| "config_error_message (DimMismatch s) = ''generator/store dimension mismatch: '' @ s"
| "config_error_message (SecretInline key) = ''inline secret-like value at '' @ key"
| "config_error_message (ParseError s) = ''config parse error: '' @ s"
| "config_error_message (UndefinedEnv name) = ''undefined environment variable in config: '' @ name"
| "config_error_message (BlockingOverflow policy) =
     ''writer-blocking or unknown bus overflow policy: '' @ policy
     @ '' (use one of: coalesce, drop_and_mark_lagged, error_and_close)''"
| "config_error_message (InvalidValue key v allowed) =
     ''invalid value for '' @ key @ '': '' @ v @ '' (use one of: '' @ allowed @ '')''"

datatype layer_origin = Derived | Authored
datatype serving_mode = Stale | Block
datatype recompute_mode = Lazy | Eager
datatype key_locality = Local | Semantic
datatype gc_policy = Orphans | Never

record spine_cfg =
  sp_retain_cap :: nat
  sp_default_hash_profile :: str

record hash_profile_cfg =
  hp_whitespace_insensitive :: bool
  hp_normalize_trailing_commas :: bool
  hp_include_comments :: bool
  hp_include_docstrings :: bool

record layer_cfg =
  l_origin :: layer_origin
  l_depends_on :: "str list"
  l_generator :: "str option"
  l_generator_version :: "str option"
  l_hash_profile :: "str option"
  l_store :: "str option"
  l_serving :: serving_mode
  l_recompute :: recompute_mode
  l_key_locality :: "key_locality option"
  l_entity_kinds :: "str list"
  l_history :: bool
  l_review_on_change :: bool

record generator_cfg =
  g_type :: "str option"
  g_callable :: "str option"
  g_command :: "str list"
  g_endpoint :: "str option"
  g_model :: "str option"
  g_dim :: "nat option"
  g_batch_size :: "nat option"
  g_concurrency :: "nat option"
  g_timeout_ms :: "nat option"

record store_cfg =
  s_backend :: str
  s_path :: "str option"
  s_url :: "str option"
  s_metric :: "str option"
  s_dim :: "nat option"
  s_gc :: gc_policy

record bus_cfg =
  bus_queue_capacity :: nat
  bus_overflow :: str

record watcher_cfg =
  watcher_enabled :: bool
  watcher_debounce_ms :: nat

record code_graph_cfg =
  cg_precision :: str
  cg_refinement :: str

record raw_config =
  schema_version :: nat
  project_name :: "str option"
  spine :: spine_cfg
  profiles :: "(str, hash_profile_cfg) btree_map"
  layers :: "(str, layer_cfg) btree_map"
  generators :: "(str, generator_cfg) btree_map"
  stores :: "(str, store_cfg) btree_map"
  bus :: bus_cfg
  watcher :: watcher_cfg
  code_graph :: code_graph_cfg
  gitignore_cache :: bool

record validated_config =
  vc_raw :: raw_config
  vc_topo_order :: "str list"

section \<open>Defaults\<close>

definition current_schema_version :: nat where
  "current_schema_version = 1"

definition default_retain_cap :: nat where
  "default_retain_cap = 256"

definition default_hash_profile :: str where
  "default_hash_profile = ''structure''"

definition default_queue_capacity :: nat where
  "default_queue_capacity = 1024"

definition default_overflow :: str where
  "default_overflow = ''coalesce''"

definition default_debounce_ms :: nat where
  "default_debounce_ms = 200"

definition default_precision :: str where
  "default_precision = ''container''"

definition default_refinement :: str where
  "default_refinement = ''async''"

definition spine_default :: spine_cfg where
  "spine_default = \<lparr>sp_retain_cap = default_retain_cap, sp_default_hash_profile = default_hash_profile\<rparr>"

definition hash_profile_default :: hash_profile_cfg where
  "hash_profile_default = \<lparr>hp_whitespace_insensitive = True, hp_normalize_trailing_commas = True,
     hp_include_comments = False, hp_include_docstrings = False\<rparr>"

definition bus_default :: bus_cfg where
  "bus_default = \<lparr>bus_queue_capacity = default_queue_capacity, bus_overflow = default_overflow\<rparr>"

definition watcher_default :: watcher_cfg where
  "watcher_default = \<lparr>watcher_enabled = False, watcher_debounce_ms = default_debounce_ms\<rparr>"

definition code_graph_default :: code_graph_cfg where
  "code_graph_default = \<lparr>cg_precision = default_precision, cg_refinement = default_refinement\<rparr>"

definition raw_defaults :: raw_config where
  "raw_defaults = \<lparr>schema_version = current_schema_version, project_name = None, spine = spine_default,
     profiles = bt_insert ''structure'' hash_profile_default [], layers = [], generators = [], stores = [],
     bus = bus_default, watcher = watcher_default, code_graph = code_graph_default, gitignore_cache = True\<rparr>"

section \<open>Loading\<close>

datatype cvalue =
    CStr str
  | CArr "cvalue list"
  | CTable "(str \<times> cvalue) list"
  | CScalar

fun shallow_merge :: "cvalue \<Rightarrow> cvalue \<Rightarrow> cvalue" where
  "shallow_merge (CTable base_table) (CTable overlay_table) =
     CTable (fold (\<lambda>(k, v). bt_insert k v) overlay_table base_table)"
| "shallow_merge base overlay = overlay"

definition secrets_of :: "cvalue \<Rightarrow> (str, str) btree_map" where
  "secrets_of v =
     (case v of
        CTable table \<Rightarrow> fold (\<lambda>(k, x) m. case x of CStr s \<Rightarrow> bt_insert k s m | _ \<Rightarrow> m) table []
      | _ \<Rightarrow> [])"

definition load_secrets ::
  "(str \<Rightarrow> (str, cvalue) result) \<Rightarrow> (str, str) result option \<Rightarrow> (config_error, (str, str) btree_map) result" where
  "load_secrets parse_toml file =
     (case file of
        None \<Rightarrow> Inr []
      | Some (Inl e) \<Rightarrow> Inl (ParseError e)
      | Some (Inr text) \<Rightarrow>
          (case parse_toml text of Inl e \<Rightarrow> Inl (ParseError e) | Inr v \<Rightarrow> Inr (secrets_of v)))"

definition lookup_var :: "(str \<Rightarrow> str option) \<Rightarrow> (str, str) btree_map \<Rightarrow> str \<Rightarrow> str option" where
  "lookup_var env secrets name = (case env name of Some v \<Rightarrow> Some v | None \<Rightarrow> map_of secrets name)"

text \<open>The expansion loop; every round consumes at least the three delimiter characters.\<close>

function expand_loop ::
  "(str \<Rightarrow> str option) \<Rightarrow> (str, str) btree_map \<Rightarrow> str \<Rightarrow> str \<Rightarrow> (config_error, str) result" where
  "expand_loop env secrets out rest =
     (case find_sub ''${'' rest of
        None \<Rightarrow> Inr (out @ rest)
      | Some start \<Rightarrow>
          let after = drop (start + 2) rest in
          (case find_sub ''}'' after of
             None \<Rightarrow> Inr (out @ take start rest @ drop start rest)
           | Some stop \<Rightarrow>
               let name = take stop after in
               (case lookup_var env secrets name of
                  None \<Rightarrow> Inl (UndefinedEnv name)
                | Some v \<Rightarrow> expand_loop env secrets (out @ take start rest @ v) (drop (stop + 1) after))))"
  by pat_completeness auto
termination
proof (relation "measure (\<lambda>(env, secrets, out, rest). length rest)", goal_cases)
  case (2 env secrets out rest start after stop name v)
  then have "prefix ''${'' (drop start rest)" "start \<le> length rest" using find_sub_SomeD by blast+
  then have "start + 2 \<le> length rest" using prefix_length_le by fastforce
  with 2 show ?case by simp
qed simp

declare expand_loop.simps [simp del]

definition expand_string ::
  "(str \<Rightarrow> str option) \<Rightarrow> (str, str) btree_map \<Rightarrow> str \<Rightarrow> (config_error, str) result" where
  "expand_string env secrets s = expand_loop env secrets [] s"

fun expand_value :: "(str \<Rightarrow> str option) \<Rightarrow> (str, str) btree_map \<Rightarrow> cvalue \<Rightarrow> (config_error, cvalue) result"
  and expand_items ::
    "(str \<Rightarrow> str option) \<Rightarrow> (str, str) btree_map \<Rightarrow> cvalue list \<Rightarrow> (config_error, cvalue list) result"
  and expand_entries ::
    "(str \<Rightarrow> str option) \<Rightarrow> (str, str) btree_map \<Rightarrow> (str \<times> cvalue) list
     \<Rightarrow> (config_error, (str \<times> cvalue) list) result" where
  "expand_value env secrets (CStr s) = rbind (expand_string env secrets s) (\<lambda>t. Inr (CStr t))"
| "expand_value env secrets (CArr items) = rbind (expand_items env secrets items) (\<lambda>ys. Inr (CArr ys))"
| "expand_value env secrets (CTable table) = rbind (expand_entries env secrets table) (\<lambda>ys. Inr (CTable ys))"
| "expand_value env secrets CScalar = Inr CScalar"
| "expand_items env secrets [] = Inr []"
| "expand_items env secrets (x # xs) =
     rbind (expand_value env secrets x) (\<lambda>y. rbind (expand_items env secrets xs) (\<lambda>ys. Inr (y # ys)))"
| "expand_entries env secrets [] = Inr []"
| "expand_entries env secrets ((k, x) # xs) =
     rbind (expand_value env secrets x) (\<lambda>y. rbind (expand_entries env secrets xs) (\<lambda>ys. Inr ((k, y) # ys)))"

definition or_default_profile :: "raw_config \<Rightarrow> raw_config" where
  "or_default_profile cfg =
     (case map_of (profiles cfg) ''structure'' of
        None \<Rightarrow> cfg\<lparr>profiles := bt_insert ''structure'' hash_profile_default (profiles cfg)\<rparr>
      | Some _ \<Rightarrow> cfg)"

text \<open>
  The three files are given by their contents: \<open>None\<close> when the file does not exist, a read
  error, or its text.
\<close>

definition raw_load ::
  "(str \<Rightarrow> (str, cvalue) result) \<Rightarrow> (cvalue \<Rightarrow> (str, raw_config) result) \<Rightarrow> (str \<Rightarrow> str option)
   \<Rightarrow> (str, str) result option \<Rightarrow> (str, str) result option \<Rightarrow> (str, str) result option
   \<Rightarrow> (config_error, raw_config) result" where
  "raw_load parse_toml de_config env committed_file local_file secrets_file =
     (case committed_file of
        None \<Rightarrow> Inr raw_defaults
      | Some (Inl e) \<Rightarrow> Inl (ParseError e)
      | Some (Inr committed) \<Rightarrow>
          (case parse_toml committed of
             Inl e \<Rightarrow> Inl (ParseError e)
           | Inr value \<Rightarrow>
               rbind (case local_file of
                        None \<Rightarrow> Inr value
                      | Some (Inl e) \<Rightarrow> Inl (ParseError e)
                      | Some (Inr text) \<Rightarrow>
                          (case parse_toml text of
                             Inl e \<Rightarrow> Inl (ParseError e)
                           | Inr local_value \<Rightarrow> Inr (shallow_merge value local_value))) (\<lambda>merged.
               rbind (load_secrets parse_toml secrets_file) (\<lambda>secrets.
               rbind (expand_value env secrets merged) (\<lambda>expanded.
               case de_config expanded of
                 Inl e \<Rightarrow> Inl (ParseError e)
               | Inr cfg \<Rightarrow> Inr (or_default_profile cfg))))))"

section \<open>Layer order\<close>

definition effective_depends_on :: "layer_cfg \<Rightarrow> str list" where
  "effective_depends_on layer =
     (if l_origin layer = Derived \<and> l_depends_on layer = [] then [''code''] else l_depends_on layer)"

record topo_maps =
  incoming :: "(str, nat) btree_map"
  outgoing :: "(str, str list) btree_map"

text \<open>Building the graph; the error \<open>None\<close> is the code's \<open>expect\<close>.\<close>

definition topo_dep ::
  "raw_config \<Rightarrow> str \<Rightarrow> str \<Rightarrow> topo_maps \<Rightarrow> (config_error option, topo_maps) result" where
  "topo_dep raw name dep m =
     (if dep \<noteq> ''code'' \<and> map_of (layers raw) dep = None
      then Inl (Some (DanglingRef (''layers.'' @ name @ ''.depends_on'') dep))
      else
        (case map_of (incoming m) name of
           None \<Rightarrow> Inl None
         | Some c \<Rightarrow>
             Inr (m\<lparr>incoming := AList.update name (c + 1) (incoming m),
                    outgoing := bt_insert dep
                      ((case map_of (outgoing m) dep of None \<Rightarrow> [] | Some ts \<Rightarrow> ts) @ [name]) (outgoing m)\<rparr>)))"

definition topo_maps_init :: "raw_config \<Rightarrow> topo_maps" where
  "topo_maps_init raw =
     \<lparr>incoming = fold (\<lambda>name. bt_insert name 0) (map fst (layers raw)) (bt_insert ''code'' 0 []), outgoing = []\<rparr>"

definition topo_build :: "raw_config \<Rightarrow> (config_error option, topo_maps) result" where
  "topo_build raw =
     fold_result (\<lambda>(name, layer). fold_result (topo_dep raw name) (effective_depends_on layer))
       (layers raw) (topo_maps_init raw)"

text \<open>
  One target of a finished node.  The subtraction of the code panics below zero, which is
  \<open>None\<close> here, as is the \<open>expect\<close>.
\<close>

definition topo_target ::
  "str \<Rightarrow> str list \<times> (str, nat) btree_map \<Rightarrow> (str list \<times> (str, nat) btree_map) option" where
  "topo_target target acc =
     (case acc of (ready, inc) \<Rightarrow>
        (case map_of inc target of
           None \<Rightarrow> None
         | Some 0 \<Rightarrow> None
         | Some (Suc c) \<Rightarrow>
             let inc' = AList.update target c inc
             in Some (if c = 0 then sort (ready @ [target]) else ready, inc')))"

definition count_sum :: "(str, nat) btree_map \<Rightarrow> nat" where
  "count_sum m = sum_list (map snd m)"

lemma count_sum_update:
  "map_of m k = Some (Suc c) \<Longrightarrow> Suc (count_sum (AList.update k c m)) = count_sum m"
  by (induction m) (auto simp: count_sum_def split: if_splits)

lemma topo_targets_measure:
  "fold_option topo_target targets (ready, inc) = Some (ready', inc') \<Longrightarrow>
     count_sum inc' + length ready' \<le> count_sum inc + length ready"
proof (induction targets arbitrary: ready inc)
  case (Cons t ts)
  then obtain ready1 inc1 where t: "topo_target t (ready, inc) = Some (ready1, inc1)"
    and ts: "fold_option topo_target ts (ready1, inc1) = Some (ready', inc')"
    by (auto simp: Option.bind_eq_Some_conv)
  from t have "count_sum inc1 + length ready1 \<le> count_sum inc + length ready"
    by (auto simp: topo_target_def Let_def split: option.splits nat.splits if_splits dest!: count_sum_update)
  with Cons.IH [OF ts] show ?case by simp
qed simp

function topo_loop ::
  "(str, str list) btree_map \<Rightarrow> str list \<Rightarrow> (str, nat) btree_map \<Rightarrow> str list
   \<Rightarrow> (str list \<times> (str, nat) btree_map) option" where
  "topo_loop out ready inc order =
     (case ready of
        [] \<Rightarrow> Some (order, inc)
      | node # rest \<Rightarrow>
          (case map_of out node of
             None \<Rightarrow> topo_loop out rest inc (order @ [node])
           | Some targets \<Rightarrow>
               (case fold_option topo_target targets (rest, inc) of
                  None \<Rightarrow> None
                | Some (ready', inc') \<Rightarrow> topo_loop out ready' inc' (order @ [node]))))"
  by pat_completeness auto
termination
proof (relation "measure (\<lambda>(out, ready, inc, order). count_sum inc + length ready)", goal_cases)
  case (3 out ready inc order node rest targets x ready' inc')
  then show ?case using topo_targets_measure [of targets rest inc ready' inc'] by simp
qed simp_all

declare topo_loop.simps [simp del]

definition join_with :: "str \<Rightarrow> str list \<Rightarrow> str" where
  "join_with sep xs = (case xs of [] \<Rightarrow> [] | y # ys \<Rightarrow> y @ concat (map (\<lambda>x. sep @ x) ys))"

text \<open>The result: \<open>None\<close> is a panic, \<open>Inl\<close> a configuration error.\<close>

definition topo_order :: "raw_config \<Rightarrow> (config_error, str list) result option" where
  "topo_order raw =
     (case topo_build raw of
        Inl None \<Rightarrow> None
      | Inl (Some e) \<Rightarrow> Some (Inl e)
      | Inr m \<Rightarrow>
          let out = map (\<lambda>(d, ts). (d, sort ts)) (outgoing m);
              ready = sort (map fst (filter (\<lambda>(name, count). count = 0) (incoming m)))
          in (case topo_loop out ready (incoming m) [] of
                None \<Rightarrow> None
              | Some (order, inc) \<Rightarrow>
                  if length order \<noteq> length (incoming m)
                  then Some (Inl (Cycle (join_with '' -> '' (map fst (filter (\<lambda>(name, count). 0 < count) inc)))))
                  else Some (Inr order)))"

section \<open>Validation\<close>

definition is_known_kind :: "str \<Rightarrow> bool" where
  "is_known_kind kind \<longleftrightarrow>
     kind \<in> {''module'', ''class'', ''function'', ''method'', ''constructor'', ''variable'', ''constant'',
             ''field'', ''parameter'', ''property'', ''type_parameter'', ''import''}"

definition char_between :: "char \<Rightarrow> char \<Rightarrow> char \<Rightarrow> bool" where
  "char_between lo hi c \<longleftrightarrow> lo \<le> c \<and> c \<le> hi"

definition is_ascii_lowercase :: "char \<Rightarrow> bool" where
  "is_ascii_lowercase = char_between (CHR ''a'') (CHR ''z'')"

definition is_ascii_uppercase :: "char \<Rightarrow> bool" where
  "is_ascii_uppercase = char_between (CHR ''A'') (CHR ''Z'')"

definition is_ascii_digit :: "char \<Rightarrow> bool" where
  "is_ascii_digit = char_between (CHR ''0'') (CHR ''9'')"

definition high_entropyish :: "str \<Rightarrow> bool" where
  "high_entropyish s \<longleftrightarrow>
     28 \<le> length (filter (\<lambda>c. is_ascii_lowercase c \<or> is_ascii_uppercase c \<or> is_ascii_digit c) s) \<and>
     list_ex is_ascii_lowercase s \<and> list_ex is_ascii_uppercase s \<and> list_ex is_ascii_digit s"

definition looks_like_secret :: "str \<Rightarrow> bool" where
  "looks_like_secret s \<longleftrightarrow>
     prefix ''sk-'' s \<or> prefix ''AKIA'' s \<or> (32 \<le> utf8_len s \<and> high_entropyish s)"

fun lint_secret_value :: "str \<Rightarrow> cvalue \<Rightarrow> (config_error, unit) result"
  and lint_items :: "str \<Rightarrow> nat \<Rightarrow> cvalue list \<Rightarrow> (config_error, unit) result"
  and lint_entries :: "str \<Rightarrow> (str \<times> cvalue) list \<Rightarrow> (config_error, unit) result" where
  "lint_secret_value path (CStr s) = (if looks_like_secret s then Inl (SecretInline path) else Inr ())"
| "lint_secret_value path (CArr items) = lint_items path 0 items"
| "lint_secret_value path (CTable table) = lint_entries path table"
| "lint_secret_value path CScalar = Inr ()"
| "lint_items path idx [] = Inr ()"
| "lint_items path idx (x # xs) =
     rbind (lint_secret_value (path @ ''['' @ nat_to_string idx @ '']'') x) (\<lambda>_. lint_items path (idx + 1) xs)"
| "lint_entries path [] = Inr ()"
| "lint_entries path ((k, x) # xs) =
     rbind (lint_secret_value (path @ ''.'' @ k) x) (\<lambda>_. lint_entries path xs)"

text \<open>The JSON tree of a configuration, as the derived encoder builds it.\<close>

definition cobj :: "(str \<times> cvalue) list \<Rightarrow> cvalue" where
  "cobj kvs = CTable (fold (\<lambda>(k, v). bt_insert k v) kvs [])"

definition copt :: "str option \<Rightarrow> cvalue" where
  "copt x = (case x of None \<Rightarrow> CScalar | Some s \<Rightarrow> CStr s)"

definition layer_value :: "layer_cfg \<Rightarrow> cvalue" where
  "layer_value l = cobj
     [(''origin'', CStr (case l_origin l of Derived \<Rightarrow> ''derived'' | Authored \<Rightarrow> ''authored'')),
      (''depends_on'', CArr (map CStr (l_depends_on l))), (''generator'', copt (l_generator l)),
      (''generator_version'', copt (l_generator_version l)), (''hash_profile'', copt (l_hash_profile l)),
      (''store'', copt (l_store l)),
      (''serving'', CStr (case l_serving l of Stale \<Rightarrow> ''stale'' | Block \<Rightarrow> ''block'')),
      (''recompute'', CStr (case l_recompute l of Lazy \<Rightarrow> ''lazy'' | Eager \<Rightarrow> ''eager'')),
      (''key_locality'', (case l_key_locality l of None \<Rightarrow> CScalar | Some Local \<Rightarrow> CStr ''local'' | Some Semantic \<Rightarrow> CStr ''semantic'')),
      (''entity_kinds'', CArr (map CStr (l_entity_kinds l))), (''history'', CScalar), (''review_on_change'', CScalar)]"

definition generator_value :: "generator_cfg \<Rightarrow> cvalue" where
  "generator_value g = cobj
     [(''type'', copt (g_type g)), (''callable'', copt (g_callable g)), (''command'', CArr (map CStr (g_command g))),
      (''endpoint'', copt (g_endpoint g)), (''model'', copt (g_model g)), (''dim'', CScalar), (''batch_size'', CScalar),
      (''concurrency'', CScalar), (''timeout_ms'', CScalar)]"

definition store_value :: "store_cfg \<Rightarrow> cvalue" where
  "store_value s = cobj
     [(''backend'', CStr (s_backend s)), (''path'', copt (s_path s)), (''url'', copt (s_url s)),
      (''metric'', copt (s_metric s)), (''dim'', CScalar),
      (''gc'', CStr (case s_gc s of Orphans \<Rightarrow> ''orphans'' | Never \<Rightarrow> ''never''))]"

definition raw_value :: "raw_config \<Rightarrow> cvalue" where
  "raw_value raw = cobj
     [(''schema_version'', CScalar), (''project'', cobj [(''name'', copt (project_name raw))]),
      (''spine'', cobj [(''retain_cap'', CScalar), (''default_hash_profile'', CStr (sp_default_hash_profile (spine raw)))]),
      (''hashing'', cobj [(''profiles'', CTable (map (\<lambda>(k, p). (k, cobj
         [(''whitespace_insensitive'', CScalar), (''normalize_trailing_commas'', CScalar),
          (''include_comments'', CScalar), (''include_docstrings'', CScalar)])) (profiles raw)))]),
      (''layers'', CTable (map (\<lambda>(k, l). (k, layer_value l)) (layers raw))),
      (''generators'', CTable (map (\<lambda>(k, g). (k, generator_value g)) (generators raw))),
      (''stores'', CTable (map (\<lambda>(k, s). (k, store_value s)) (stores raw))),
      (''coordination'', cobj
         [(''bus'', cobj [(''queue_capacity'', CScalar), (''overflow'', CStr (bus_overflow (bus raw)))]),
          (''watcher'', cobj [(''enabled'', CScalar), (''debounce_ms'', CScalar)])]),
      (''code_graph'', cobj [(''precision'', CStr (cg_precision (code_graph raw))),
         (''refinement'', CStr (cg_refinement (code_graph raw)))]),
      (''sidecar'', cobj [(''gitignore_cache'', CScalar)])]"

definition lint_secrets :: "raw_config \<Rightarrow> (config_error, unit) result" where
  "lint_secrets raw = lint_secret_value ''$'' (raw_value raw)"

text \<open>The checks of \<open>validate\<close>, one per loop over the layers, in the order of the code.\<close>

definition each_layer ::
  "(str \<Rightarrow> layer_cfg \<Rightarrow> (config_error, unit) result) \<Rightarrow> raw_config \<Rightarrow> (config_error, unit) result" where
  "each_layer f raw = fold_result (\<lambda>(name, layer) _. f name layer) (layers raw) ()"

definition layer_profile :: "raw_config \<Rightarrow> layer_cfg \<Rightarrow> str" where
  "layer_profile raw layer =
     (case l_hash_profile layer of Some p \<Rightarrow> p | None \<Rightarrow> sp_default_hash_profile (spine raw))"

definition check_profile :: "raw_config \<Rightarrow> str \<Rightarrow> layer_cfg \<Rightarrow> (config_error, unit) result" where
  "check_profile raw name layer =
     (if map_of (profiles raw) (layer_profile raw layer) = None
      then Inl (DanglingRef (''layers.'' @ name @ ''.hash_profile'') (layer_profile raw layer))
      else Inr ())"

definition check_derived_refs :: "raw_config \<Rightarrow> str \<Rightarrow> layer_cfg \<Rightarrow> (config_error, unit) result" where
  "check_derived_refs raw name layer =
     (if l_origin layer = Derived then
        (case l_generator layer of
           None \<Rightarrow> Inl (OriginViolation (''layers.'' @ name @ ''.generator is required for derived layers''))
         | Some generator \<Rightarrow>
             if map_of (generators raw) generator = None
             then Inl (DanglingRef (''layers.'' @ name @ ''.generator'') generator)
             else
               (case l_store layer of
                  None \<Rightarrow> Inl (OriginViolation (''layers.'' @ name @ ''.store is required for derived layers''))
                | Some store \<Rightarrow>
                    if map_of (stores raw) store = None
                    then Inl (DanglingRef (''layers.'' @ name @ ''.store'') store)
                    else Inr ()))
      else Inr ())"

definition check_authored_deps :: "raw_config \<Rightarrow> str \<Rightarrow> layer_cfg \<Rightarrow> (config_error, unit) result" where
  "check_authored_deps raw name layer =
     fold_result (\<lambda>dep _.
       (case map_of (layers raw) dep of
          None \<Rightarrow> Inr ()
        | Some dep_layer \<Rightarrow>
            if l_origin dep_layer = Authored
            then Inl (OriginViolation (''layers.'' @ name @ ''.depends_on references authored layer '' @ dep))
            else Inr ())) (effective_depends_on layer) ()"

definition check_origin_keys :: "str \<Rightarrow> layer_cfg \<Rightarrow> (config_error, unit) result" where
  "check_origin_keys name layer =
     (case l_origin layer of
        Derived \<Rightarrow>
          if (case l_generator_version layer of None \<Rightarrow> [] | Some v \<Rightarrow> v) = []
          then Inl (OriginViolation (''layers.'' @ name @ ''.generator_version is required for derived layers''))
          else Inr ()
      | Authored \<Rightarrow>
          if l_depends_on layer \<noteq> [] \<or> l_generator layer \<noteq> None \<or> l_generator_version layer \<noteq> None
             \<or> l_hash_profile layer \<noteq> None \<or> l_store layer \<noteq> None
          then Inl (OriginViolation (''layers.'' @ name @ '' is authored but defines derived-only keys''))
          else Inr ())"

definition check_kinds :: "str \<Rightarrow> layer_cfg \<Rightarrow> (config_error, unit) result" where
  "check_kinds name layer =
     fold_result (\<lambda>kind _.
       if is_known_kind kind then Inr ()
       else Inl (UnknownKind (''layers.'' @ name @ ''.entity_kinds contains '' @ kind))) (l_entity_kinds layer) ()"

definition check_dims :: "raw_config \<Rightarrow> str \<Rightarrow> layer_cfg \<Rightarrow> (config_error, unit) result" where
  "check_dims raw name layer =
     (case (l_generator layer, l_store layer) of
        (Some generator, Some store) \<Rightarrow>
          (case (Option.bind (map_of (generators raw) generator) g_dim, Option.bind (map_of (stores raw) store) s_dim) of
             (Some gd, Some sd) \<Rightarrow>
               if gd \<noteq> sd
               then Inl (DimMismatch (''layers.'' @ name @ '': generator '' @ generator @ '' dim '' @ nat_to_string gd
                      @ '' != store '' @ store @ '' dim '' @ nat_to_string sd))
               else Inr ()
           | _ \<Rightarrow> Inr ())
      | _ \<Rightarrow> Inr ())"

definition check_coordination :: "raw_config \<Rightarrow> (config_error, unit) result" where
  "check_coordination raw =
     (if bus_overflow (bus raw) \<in> {''coalesce'', ''drop_and_mark_lagged'', ''error_and_close''} then Inr ()
      else Inl (BlockingOverflow (bus_overflow (bus raw))))"

definition check_code_graph :: "raw_config \<Rightarrow> (config_error, unit) result" where
  "check_code_graph raw =
     (if cg_precision (code_graph raw) \<notin> {''container'', ''method''}
      then Inl (InvalidValue ''code_graph.precision'' (cg_precision (code_graph raw)) ''container, method'')
      else if cg_refinement (code_graph raw) \<notin> {''sync'', ''async''}
      then Inl (InvalidValue ''code_graph.refinement'' (cg_refinement (code_graph raw)) ''sync, async'')
      else Inr ())"

definition check_before_order :: "raw_config \<Rightarrow> (config_error, unit) result" where
  "check_before_order raw =
     (if schema_version raw \<noteq> current_schema_version then Inl (UnknownSchemaVersion (schema_version raw))
      else if map_of (profiles raw) (sp_default_hash_profile (spine raw)) = None
      then Inl (DanglingRef ''spine.default_hash_profile'' (sp_default_hash_profile (spine raw)))
      else
        rbind (each_layer (check_profile raw) raw) (\<lambda>_.
        rbind (each_layer (check_derived_refs raw) raw) (\<lambda>_.
        if map_of (layers raw) ''code'' \<noteq> None then Inl (ReservedName ''code'') else Inr ())))"

definition check_after_order :: "raw_config \<Rightarrow> (config_error, unit) result" where
  "check_after_order raw =
     rbind (each_layer (check_authored_deps raw) raw) (\<lambda>_.
     rbind (each_layer check_origin_keys raw) (\<lambda>_.
     rbind (each_layer check_kinds raw) (\<lambda>_.
     rbind (each_layer (check_dims raw) raw) (\<lambda>_.
     rbind (check_coordination raw) (\<lambda>_.
     rbind (check_code_graph raw) (\<lambda>_.
     lint_secrets raw))))))"

definition validate :: "raw_config \<Rightarrow> (config_error, validated_config) result option" where
  "validate raw =
     (case check_before_order raw of
        Inl e \<Rightarrow> Some (Inl e)
      | Inr _ \<Rightarrow>
          (case topo_order raw of
             None \<Rightarrow> None
           | Some (Inl e) \<Rightarrow> Some (Inl e)
           | Some (Inr order) \<Rightarrow>
               Some (rbind (check_after_order raw) (\<lambda>_. Inr \<lparr>vc_raw = raw, vc_topo_order = order\<rparr>))))"

section \<open>Lookups on a validated configuration\<close>

record hash_policy =
  ignore_whitespace :: bool
  ignore_trailing_comma :: bool
  include_docstrings :: bool
  include_comments :: bool

definition hash_policy_default :: hash_policy where
  "hash_policy_default = \<lparr>ignore_whitespace = True, ignore_trailing_comma = True,
     include_docstrings = False, include_comments = False\<rparr>"

definition matches_hash_policy_default :: "hash_profile_cfg \<Rightarrow> bool" where
  "matches_hash_policy_default profile \<longleftrightarrow>
     hp_whitespace_insensitive profile = ignore_whitespace hash_policy_default
     \<and> hp_normalize_trailing_commas profile = ignore_trailing_comma hash_policy_default
     \<and> hp_include_comments profile = include_comments hash_policy_default
     \<and> hp_include_docstrings profile = include_docstrings hash_policy_default"

definition hash_policy_from :: "hash_profile_cfg \<Rightarrow> hash_policy" where
  "hash_policy_from p = \<lparr>ignore_whitespace = hp_whitespace_insensitive p,
     ignore_trailing_comma = hp_normalize_trailing_commas p,
     include_docstrings = hp_include_docstrings p, include_comments = hp_include_comments p\<rparr>"

text \<open>Map indexing panics on a missing key: \<open>None\<close>.\<close>

definition profile_for :: "validated_config \<Rightarrow> str \<Rightarrow> hash_profile_cfg option" where
  "profile_for vc layer =
     (if layer = ''code'' then map_of (profiles (vc_raw vc)) (sp_default_hash_profile (spine (vc_raw vc)))
      else
        (case map_of (layers (vc_raw vc)) layer of
           None \<Rightarrow> None
         | Some l \<Rightarrow> map_of (profiles (vc_raw vc)) (layer_profile (vc_raw vc) l)))"

definition hash_policy_for :: "validated_config \<Rightarrow> str \<Rightarrow> hash_policy option" where
  "hash_policy_for vc layer = map_option hash_policy_from (profile_for vc layer)"

definition authored_layer_config :: "validated_config \<Rightarrow> str \<Rightarrow> layer_cfg option" where
  "authored_layer_config vc layer =
     (case map_of (layers (vc_raw vc)) layer of
        None \<Rightarrow> None
      | Some l \<Rightarrow> if l_origin l = Authored then Some l else None)"

end
