(* ===== verification/Layer_Order.thy ===== *)
theory Layer_Order
  imports Config "HOL-Library.Multiset"
begin

text \<open>
  Correctness of the configuration checks of \<open>Config\<close>: the topological order of the layers
  (the loop of \<open>topo_order\<close> never panics, finds an order exactly when there is one, and the
  order respects the dependencies), what a validated configuration guarantees, and the
  expansion of placeholders.
\<close>

section \<open>The dependency graph\<close>

definition dep_edges :: "raw_config \<Rightarrow> (str \<times> str) list" where
  "dep_edges raw = concat (map (\<lambda>(name, layer). map (\<lambda>dep. (dep, name)) (effective_depends_on layer)) (layers raw))"

definition graph_nodes :: "raw_config \<Rightarrow> str set" where
  "graph_nodes raw = insert ''code'' (fst ` set (layers raw))"

definition targets_of :: "(str \<times> str) list \<Rightarrow> str \<Rightarrow> str list" where
  "targets_of E d = map snd (filter (\<lambda>e. fst e = d) E)"

definition open_deps :: "(str \<times> str) list \<Rightarrow> str set \<Rightarrow> str \<Rightarrow> nat" where
  "open_deps E finished n = length (filter (\<lambda>(d, x). x = n \<and> d \<notin> finished) E)"

lemma topo_build_edges:
  "topo_build raw = fold_result (\<lambda>(dep, name). topo_dep raw name dep) (dep_edges raw) (topo_maps_init raw)"
proof -
  have inner: "fold_result (topo_dep raw name) deps m =
      fold_result (\<lambda>(dep, name). topo_dep raw name dep) (map (\<lambda>dep. (dep, name)) deps) m" for name deps m
    by (induction deps arbitrary: m) (auto simp: rbind_def split: sum.splits)
  have "fold_result (\<lambda>(name, layer). fold_result (topo_dep raw name) (effective_depends_on layer)) ls m =
      fold_result (\<lambda>(dep, name). topo_dep raw name dep)
        (concat (map (\<lambda>(name, layer). map (\<lambda>dep. (dep, name)) (effective_depends_on layer)) ls)) m" for ls m
    by (induction ls arbitrary: m) (auto simp: inner fold_result_append rbind_def split: sum.splits)
  then show ?thesis by (simp add: topo_build_def dep_edges_def)
qed

text \<open>What the maps hold after the edges \<open>P\<close>.\<close>

definition graph_inv :: "raw_config \<Rightarrow> (str \<times> str) list \<Rightarrow> topo_maps \<Rightarrow> bool" where
  "graph_inv raw P m \<longleftrightarrow>
     distinct (map fst (incoming m)) \<and> fst ` set (incoming m) = graph_nodes raw \<and>
     (\<forall>n\<in>graph_nodes raw. map_of (incoming m) n = Some (open_deps P {} n)) \<and>
     bt_inv (outgoing m) \<and>
     (\<forall>d. (case map_of (outgoing m) d of None \<Rightarrow> [] | Some ts \<Rightarrow> ts) = targets_of P d)"

lemma graph_inv_init: "graph_inv raw [] (topo_maps_init raw)"
proof -
  let ?f = "\<lambda>names m. fold (\<lambda>name. bt_insert name (0::nat)) names m"
  have keep: "bt_inv m \<Longrightarrow> bt_inv (?f names m)" for names m
    by (induction names arbitrary: m) (auto intro: bt_inv_insert)
  have get: "bt_inv m \<Longrightarrow> map_of (?f names m) n = (if n \<in> set names then Some 0 else map_of m n)" for names m n
    by (induction names arbitrary: m) (auto simp: bt_inv_insert map_of_bt_insert)
  have one: "bt_inv (bt_insert ''code'' (0::nat) [])" by (simp add: bt_inv_def)
  have dom: "fst ` set (?f names m) = set names \<union> fst ` set m" for names m
    by (induction names arbitrary: m) auto
  show ?thesis
    using keep [OF one, of "map fst (layers raw)"] get [OF one, of "map fst (layers raw)"]
    by (auto simp: graph_inv_def topo_maps_init_def graph_nodes_def dom open_deps_def targets_of_def
        bt_inv_distinct bt.inv_empty)
qed

lemma graph_inv_dep:
  assumes "graph_inv raw P m" "name \<in> graph_nodes raw"
  shows "(dep \<noteq> ''code'' \<and> map_of (layers raw) dep = None \<and> (\<exists>k. topo_dep raw name dep m = Inl (Some (DanglingRef k dep)))) \<or>
    (dep \<in> graph_nodes raw \<and> (\<exists>m'. topo_dep raw name dep m = Inr m' \<and> graph_inv raw (P @ [(dep, name)]) m'))"
proof (cases "dep \<noteq> ''code'' \<and> map_of (layers raw) dep = None")
  case True
  then show ?thesis by (simp add: topo_dep_def)
next
  case False
  have inc: "map_of (incoming m) name = Some (open_deps P {} name)"
    using assms by (simp add: graph_inv_def)
  let ?ts = "case map_of (outgoing m) dep of None \<Rightarrow> [] | Some ts \<Rightarrow> ts"
  let ?m = "m\<lparr>incoming := AList.update name (open_deps P {} name + 1) (incoming m),
      outgoing := bt_insert dep (?ts @ [name]) (outgoing m)\<rparr>"
  have "topo_dep raw name dep m = Inr ?m" using False inc by (simp add: topo_dep_def)
  moreover have "graph_inv raw (P @ [(dep, name)]) ?m"
    unfolding graph_inv_def
  proof (intro conjI ballI allI)
    note inv = assms(1) [unfolded graph_inv_def]
    show "distinct (map fst (incoming ?m))" using inv by (simp add: distinct_update)
    show "fst ` set (incoming ?m) = graph_nodes raw" using inv assms(2) by (auto simp: dom_update)
    show "bt_inv (outgoing ?m)" using inv by (simp add: bt_inv_insert)
    show "map_of (incoming ?m) n = Some (open_deps (P @ [(dep, name)]) {} n)" if "n \<in> graph_nodes raw" for n
      using inv that by (simp add: update_conv' open_deps_def)
    show "(case map_of (outgoing ?m) d of None \<Rightarrow> [] | Some ts \<Rightarrow> ts) = targets_of (P @ [(dep, name)]) d" for d
      using inv by (simp add: map_of_bt_insert targets_of_def)
  qed
  moreover have "dep \<in> graph_nodes raw"
    using False by (auto simp: graph_nodes_def map_of_eq_None_iff)
  ultimately show ?thesis by blast
qed

lemma dep_edges_mem:
  "(d, n) \<in> set (dep_edges raw) \<longleftrightarrow> (\<exists>layer. (n, layer) \<in> set (layers raw) \<and> d \<in> set (effective_depends_on layer))"
  by (auto simp: dep_edges_def)

text \<open>Some layer depends on a name that is not declared.\<close>

definition dangling_dep :: "raw_config \<Rightarrow> bool" where
  "dangling_dep raw \<longleftrightarrow> (\<exists>(d, n)\<in>set (dep_edges raw). d \<notin> graph_nodes raw)"

lemma topo_build_cases:
  "(dangling_dep raw \<and> (\<exists>k d. topo_build raw = Inl (Some (DanglingRef k d)))) \<or>
   (\<not> dangling_dep raw \<and> (\<exists>m. topo_build raw = Inr m \<and> graph_inv raw (dep_edges raw) m))"
proof -
  have "(\<exists>(d, n)\<in>set Q. d \<notin> graph_nodes raw) \<and>
      (\<exists>k d. fold_result (\<lambda>(dep, name). topo_dep raw name dep) Q m = Inl (Some (DanglingRef k d))) \<or>
      \<not> (\<exists>(d, n)\<in>set Q. d \<notin> graph_nodes raw) \<and>
      (\<exists>m'. fold_result (\<lambda>(dep, name). topo_dep raw name dep) Q m = Inr m' \<and> graph_inv raw (P @ Q) m')"
    if "graph_inv raw P m" "\<forall>(d, n)\<in>set Q. n \<in> graph_nodes raw" for P Q m
    using that
  proof (induction Q arbitrary: P m)
    case (Cons e Q)
    obtain d n where e: "e = (d, n)" by (cases e)
    with Cons.prems have "n \<in> graph_nodes raw" by simp
    from graph_inv_dep [OF Cons.prems(1) this, of d] show ?case
    proof (elim disjE conjE exE)
      fix k assume "d \<noteq> ''code''" "map_of (layers raw) d = None" "topo_dep raw n d m = Inl (Some (DanglingRef k d))"
      then show ?thesis by (auto simp: e graph_nodes_def map_of_eq_None_iff)
    next
      fix m1 assume "d \<in> graph_nodes raw" "topo_dep raw n d m = Inr m1" "graph_inv raw (P @ [(d, n)]) m1"
      with Cons.IH [of "P @ [(d, n)]" m1] Cons.prems(2) show ?thesis by (auto simp: e)
    qed
  qed simp
  moreover have "\<forall>(d, n)\<in>set (dep_edges raw). n \<in> graph_nodes raw"
    by (force simp: dep_edges_mem graph_nodes_def)
  ultimately show ?thesis
    using graph_inv_init [of raw] unfolding topo_build_edges dangling_dep_def by (metis append_Nil)
qed

section \<open>The loop\<close>

lemma topo_targets:
  assumes "\<And>n. n \<in> set ts \<Longrightarrow> \<exists>c. map_of inc n = Some c \<and> count_list ts n \<le> c"
    "distinct ready" "set ts \<inter> set ready = {}"
  shows "\<exists>ready' inc'. fold_option topo_target ts (ready, inc) = Some (ready', inc') \<and> distinct ready' \<and>
    set ready' = set ready \<union> {n \<in> set ts. map_of inc n = Some (count_list ts n)} \<and>
    (\<forall>n. map_of inc' n = map_option (\<lambda>c. c - count_list ts n) (map_of inc n)) \<and> fst ` set inc' = fst ` set inc"
  using assms
proof (induction ts arbitrary: ready inc)
  case Nil
  then show ?case by (simp add: option.map_ident)
next
  case (Cons t ts)
  from Cons.prems(1) [of t] obtain c where c: "map_of inc t = Some (Suc c)" "count_list ts t \<le> c"
    by (auto simp: Suc_le_eq less_iff_Suc_add)
  define inc1 where "inc1 = AList.update t c inc"
  define ready1 where "ready1 = (if c = 0 then sort (ready @ [t]) else ready)"
  have step: "topo_target t (ready, inc) = Some (ready1, inc1)"
    using c by (simp add: topo_target_def inc1_def ready1_def)
  have get1: "map_of inc1 n = (if n = t then Some c else map_of inc n)" for n
    by (simp add: inc1_def update_conv')
  have tc: "t \<in> set ts \<or> count_list ts t = 0" by (simp add: count_list_0_iff)
  have tts: "c = 0 \<Longrightarrow> t \<notin> set ts" using c(2) by (simp add: count_list_0_iff)
  have "\<exists>d. map_of inc1 n = Some d \<and> count_list ts n \<le> d" if "n \<in> set ts" for n
    using that Cons.prems(1) [of n] c(2) by (auto simp: get1 split: if_splits)
  moreover have "distinct ready1" "set ts \<inter> set ready1 = {}"
    using Cons.prems(2,3) tts by (auto simp: ready1_def)
  ultimately obtain ready' inc' where IH: "fold_option topo_target ts (ready1, inc1) = Some (ready', inc')" "distinct ready'"
    "set ready' = set ready1 \<union> {n \<in> set ts. map_of inc1 n = Some (count_list ts n)}"
    "\<forall>n. map_of inc' n = map_option (\<lambda>c. c - count_list ts n) (map_of inc1 n)" "fst ` set inc' = fst ` set inc1"
    using Cons.IH [of inc1 ready1] by blast
  have keys: "fst ` set inc' = fst ` set inc"
    using IH(5) c(1) by (auto simp: inc1_def dom_update dest: map_of_SomeD intro: rev_image_eqI)
  have rd: "set ready' = set ready \<union> {n \<in> set (t # ts). map_of inc n = Some (count_list (t # ts) n)}"
  proof -
    have "n \<in> set ready1 \<or> n \<in> set ts \<and> map_of inc1 n = Some (count_list ts n) \<longleftrightarrow>
        n \<in> set ready \<or> n \<in> set (t # ts) \<and> map_of inc n = Some (count_list (t # ts) n)" for n
      using c tts tc by (cases "n = t"; cases "c = 0") (auto simp: ready1_def get1)
    then show ?thesis using IH(3) by blast
  qed
  have cnt: "map_of inc' n = map_option (\<lambda>c. c - count_list (t # ts) n) (map_of inc n)" for n
    using IH(4) c by (auto simp: get1)
  show ?case using step IH(1,2) rd cnt keys by simp
qed

definition topo_sorted :: "(str \<times> str) list \<Rightarrow> str list \<Rightarrow> bool" where
  "topo_sorted E order \<longleftrightarrow> (\<forall>xs n ys. order = xs @ n # ys \<longrightarrow> (\<forall>d. (d, n) \<in> set E \<longrightarrow> d \<in> set xs))"

definition loop_inv ::
  "str set \<Rightarrow> (str \<times> str) list \<Rightarrow> str list \<Rightarrow> (str, nat) btree_map \<Rightarrow> str list \<Rightarrow> bool" where
  "loop_inv N E ready inc order \<longleftrightarrow>
     distinct (order @ ready) \<and> set (order @ ready) \<subseteq> N \<and> fst ` set inc = N \<and>
     (\<forall>n\<in>N. map_of inc n = Some (open_deps E (set order) n)) \<and>
     (\<forall>n\<in>N. n \<in> set (order @ ready) \<longleftrightarrow> open_deps E (set order) n = 0) \<and> topo_sorted E order"

lemma loop_invD:
  assumes "loop_inv N E ready inc order"
  shows "distinct (order @ ready)" "set (order @ ready) \<subseteq> N" "fst ` set inc = N"
    "n \<in> N \<Longrightarrow> map_of inc n = Some (open_deps E (set order) n)"
    "n \<in> N \<Longrightarrow> n \<in> set (order @ ready) \<longleftrightarrow> open_deps E (set order) n = 0"
    "topo_sorted E order"
proof -
  note c = assms [unfolded loop_inv_def]
  show "distinct (order @ ready)" using c by (elim conjE)
  show "set (order @ ready) \<subseteq> N" using c by (elim conjE)
  show "fst ` set inc = N" using c by (elim conjE)
  show "topo_sorted E order" using c by (elim conjE)
  show "map_of inc n = Some (open_deps E (set order) n)" if "n \<in> N"
    using c that by (elim conjE) (drule (1) bspec, assumption)
  show "n \<in> set (order @ ready) \<longleftrightarrow> open_deps E (set order) n = 0" if "n \<in> N"
    using c that by (elim conjE) (drule (1) bspec, drule (1) bspec, assumption)
qed

lemma open_deps_0_iff: "open_deps E D n = 0 \<longleftrightarrow> (\<forall>d. (d, n) \<in> set E \<longrightarrow> d \<in> D)"
  by (auto simp: open_deps_def filter_empty_conv)

lemma open_deps_insert:
  "node \<notin> D \<Longrightarrow> open_deps E (insert node D) n = open_deps E D n - count_list (targets_of E node) n \<and>
     count_list (targets_of E node) n \<le> open_deps E D n"
  by (induction E) (auto simp: open_deps_def targets_of_def)

lemma topo_sorted_snoc:
  assumes "topo_sorted E order" "\<forall>d. (d, n) \<in> set E \<longrightarrow> d \<in> set order"
  shows "topo_sorted E (order @ [n])"
  unfolding topo_sorted_def
proof (intro allI impI)
  fix xs m ys d assume o: "order @ [n] = xs @ m # ys" and d: "(d, m) \<in> set E"
  show "d \<in> set xs"
  proof (cases ys rule: rev_cases)
    case Nil
    with o d assms(2) show ?thesis by simp
  next
    case (snoc zs z)
    with o have "order = xs @ m # zs" by simp
    with assms(1) d show ?thesis by (auto simp: topo_sorted_def)
  qed
qed

lemma loop_inv_step:
  assumes inv: "loop_inv N E (node # rest) inc order" and N: "\<forall>(d, n)\<in>set E. n \<in> N"
    and ts: "mset ts = mset (targets_of E node)"
  shows "\<exists>ready' inc'. fold_option topo_target ts (rest, inc) = Some (ready', inc') \<and>
    loop_inv N E ready' inc' (order @ [node])"
proof -
  note i = loop_invD [OF inv]
  have node: "node \<in> N" "node \<notin> set order" "node \<notin> set rest" using i(1,2) by auto
  have cnt: "count_list ts n = count_list (targets_of E node) n" for n
    using ts by (metis count_mset)
  note od = open_deps_insert [OF node(2), of E]
  have tset: "set ts = {n. (node, n) \<in> set E}"
    using mset_eq_setD [OF ts] by (force simp: targets_of_def)
  have tsN: "set ts \<subseteq> N" using N tset by blast
  have pre: "\<exists>c. map_of inc n = Some c \<and> count_list ts n \<le> c" if "n \<in> set ts" for n
  proof -
    have "n \<in> N" using that tsN by blast
    then have "map_of inc n = Some (open_deps E (set order) n)" by (rule i(4))
    with od [of n] cnt [of n] show ?thesis by simp
  qed
  have disj: "set ts \<inter> set rest = {}"
  proof -
    have "n \<notin> set rest" if "n \<in> set ts" for n
    proof
      assume "n \<in> set rest"
      then have "open_deps E (set order) n = 0" using i(5) [of n] tsN that by auto
      with od [of n] cnt [of n] have "count_list ts n = 0" by simp
      with that show False by (simp add: count_list_0_iff)
    qed
    then show ?thesis by blast
  qed
  have "distinct rest" using i(1) by simp
  then obtain ready' inc' where
    r: "fold_option topo_target ts (rest, inc) = Some (ready', inc')" "distinct ready'"
      "set ready' = set rest \<union> {n \<in> set ts. map_of inc n = Some (count_list ts n)}"
      "\<forall>n. map_of inc' n = map_option (\<lambda>c. c - count_list ts n) (map_of inc n)" "fst ` set inc' = fst ` set inc"
    using topo_targets [of ts inc rest] pre disj by blast
  have dep0: "\<forall>d. (d, node) \<in> set E \<longrightarrow> d \<in> set order"
    using i(5) [OF node(1)] by (simp add: open_deps_0_iff)
  have new: "n \<in> set ts \<Longrightarrow> n \<notin> set order \<and> n \<noteq> node" for n
  proof -
    assume n: "n \<in> set ts"
    then have "(node, n) \<in> set E" using tset by blast
    then have "open_deps E (set order) n \<noteq> 0" using node(2) by (auto simp: open_deps_0_iff)
    moreover have "n \<in> N" using n tsN by blast
    ultimately have "n \<notin> set (order @ node # rest)" using i(5) [of n] by simp
    then show ?thesis by simp
  qed
  have "loop_inv N E ready' inc' (order @ [node])"
    unfolding loop_inv_def
  proof (intro conjI ballI)
    have "x \<notin> set order \<and> x \<noteq> node" if "x \<in> set ready'" for x
    proof -
      from that r(3) consider "x \<in> set rest" | "x \<in> set ts" by blast
      then show ?thesis using i(1) new by cases auto
    qed
    then show "distinct ((order @ [node]) @ ready')" using i(1) r(2) by auto
    show "set ((order @ [node]) @ ready') \<subseteq> N" using i(2) r(3) tsN by auto
    show "fst ` set inc' = N" using i(3) r(5) by simp
    show "topo_sorted E (order @ [node])" using i(6) dep0 by (simp add: topo_sorted_snoc)
    fix n assume n: "n \<in> N"
    show "map_of inc' n = Some (open_deps E (set (order @ [node])) n)"
      using i(4) [OF n] r(4) od [of n] cnt by simp
    have od': "open_deps E (set (order @ [node])) n = open_deps E (set order) n - count_list ts n"
      "count_list ts n \<le> open_deps E (set order) n" using od [of n] cnt [of n] by simp_all
    show "n \<in> set ((order @ [node]) @ ready') \<longleftrightarrow> open_deps E (set (order @ [node])) n = 0"
    proof (cases "n \<in> set ts")
      case True
      with new disj r(3) i(4) [OF n]
      have "n \<in> set ((order @ [node]) @ ready') \<longleftrightarrow> open_deps E (set order) n = count_list ts n" by auto
      with od' show ?thesis by simp
    next
      case False
      then have "count_list ts n = 0" by (simp add: count_list_0_iff)
      moreover from False r(3) have "n \<in> set ((order @ [node]) @ ready') \<longleftrightarrow> n \<in> set (order @ node # rest)" by auto
      ultimately show ?thesis using i(5) [OF n] od' by simp
    qed
  qed
  with r(1) show ?thesis by blast
qed

lemma topo_loop_correct:
  assumes "loop_inv N E ready inc order" "\<forall>(d, n)\<in>set E. n \<in> N"
    "\<forall>d. mset (case map_of out d of None \<Rightarrow> [] | Some ts \<Rightarrow> ts) = mset (targets_of E d)"
  shows "\<exists>order' inc'. topo_loop out ready inc order = Some (order', inc') \<and> loop_inv N E [] inc' order'"
  using assms(1,3)
proof (induction out ready inc order rule: topo_loop.induct)
  case (1 out ready inc order)
  show ?case
  proof (cases ready)
    case Nil
    with 1 show ?thesis by (simp add: topo_loop.simps)
  next
    case (Cons node rest)
    let ?ts = "case map_of out node of None \<Rightarrow> [] | Some ts \<Rightarrow> ts"
    have "mset ?ts = mset (targets_of E node)" using 1(4) by blast
    from loop_inv_step [OF 1(3) [unfolded Cons] assms(2) this] obtain ready' inc' where
      f: "fold_option topo_target ?ts (rest, inc) = Some (ready', inc')"
        "loop_inv N E ready' inc' (order @ [node])" by blast
    show ?thesis
    proof (cases "map_of out node")
      case None
      with f have "loop_inv N E rest inc (order @ [node])" by simp
      from 1(1) [OF Cons None this 1(4)] None show ?thesis unfolding Cons by (subst topo_loop.simps) simp
    next
      case (Some ts)
      with f have g: "fold_option topo_target ts (rest, inc) = Some (ready', inc')" by simp
      from 1(2) [OF Cons Some g refl f(2) 1(4)] Some g show ?thesis
        unfolding Cons by (subst topo_loop.simps) simp
    qed
  qed
qed

lemma loop_inv_init:
  assumes "graph_inv raw E m"
  shows "loop_inv (graph_nodes raw) E (sort (map fst (filter (\<lambda>(name, count). count = 0) (incoming m)))) (incoming m) []"
proof -
  note g = assms [unfolded graph_inv_def]
  have "distinct (map fst (filter (\<lambda>(name, count). count = 0) (incoming m)))"
    using g by (simp add: distinct_map_filter)
  moreover have "n \<in> fst ` set (filter (\<lambda>(name, count). count = 0) (incoming m)) \<longleftrightarrow> open_deps E {} n = 0"
    if "n \<in> graph_nodes raw" for n
  proof -
    have "map_of (incoming m) n = Some (open_deps E {} n)" using g that by blast
    then have "(n, c) \<in> set (incoming m) \<longleftrightarrow> c = open_deps E {} n" for c
      using g by (metis Some_eq_map_of_iff option.inject)
    then have "n \<in> fst ` set (filter (\<lambda>(name, count). count = 0) (incoming m)) \<longleftrightarrow> (n, 0) \<in> set (incoming m)"
      by (force simp: image_iff)
    with \<open>\<And>c. (n, c) \<in> set (incoming m) \<longleftrightarrow> c = open_deps E {} n\<close> [of 0] show ?thesis by auto
  qed
  ultimately show ?thesis
    unfolding loop_inv_def
  proof (intro conjI ballI)
    show "set ([] @ sort (map fst (filter (\<lambda>(name, count). count = 0) (incoming m)))) \<subseteq> graph_nodes raw"
      using g by auto
  qed (use g in \<open>simp_all add: topo_sorted_def\<close>)
qed

text \<open>The relation \<open>dep before name\<close>, and the two ways the order can fail.\<close>

definition depends_rel :: "raw_config \<Rightarrow> (str \<times> str) set" where
  "depends_rel raw = set (dep_edges raw)"

lemma takeWhile_upto: "n \<notin> set xs \<Longrightarrow> takeWhile (\<lambda>x. x \<noteq> n) (xs @ n # ys) = xs"
  by (induction xs) auto

lemma topo_sorted_acyclic:
  assumes "topo_sorted E order" "distinct order" "fst ` set E \<union> snd ` set E \<subseteq> set order"
  shows "acyclic (set E)"
proof -
  define pos where "pos = (\<lambda>n. length (takeWhile (\<lambda>x. x \<noteq> n) order))"
  have "pos d < pos n" if "(d, n) \<in> set E" for d n
  proof -
    have "n \<in> set order" using that assms(3) by force
    then obtain xs ys where o: "order = xs @ n # ys" by (meson split_list)
    then have n: "n \<notin> set xs" using assms(2) by simp
    have d: "d \<in> set xs" using assms(1) that o by (auto simp: topo_sorted_def)
    then obtain us vs where x: "xs = us @ d # vs" "d \<notin> set us" by (meson split_list_first)
    have "takeWhile (\<lambda>x. x \<noteq> n) order = xs" using n by (simp add: o takeWhile_upto)
    moreover have "takeWhile (\<lambda>x. x \<noteq> d) order = us" using x(2) by (simp add: o x(1) takeWhile_upto)
    ultimately show ?thesis by (simp add: pos_def x(1))
  qed
  then have "set E \<subseteq> measure pos" by auto
  then show ?thesis by (meson acyclic_subset wf_acyclic wf_measure)
qed

lemma stuck_cyclic:
  assumes "loop_inv N E [] inc order" "set order \<noteq> N" "\<forall>(d, n)\<in>set E. d \<in> N"
  shows "\<not> acyclic (set E)"
proof
  assume "acyclic (set E)"
  then have wf: "wf (set E)" by (simp add: finite_acyclic_wf)
  have "\<exists>n. n \<in> N - set order" using assms(1,2) by (auto simp: loop_inv_def)
  with wf obtain z where z: "z \<in> N - set order" "\<And>y. (y, z) \<in> set E \<Longrightarrow> y \<notin> N - set order"
    by (metis wf_eq_minimal)
  have "open_deps E (set order) z \<noteq> 0" using assms(1) z(1) by (auto simp: loop_inv_def)
  then obtain d where d: "(d, z) \<in> set E" "d \<notin> set order" by (auto simp: open_deps_0_iff)
  with z(2) [OF d(1)] assms(3) show False by blast
qed

lemma sorted_outgoing:
  "mset (case map_of (map (\<lambda>(d, ts). (d, sort ts)) m) d of None \<Rightarrow> [] | Some ts \<Rightarrow> ts) =
   mset (case map_of m d of None \<Rightarrow> [] | Some ts \<Rightarrow> ts)"
  by (induction m) auto

lemma topo_order_cases:
  "(dangling_dep raw \<and> (\<exists>k d. topo_order raw = Some (Inl (DanglingRef k d)))) \<or>
   (\<not> dangling_dep raw \<and> \<not> acyclic (depends_rel raw) \<and> (\<exists>s. topo_order raw = Some (Inl (Cycle s)))) \<or>
   (\<not> dangling_dep raw \<and> acyclic (depends_rel raw) \<and> (\<exists>order. topo_order raw = Some (Inr order) \<and>
      distinct order \<and> set order = graph_nodes raw \<and> topo_sorted (dep_edges raw) order))"
proof -
  consider (dangle) k d where "dangling_dep raw" "topo_build raw = Inl (Some (DanglingRef k d))"
    | (built) m where "\<not> dangling_dep raw" "topo_build raw = Inr m" "graph_inv raw (dep_edges raw) m"
    using topo_build_cases [of raw] by blast
  then show ?thesis
  proof cases
    case dangle
    then show ?thesis by (simp add: topo_order_def)
  next
    case built
    let ?E = "dep_edges raw" and ?N = "graph_nodes raw"
    have N: "\<forall>(d, n)\<in>set ?E. n \<in> ?N" by (force simp: dep_edges_mem graph_nodes_def)
    have D: "\<forall>(d, n)\<in>set ?E. d \<in> ?N" using built(1) by (auto simp: dangling_dep_def)
    let ?out = "map (\<lambda>(d, ts). (d, sort ts)) (outgoing m)"
    have "\<forall>d. mset (case map_of ?out d of None \<Rightarrow> [] | Some ts \<Rightarrow> ts) = mset (targets_of ?E d)"
      unfolding sorted_outgoing using built(3) by (simp add: graph_inv_def)
    from topo_loop_correct [OF loop_inv_init [OF built(3)] N this] obtain order inc where
      l: "topo_loop ?out (sort (map fst (filter (\<lambda>(name, count). count = 0) (incoming m)))) (incoming m) [] =
        Some (order, inc)" "loop_inv ?N ?E [] inc order" by blast
    have o: "distinct order" "set order \<subseteq> ?N" "topo_sorted ?E order" using l(2) by (auto simp: loop_inv_def)
    have size: "length (incoming m) = card ?N"
      using built(3) by (metis distinct_card graph_inv_def length_map list.set_map)
    have fin: "finite ?N" by (simp add: graph_nodes_def)
    have len: "length order = length (incoming m) \<longleftrightarrow> set order = ?N"
      using o(1,2) size fin by (metis card_subset_eq distinct_card)
    show ?thesis
    proof (cases "set order = ?N")
      case True
      have "acyclic (set ?E)"
        by (rule topo_sorted_acyclic [OF o(3,1)]) (use N D True in force)
      with True built l o len show ?thesis by (simp add: topo_order_def Let_def depends_rel_def)
    next
      case False
      with stuck_cyclic [OF l(2) False D] built l len show ?thesis
        by (simp add: topo_order_def Let_def depends_rel_def)
    qed
  qed
qed

section \<open>Expansion and linting\<close>

lemma expand_loop_out:
  "expand_loop env secrets out rest = rbind (expand_string env secrets rest) (\<lambda>t. Inr (out @ t))"
proof -
  have "expand_loop env secrets (out @ out') rest = rbind (expand_loop env secrets out' rest) (\<lambda>t. Inr (out @ t))" for out'
  proof (induction env secrets out' rest rule: expand_loop.induct)
    case (1 env secrets out' rest)
    consider (plain) "find_sub ''${'' rest = None"
      | (unclosed) start where "find_sub ''${'' rest = Some start" "find_sub ''}'' (drop (start + 2) rest) = None"
      | (undefined) start stop where "find_sub ''${'' rest = Some start"
          "find_sub ''}'' (drop (start + 2) rest) = Some stop" "lookup_var env secrets (take stop (drop (start + 2) rest)) = None"
      | (found) start stop v where "find_sub ''${'' rest = Some start"
          "find_sub ''}'' (drop (start + 2) rest) = Some stop" "lookup_var env secrets (take stop (drop (start + 2) rest)) = Some v"
      by (meson not_None_eq)
    then show ?case
    proof cases
      case found
      from 1 [OF found(1) refl found(2) refl found(3)] found show ?thesis
        by (subst (1 2) expand_loop.simps) (simp add: Let_def)
    qed (subst (1 2) expand_loop.simps, simp add: Let_def)+
  qed
  from this [of "[]"] show ?thesis by (simp add: expand_string_def)
qed

fun strings_of :: "cvalue \<Rightarrow> str list"
  and strings_of_items :: "cvalue list \<Rightarrow> str list"
  and strings_of_entries :: "(str \<times> cvalue) list \<Rightarrow> str list" where
  "strings_of (CStr s) = [s]"
| "strings_of (CArr items) = strings_of_items items"
| "strings_of (CTable table) = strings_of_entries table"
| "strings_of CScalar = []"
| "strings_of_items [] = []"
| "strings_of_items (x # xs) = strings_of x @ strings_of_items xs"
| "strings_of_entries [] = []"
| "strings_of_entries ((k, x) # xs) = strings_of x @ strings_of_entries xs"

lemma lint_iff:
  "lint_secret_value path v = Inr () \<longleftrightarrow> (\<forall>s\<in>set (strings_of v). \<not> looks_like_secret s)"
  "lint_items path idx vs = Inr () \<longleftrightarrow> (\<forall>s\<in>set (strings_of_items vs). \<not> looks_like_secret s)"
  "lint_entries path es = Inr () \<longleftrightarrow> (\<forall>s\<in>set (strings_of_entries es). \<not> looks_like_secret s)"
  by (induction path v and path idx vs and path es rule: lint_secret_value_lint_items_lint_entries.induct)
    (auto simp: rbind_Inr_iff)

lemma each_layer_Inr:
  "each_layer f raw = Inr u \<longleftrightarrow> (\<forall>(name, layer)\<in>set (layers raw). f name layer = Inr ())"
proof -
  have "each_layer f raw = fold_result (\<lambda>x _. (case x of (name, layer) \<Rightarrow> f name layer)) (layers raw) ()"
    by (simp add: each_layer_def case_prod_beta')
  then show ?thesis using fold_result_unit_Inr_iff [of "\<lambda>x. (case x of (name, layer) \<Rightarrow> f name layer)" "layers raw"]
    by (simp add: case_prod_beta')
qed

lemma validate_parts:
  assumes "validate raw = Some (Inr vc)"
  shows "vc_raw vc = raw" "topo_order raw = Some (Inr (vc_topo_order vc))"
    "map_of (profiles raw) (sp_default_hash_profile (spine raw)) \<noteq> None"
    "map_of (layers raw) ''code'' = None" "lint_secrets raw = Inr ()"
    "(name, layer) \<in> set (layers raw) \<Longrightarrow> check_profile raw name layer = Inr ()"
    "(name, layer) \<in> set (layers raw) \<Longrightarrow> check_derived_refs raw name layer = Inr ()"
    "(name, layer) \<in> set (layers raw) \<Longrightarrow> check_authored_deps raw name layer = Inr ()"
    "(name, layer) \<in> set (layers raw) \<Longrightarrow> check_origin_keys name layer = Inr ()"
proof -
  have before: "check_before_order raw = Inr ()"
    using assms by (auto simp: validate_def split: sum.splits)
  then have order: "\<exists>order. topo_order raw = Some (Inr order) \<and> vc_topo_order vc = order \<and> vc_raw vc = raw"
    and after: "check_after_order raw = Inr ()"
    using assms by (auto simp: validate_def rbind_Inr_iff split: option.splits sum.splits)
  show "vc_raw vc = raw" "topo_order raw = Some (Inr (vc_topo_order vc))" using order by auto
  have b: "each_layer (check_profile raw) raw = Inr ()" "each_layer (check_derived_refs raw) raw = Inr ()"
    using before by (auto simp: check_before_order_def rbind_Inr_iff split: if_splits)
  have a: "each_layer (check_authored_deps raw) raw = Inr ()" "each_layer check_origin_keys raw = Inr ()"
    "lint_secrets raw = Inr ()"
    using after by (auto simp: check_after_order_def rbind_Inr_iff)
  show "map_of (profiles raw) (sp_default_hash_profile (spine raw)) \<noteq> None" "map_of (layers raw) ''code'' = None"
    using before by (auto simp: check_before_order_def rbind_Inr_iff split: if_splits)
  show "lint_secrets raw = Inr ()" by (rule a(3))
  assume l: "(name, layer) \<in> set (layers raw)"
  show "check_profile raw name layer = Inr ()" using b(1) l unfolding each_layer_Inr by auto
  show "check_derived_refs raw name layer = Inr ()" using b(2) l unfolding each_layer_Inr by auto
  show "check_authored_deps raw name layer = Inr ()" using a(1) l unfolding each_layer_Inr by auto
  show "check_origin_keys name layer = Inr ()" using a(2) l unfolding each_layer_Inr by auto
qed

lemma validate_total: "\<exists>res. validate raw = Some res"
  using topo_order_cases [of raw] by (auto simp: validate_def split: sum.splits option.splits)

lemma check_authored_deps_Inr:
  "check_authored_deps raw name layer = Inr u \<longleftrightarrow>
     (\<forall>dep\<in>set (effective_depends_on layer). \<forall>dl. map_of (layers raw) dep = Some dl \<longrightarrow> l_origin dl = Derived)"
proof -
  have "check_authored_deps raw name layer = Inr () \<longleftrightarrow>
      (\<forall>dep\<in>set (effective_depends_on layer). (case map_of (layers raw) dep of None \<Rightarrow> Inr ()
        | Some dep_layer \<Rightarrow> if l_origin dep_layer = Authored
            then Inl (OriginViolation (''layers.'' @ name @ ''.depends_on references authored layer '' @ dep))
            else Inr ()) = Inr ())"
    unfolding check_authored_deps_def by (rule fold_result_unit_Inr_iff)
  also have "\<dots> \<longleftrightarrow> (\<forall>dep\<in>set (effective_depends_on layer). \<forall>dl. map_of (layers raw) dep = Some dl \<longrightarrow> l_origin dl = Derived)"
    by (intro ball_cong refl) (auto split: option.splits if_splits, (metis layer_origin.exhaust)+)
  finally show ?thesis by simp
qed

section \<open>Properties\<close>

text \<open>
  C9. The layer order is found exactly when there is one: ordering the layers never panics
  (no count goes below zero), succeeds if and only if every dependency is declared and the
  dependency relation has no cycle, and the order it returns lists the built-in \<open>code\<close>
  layer and every declared layer once, each after all of its dependencies.
\<close>

theorem topo_order_correct:
  "(\<exists>res. topo_order raw = Some res) \<and>
   ((\<exists>order. topo_order raw = Some (Inr order)) \<longleftrightarrow> \<not> dangling_dep raw \<and> acyclic (depends_rel raw)) \<and>
   (\<forall>order. topo_order raw = Some (Inr order) \<longrightarrow> distinct order \<and> set order = graph_nodes raw \<and>
      (\<forall>xs n ys d. order = xs @ n # ys \<and> (d, n) \<in> depends_rel raw \<longrightarrow> d \<in> set xs))"
  using topo_order_cases [of raw] by (auto simp: topo_sorted_def depends_rel_def)

theorem topo_order_correct_witness:
  "\<exists>order. topo_order (raw_defaults\<lparr>layers := [(''doc'',
      \<lparr>l_origin = Derived, l_depends_on = [], l_generator = None, l_generator_version = None, l_hash_profile = None,
       l_store = None, l_serving = Block, l_recompute = Lazy, l_key_locality = None, l_entity_kinds = [],
       l_history = True, l_review_on_change = True\<rparr>)]\<rparr>) = Some (Inr order) \<and> set order = {''code'', ''doc''}"
proof -
  define raw where "raw = raw_defaults\<lparr>layers := [(''doc'',
      \<lparr>l_origin = Derived, l_depends_on = [], l_generator = None, l_generator_version = None, l_hash_profile = None,
       l_store = None, l_serving = Block, l_recompute = Lazy, l_key_locality = None, l_entity_kinds = [],
       l_history = True, l_review_on_change = True\<rparr>)]\<rparr>"
  have e: "dep_edges raw = [(''code'', ''doc'')]" by (simp add: raw_def dep_edges_def effective_depends_on_def)
  have n: "graph_nodes raw = {''code'', ''doc''}" by (simp add: raw_def graph_nodes_def)
  have "acyclic (depends_rel raw)" by (simp add: depends_rel_def e acyclic_insert) (simp add: acyclic_def)
  moreover have "\<not> dangling_dep raw" by (simp add: dangling_dep_def e n)
  ultimately obtain order where o: "topo_order raw = Some (Inr order)" using topo_order_correct [of raw] by auto
  then have "set order = {''code'', ''doc''}" using topo_order_correct [of raw] n by simp
  with o show ?thesis unfolding raw_def by blast
qed

text \<open>
  C34. Validation never panics, and a validated configuration is closed: hash profiles of
  \<open>code\<close> and of every declared layer resolve (the indexing in \<open>profile_for\<close> cannot fail),
  derived layers name a declared generator and store and a nonempty generator version, authored
  layers carry none of the five derived-only keys (dependencies, generator, generator version,
  store, hash profile), and no layer depends on an authored or undeclared one.
\<close>

theorem validated_config_closed:
  "(\<exists>res. validate raw = Some res) \<and>
   (\<forall>vc. validate raw = Some (Inr vc) \<longrightarrow> profile_for vc ''code'' \<noteq> None \<and>
     (\<forall>name layer. map_of (layers raw) name = Some layer \<longrightarrow>
        profile_for vc name \<noteq> None \<and> name \<noteq> ''code'' \<and>
        (l_origin layer = Derived \<longrightarrow>
           (\<exists>g s v. l_generator layer = Some g \<and> map_of (generators raw) g \<noteq> None \<and>
              l_store layer = Some s \<and> map_of (stores raw) s \<noteq> None \<and> l_generator_version layer = Some v \<and> v \<noteq> [])) \<and>
        (l_origin layer = Authored \<longrightarrow>
           l_depends_on layer = [] \<and> l_generator layer = None \<and> l_generator_version layer = None \<and> l_store layer = None \<and>
           l_hash_profile layer = None) \<and>
        (\<forall>dep\<in>set (effective_depends_on layer).
           dep = ''code'' \<or> (\<exists>dl. map_of (layers raw) dep = Some dl \<and> l_origin dl = Derived))))"
proof (intro conjI allI impI)
  show "\<exists>res. validate raw = Some res" by (rule validate_total)
next
  fix vc assume "validate raw = Some (Inr vc)"
  note p = validate_parts [OF this]
  show "profile_for vc ''code'' \<noteq> None" using p(1,3) by (simp add: profile_for_def)
  fix name layer assume l: "map_of (layers raw) name = Some layer"
  then have m: "(name, layer) \<in> set (layers raw)" by (rule map_of_SomeD)
  show ne: "name \<noteq> ''code''" using p(4) l by auto
  have "map_of (profiles raw) (layer_profile raw layer) \<noteq> None"
    using p(6) [OF m] by (auto simp: check_profile_def split: if_splits)
  then show "profile_for vc name \<noteq> None" using l ne p(1) by (simp add: profile_for_def)
  show "\<exists>g s v. l_generator layer = Some g \<and> map_of (generators raw) g \<noteq> None \<and>
      l_store layer = Some s \<and> map_of (stores raw) s \<noteq> None \<and> l_generator_version layer = Some v \<and> v \<noteq> []"
    if "l_origin layer = Derived"
    using that p(7,9) [OF m]
    by (auto simp: check_derived_refs_def check_origin_keys_def split: option.splits if_splits)
  show "l_depends_on layer = []" "l_generator layer = None" "l_generator_version layer = None" "l_store layer = None"
    "l_hash_profile layer = None"
    if "l_origin layer = Authored"
    using that p(9) [OF m] by (auto simp: check_origin_keys_def split: if_splits)
  show "\<forall>dep\<in>set (effective_depends_on layer).
      dep = ''code'' \<or> (\<exists>dl. map_of (layers raw) dep = Some dl \<and> l_origin dl = Derived)"
  proof
    fix dep assume d: "dep \<in> set (effective_depends_on layer)"
    then have "(dep, name) \<in> set (dep_edges raw)" using m by (auto simp: dep_edges_mem)
    then have "dep \<in> graph_nodes raw" using topo_order_cases [of raw] p(2) by (auto simp: dangling_dep_def)
    then have "dep = ''code'' \<or> (\<exists>dl. map_of (layers raw) dep = Some dl)"
      by (auto simp: graph_nodes_def) (metis map_of_eq_None_iff imageI fst_conv option.exhaust)
    with d p(8) [OF m] show "dep = ''code'' \<or> (\<exists>dl. map_of (layers raw) dep = Some dl \<and> l_origin dl = Derived)"
      by (auto simp: check_authored_deps_Inr)
  qed
qed

text \<open>A derived layer with its generator and store, which an authored layer stands beside.\<close>

definition some_layer :: "layer_origin \<Rightarrow> str option \<Rightarrow> layer_cfg" where
  "some_layer origin key = \<lparr>l_origin = origin, l_depends_on = [], l_generator = key, l_generator_version = key, l_hash_profile = None,
     l_store = key, l_serving = Block, l_recompute = Lazy, l_key_locality = None, l_entity_kinds = [''function''],
     l_history = True, l_review_on_change = True\<rparr>"

definition layered_config :: raw_config where
  "layered_config = raw_defaults\<lparr>layers := [(''doc'', some_layer Derived (Some ''k'')), (''note'', some_layer Authored None)],
     generators := [(''k'', \<lparr>g_type = None, g_callable = None, g_command = [], g_endpoint = None, g_model = None, g_dim = Some 3,
       g_batch_size = None, g_concurrency = None, g_timeout_ms = None\<rparr>)],
     stores := [(''k'', \<lparr>s_backend = ''sqlite'', s_path = None, s_url = None, s_metric = None, s_dim = Some 3, s_gc = Never\<rparr>)]\<rparr>"

theorem validated_config_closed_witness:
  "\<exists>vc. validate layered_config = Some (Inr vc) \<and> vc_topo_order vc = [''code'', ''doc'', ''note'']
     \<and> profile_for vc ''doc'' \<noteq> None \<and> profile_for vc ''note'' \<noteq> None"
proof -
  have v: "validate layered_config = Some (Inr \<lparr>vc_raw = layered_config, vc_topo_order = [''code'', ''doc'', ''note'']\<rparr>)" by code_simp
  have "map_of (layers layered_config) ''doc'' \<noteq> None" "map_of (layers layered_config) ''note'' \<noteq> None"
    by (simp_all add: layered_config_def)
  with v validated_config_closed [of layered_config] show ?thesis by fastforce
qed

text \<open>
  Placeholder expansion: a text without \<open>${\<close> is unchanged; otherwise the first placeholder
  is replaced by the value of its variable (environment before secrets), the value itself is
  not expanded again, and an undefined variable is an error.
\<close>

theorem expand_string_spec:
  "(find_sub ''${'' s = None \<longrightarrow> expand_string env secrets s = Inr s) \<and>
   (\<forall>a name rest. s = a @ ''${'' @ name @ ''}'' @ rest \<and> CHR ''$'' \<notin> set a \<and> CHR ''}'' \<notin> set name \<longrightarrow>
      expand_string env secrets s =
        (case lookup_var env secrets name of
           None \<Rightarrow> Inl (UndefinedEnv name)
         | Some v \<Rightarrow> rbind (expand_string env secrets rest) (\<lambda>t. Inr (a @ v @ t))))"
proof (intro conjI allI impI)
  show "expand_string env secrets s = Inr s" if "find_sub ''${'' s = None"
    using that by (simp add: expand_string_def expand_loop.simps)
next
  fix a name rest assume s: "s = a @ ''${'' @ name @ ''}'' @ rest \<and> CHR ''$'' \<notin> set a \<and> CHR ''}'' \<notin> set name"
  then have f: "find_sub ''${'' s = Some (length a)" using find_sub_append_sep [of "''${''" a] by simp
  have d: "drop (length a + 2) s = name @ ''}'' @ rest" using s by simp
  have g: "find_sub ''}'' (name @ ''}'' @ rest) = Some (length name)"
    using s find_sub_append_sep [of "''}''" name rest] by simp
  have "expand_string env secrets s =
      (case lookup_var env secrets name of
         None \<Rightarrow> Inl (UndefinedEnv name) | Some v \<Rightarrow> expand_loop env secrets (a @ v) rest)"
    unfolding expand_string_def
    by (subst expand_loop.simps) (simp only: f option.case Let_def d g, use s in \<open>simp split: option.splits\<close>)
  also have "\<dots> = (case lookup_var env secrets name of
           None \<Rightarrow> Inl (UndefinedEnv name)
         | Some v \<Rightarrow> rbind (expand_string env secrets rest) (\<lambda>t. Inr (a @ v @ t)))"
    by (simp add: expand_loop_out split: option.splits)
  finally show "expand_string env secrets s =
        (case lookup_var env secrets name of
           None \<Rightarrow> Inl (UndefinedEnv name)
         | Some v \<Rightarrow> rbind (expand_string env secrets rest) (\<lambda>t. Inr (a @ v @ t)))" .
qed

theorem expand_string_spec_witness:
  "expand_string (\<lambda>n. if n = ''HOME'' then Some ''/root'' else None) [] ''p=${HOME}'' = Inr ''p=/root''"
proof -
  let ?env = "\<lambda>n. if n = ''HOME'' then Some ''/root'' else None"
  have empty: "expand_string ?env [] [] = Inr []" using expand_string_spec [of "[]" ?env "[]"] by simp
  have "expand_string ?env [] ''p=${HOME}'' =
      (case lookup_var ?env [] ''HOME'' of
         None \<Rightarrow> Inl (UndefinedEnv ''HOME'')
       | Some v \<Rightarrow> rbind (expand_string ?env [] []) (\<lambda>t. Inr (''p='' @ v @ t)))"
    by (rule conjunct2 [OF expand_string_spec, rule_format]) simp
  with empty show ?thesis by (simp add: lookup_var_def)
qed

text \<open>
  The secret lint is exact: it accepts a configuration if and only if none of the string
  values in it looks like a secret.
\<close>

theorem lint_secrets_exact:
  "lint_secrets raw = Inr () \<longleftrightarrow> (\<forall>s\<in>set (strings_of (raw_value raw)). \<not> looks_like_secret s)"
  by (simp add: lint_secrets_def lint_iff)

theorem lint_secrets_exact_witness:
  "lint_secrets (raw_defaults\<lparr>project_name := Some ''sk-123''\<rparr>) \<noteq> Inr ()"
proof -
  have "''sk-123'' \<in> set (strings_of (raw_value (raw_defaults\<lparr>project_name := Some ''sk-123''\<rparr>)))" by code_simp
  moreover have "looks_like_secret ''sk-123''" by (simp add: looks_like_secret_def)
  ultimately show ?thesis using lint_secrets_exact by blast
qed

end
