(* ===== verification/Paths.thy ===== *)
theory Paths
  imports Prelude
begin

text \<open>
  The part of the standard path API the sources use (Unix rules): components, file name,
  extension, component-wise prefix and join.  A path is its text; the components are the
  pieces between slashes, with empty pieces and \<open>.\<close> dropped.
\<close>

fun split_char :: "char \<Rightarrow> str \<Rightarrow> str list" where
  "split_char c [] = [[]]"
| "split_char c (x # xs) =
     (if x = c then [] # split_char c xs
      else case split_char c xs of [] \<Rightarrow> [[x]] | y # ys \<Rightarrow> (x # y) # ys)"

definition is_absolute :: "path \<Rightarrow> bool" where
  "is_absolute p \<longleftrightarrow> prefix ''/'' p"

definition components :: "path \<Rightarrow> str list" where
  "components p = filter (\<lambda>s. s \<noteq> [] \<and> s \<noteq> ''.'') (split_char (CHR ''/'') p)"

definition file_name :: "path \<Rightarrow> str option" where
  "file_name p =
     (case rev (components p) of
        [] \<Rightarrow> None
      | c # _ \<Rightarrow> if c = ''..'' then None else Some c)"

definition extension :: "path \<Rightarrow> str option" where
  "extension p =
     (case file_name p of
        None \<Rightarrow> None
      | Some f \<Rightarrow>
          (case rfind_sub ''.'' f of
             None \<Rightarrow> None
           | Some 0 \<Rightarrow> None
           | Some (Suc i) \<Rightarrow> Some (drop (Suc (Suc i)) f)))"

definition path_starts_with :: "path \<Rightarrow> path \<Rightarrow> bool" where
  "path_starts_with p base \<longleftrightarrow>
     is_absolute p = is_absolute base \<and> prefix (components base) (components p)"

definition join_path :: "path \<Rightarrow> path \<Rightarrow> path" where
  "join_path base p =
     (if is_absolute p then p
      else if base = [] \<or> suffix ''/'' base then base @ p
      else base @ ''/'' @ p)"

text \<open>The components left over after a base path, joined again with slashes.\<close>

definition join_components :: "str list \<Rightarrow> str" where
  "join_components cs = concat (map (\<lambda>(i, c). if i = 0 then c else CHR ''/'' # c) (List.enumerate (0::nat) cs))"

definition path_strip_prefix :: "path \<Rightarrow> path \<Rightarrow> str option" where
  "path_strip_prefix p base =
     (if path_starts_with p base
      then Some (join_components (drop (length (components base)) (components p)))
      else None)"

lemma split_char_not_Nil [simp]: "split_char c s \<noteq> []"
  by (induction c s rule: split_char.induct) (auto split: list.splits)

lemma split_char_no_sep: "c \<notin> set s \<Longrightarrow> split_char c s = [s]"
  by (induction c s rule: split_char.induct) auto

lemma split_char_append:
  "split_char c (a @ c # b) = split_char c a @ split_char c b"
proof (induction a)
  case Nil
  then show ?case by simp
next
  case (Cons x a)
  then show ?case
    by (cases "split_char c a") (auto split: list.splits)
qed

lemma components_append_slash: "components (a @ CHR ''/'' # b) = components a @ components b"
  by (simp add: components_def split_char_append)

lemma file_name_join:
  assumes "CHR ''/'' \<notin> set f" "f \<noteq> []" "f \<noteq> ''.''" "f \<noteq> ''..''"
  shows "file_name (d @ CHR ''/'' # f) = Some f"
proof -
  have "components f = [f]"
    using assms by (simp add: components_def split_char_no_sep)
  then show ?thesis
    using assms by (simp add: file_name_def components_append_slash)
qed

end
