(* ===== verification/Content.thy ===== *)
theory Content
  imports Paths
begin

text \<open>
  The revisioned content store of \<open>rust/src/content.rs\<close>, with the content hash of
  \<open>rust/src/hash.rs\<close>: documents and tombstones, generations, the write vocabulary
  \<open>change\<close>, the store with its bounded window of retained generations, the disk ingest
  helpers, and the predicates that say which files belong to a project.

  Parameters that stand for code outside the repository: \<open>xxh3\<close> is the 128-bit hash
  function, an \<open>os_system\<close> is the operating system's view of the disk (reading a file and
  walking a directory), \<open>py_ext\<close> says which extensions are Python sources.
  The revision and version counters are unbounded naturals: the code's \<open>u64\<close> counters
  advance once per commit or per written document.
\<close>

section \<open>Content hashes (hash.rs)\<close>

datatype content_hash = ContentHash (hash_value: u128)

instantiation content_hash :: linorder
begin

definition less_eq_content_hash :: "content_hash \<Rightarrow> content_hash \<Rightarrow> bool" where
  "less_eq_content_hash a b \<longleftrightarrow> hash_value a \<le> hash_value b"

definition less_content_hash :: "content_hash \<Rightarrow> content_hash \<Rightarrow> bool" where
  "less_content_hash a b \<longleftrightarrow> hash_value a < hash_value b"

instance
  by standard
    (auto simp: less_eq_content_hash_def less_content_hash_def content_hash.expand)

end

definition hash_bytes :: "(str \<Rightarrow> u128) \<Rightarrow> str \<Rightarrow> content_hash" where
  "hash_bytes xxh3 bytes = ContentHash (xxh3 bytes)"

definition hash_text :: "(str \<Rightarrow> u128) \<Rightarrow> str \<Rightarrow> content_hash" where
  "hash_text xxh3 text = hash_bytes xxh3 text"

section \<open>Documents and generations\<close>

datatype document =
    Text (doc_text: str) (doc_hash: content_hash) nat
  | Deleted nat

definition document_text :: "(str \<Rightarrow> u128) \<Rightarrow> str \<Rightarrow> nat \<Rightarrow> document" where
  "document_text xxh3 text version = Text text (hash_text xxh3 text) version"

fun document_hash :: "document \<Rightarrow> content_hash option" where
  "document_hash (Text _ h _) = Some h"
| "document_hash (Deleted _) = None"

fun document_version :: "document \<Rightarrow> nat" where
  "document_version (Text _ _ v) = v"
| "document_version (Deleted v) = v"

record content_map =
  system :: "(path, document) hash_map"
  virtual_files :: "(path, document) hash_map"

definition content_map_new :: content_map where
  "content_map_new = \<lparr>system = [], virtual_files = []\<rparr>"

type_synonym generation = content_map

datatype change =
    Insert path str
  | Delete path
  | InsertVirtual path str
  | Forget path

section \<open>The store\<close>

record content_store =
  generation :: generation
  revision :: revision
  version_counter :: nat
  retained :: "(revision, generation) btree_map"
  retain_cap :: nat
  disk_reads :: nat

definition default_retain_cap :: nat where
  "default_retain_cap = 256"

definition with_retain_cap :: "nat \<Rightarrow> content_store" where
  "with_retain_cap cap =
     \<lparr>generation = content_map_new, revision = 0, version_counter = 0,
      retained = bt_insert 0 content_map_new [], retain_cap = cap, disk_reads = 0\<rparr>"

definition store_new :: content_store where
  "store_new = with_retain_cap default_retain_cap"

definition capture :: "content_store \<Rightarrow> generation" where
  "capture s = generation s"

text \<open>
  \<open>record_retained\<close>: insert the current pair, then drop the oldest entries while there are
  more than \<open>retain_cap\<close>.  The loop always terminates: it removes an entry each time.
\<close>

function evict_oldest :: "nat \<Rightarrow> (revision, generation) btree_map \<Rightarrow> (revision, generation) btree_map" where
  "evict_oldest cap m =
     (if length m > cap
      then (case m of [] \<Rightarrow> m | (oldest, _) # _ \<Rightarrow> evict_oldest cap (bt_remove oldest m))
      else m)"
  by pat_completeness auto
termination
  by (relation "measure (\<lambda>(cap, m). length m)") (auto simp: bt_remove_def less_Suc_eq_le)

declare evict_oldest.simps [simp del]

definition record_retained :: "content_store \<Rightarrow> content_store" where
  "record_retained s =
     s\<lparr>retained := evict_oldest (retain_cap s) (bt_insert (revision s) (generation s) (retained s))\<rparr>"

definition mutate ::
  "(content_map \<Rightarrow> nat \<Rightarrow> content_map \<times> nat) \<Rightarrow> content_store \<Rightarrow> content_store \<times> revision" where
  "mutate f s =
     (let (m, vc) = f (generation s) (version_counter s);
          s1 = s\<lparr>version_counter := vc, generation := m\<rparr>;
          s2 = s1\<lparr>revision := revision s1 + 1\<rparr>;
          s3 = record_retained s2
      in (s3, revision s3))"

fun batch_change :: "(str \<Rightarrow> u128) \<Rightarrow> change \<Rightarrow> content_map \<times> nat \<Rightarrow> content_map \<times> nat" where
  "batch_change xxh3 (Insert p text) (m, vc) =
     (m\<lparr>system := AList.update p (document_text xxh3 text (vc + 1)) (system m)\<rparr>, vc + 1)"
| "batch_change xxh3 (Delete p) (m, vc) =
     (m\<lparr>system := AList.update p (Deleted (vc + 1)) (system m)\<rparr>, vc + 1)"
| "batch_change xxh3 (Forget p) (m, vc) =
     (m\<lparr>system := AList.delete p (system m)\<rparr>, vc)"
| "batch_change xxh3 (InsertVirtual p text) (m, vc) =
     (m\<lparr>virtual_files := AList.update p (document_text xxh3 text (vc + 1)) (virtual_files m)\<rparr>, vc + 1)"

definition apply_batch ::
  "(str \<Rightarrow> u128) \<Rightarrow> change list \<Rightarrow> content_store \<Rightarrow> content_store \<times> revision" where
  "apply_batch xxh3 changes s =
     mutate (\<lambda>m vc. fold (batch_change xxh3) changes (m, vc)) s"

definition insert_text ::
  "(str \<Rightarrow> u128) \<Rightarrow> path \<Rightarrow> str \<Rightarrow> content_store \<Rightarrow> content_store \<times> revision" where
  "insert_text xxh3 p text s = apply_batch xxh3 [Insert p text] s"

definition store_delete ::
  "(str \<Rightarrow> u128) \<Rightarrow> path \<Rightarrow> content_store \<Rightarrow> content_store \<times> revision" where
  "store_delete xxh3 p s = apply_batch xxh3 [Delete p] s"

definition store_forget ::
  "(str \<Rightarrow> u128) \<Rightarrow> path \<Rightarrow> content_store \<Rightarrow> content_store \<times> revision" where
  "store_forget xxh3 p s = apply_batch xxh3 [Forget p] s"

definition insert_virtual ::
  "(str \<Rightarrow> u128) \<Rightarrow> path \<Rightarrow> str \<Rightarrow> content_store \<Rightarrow> content_store \<times> revision" where
  "insert_virtual xxh3 p text s = apply_batch xxh3 [InsertVirtual p text] s"

section \<open>Staged commits\<close>

text \<open>
  \<open>stage\<close> walks the changes with its own copy of the per-change code; the counter is a field
  of the store it mutates, the generation is a local copy.
\<close>

fun stage_change ::
  "(str \<Rightarrow> u128) \<Rightarrow> change \<Rightarrow> content_map \<times> content_store \<Rightarrow> content_map \<times> content_store" where
  "stage_change xxh3 (Insert p text) (m, s) =
     (let s' = s\<lparr>version_counter := version_counter s + 1\<rparr>;
          d = document_text xxh3 text (version_counter s')
      in (m\<lparr>system := AList.update p d (system m)\<rparr>, s'))"
| "stage_change xxh3 (Delete p) (m, s) =
     (let s' = s\<lparr>version_counter := version_counter s + 1\<rparr>
      in (m\<lparr>system := AList.update p (Deleted (version_counter s')) (system m)\<rparr>, s'))"
| "stage_change xxh3 (Forget p) (m, s) =
     (m\<lparr>system := AList.delete p (system m)\<rparr>, s)"
| "stage_change xxh3 (InsertVirtual p text) (m, s) =
     (let s' = s\<lparr>version_counter := version_counter s + 1\<rparr>;
          d = document_text xxh3 text (version_counter s')
      in (m\<lparr>virtual_files := AList.update p d (virtual_files m)\<rparr>, s'))"

definition stage ::
  "(str \<Rightarrow> u128) \<Rightarrow> change list \<Rightarrow> content_store \<Rightarrow> generation \<times> content_store" where
  "stage xxh3 changes s = fold (stage_change xxh3) changes (generation s, s)"

definition stage_unchanged :: "content_store \<Rightarrow> generation" where
  "stage_unchanged s = generation s"

definition publish_staged :: "generation \<Rightarrow> content_store \<Rightarrow> content_store \<times> revision" where
  "publish_staged g s =
     (let s1 = s\<lparr>generation := g\<rparr>;
          s2 = s1\<lparr>revision := revision s1 + 1\<rparr>;
          s3 = record_retained s2
      in (s3, revision s3))"

definition next_revision :: "content_store \<Rightarrow> revision" where
  "next_revision s = revision s + 1"

definition generation_at :: "content_store \<Rightarrow> revision \<Rightarrow> generation option" where
  "generation_at s r = map_of (retained s) r"

definition oldest_retained :: "content_store \<Rightarrow> revision" where
  "oldest_retained s = (case retained s of [] \<Rightarrow> revision s | (r, _) # _ \<Rightarrow> r)"

section \<open>Disk ingest\<close>

datatype io_error = NotFound | OtherIo

datatype file_type = File | Directory | Symlink

record dir_entry =
  entry_path :: path
  entry_type :: file_type

record os_system =
  os_read :: "path \<Rightarrow> (io_error, str) result"
  os_walk :: "path \<Rightarrow> (io_error, dir_entry) result list"

definition walk_relevant_files :: "os_system \<Rightarrow> path \<Rightarrow> (path \<Rightarrow> bool) \<Rightarrow> path list" where
  "walk_relevant_files native root relevant =
     List.map_filter
       (\<lambda>entry. case entry of
          Inl _ \<Rightarrow> None
        | Inr e \<Rightarrow> if entry_type e = File \<and> relevant (entry_path e) then Some (entry_path e) else None)
       (os_walk native root)"

fun read_disk_change :: "os_system \<Rightarrow> path \<Rightarrow> change list \<times> nat \<Rightarrow> change list \<times> nat" where
  "read_disk_change native p (changes, reads) =
     (case os_read native p of
        Inr text \<Rightarrow> (changes @ [Insert p text], reads + 1)
      | Inl NotFound \<Rightarrow> (changes @ [Delete p], reads)
      | Inl OtherIo \<Rightarrow> (changes, reads))"

definition read_disk_changes ::
  "os_system \<Rightarrow> path list \<Rightarrow> content_store \<Rightarrow> change list \<times> content_store" where
  "read_disk_changes native paths s =
     (let (changes, reads) = fold (read_disk_change native) paths ([], disk_reads s)
      in (changes, s\<lparr>disk_reads := reads\<rparr>))"

definition ingest_project ::
  "(str \<Rightarrow> u128) \<Rightarrow> os_system \<Rightarrow> path \<Rightarrow> (path \<Rightarrow> bool) \<Rightarrow> content_store \<Rightarrow> content_store \<times> revision" where
  "ingest_project xxh3 native root relevant s =
     (let paths = walk_relevant_files native root relevant;
          (changes, s1) = read_disk_changes native paths s
      in apply_batch xxh3 changes s1)"

definition apply_disk_batch ::
  "(str \<Rightarrow> u128) \<Rightarrow> os_system \<Rightarrow> path list \<Rightarrow> (path \<Rightarrow> bool) \<Rightarrow> content_store \<Rightarrow> content_store \<times> revision" where
  "apply_disk_batch xxh3 native paths relevant s =
     (let (changes, s1) = read_disk_changes native (filter relevant paths) s
      in if changes = [] then (s1, revision s1) else apply_batch xxh3 changes s1)"

definition apply_overlay_batch :: "(str \<Rightarrow> u128) \<Rightarrow> change list \<Rightarrow> content_store \<Rightarrow> content_store \<times> revision" where
  "apply_overlay_batch xxh3 changes s = apply_batch xxh3 changes s"

definition disk_read_count :: "content_store \<Rightarrow> nat" where
  "disk_read_count s = disk_reads s"

definition stage_reingest ::
  "(str \<Rightarrow> u128) \<Rightarrow> os_system \<Rightarrow> path \<Rightarrow> (path \<Rightarrow> bool) \<Rightarrow> path set \<Rightarrow> content_store
   \<Rightarrow> generation \<times> content_store" where
  "stage_reingest xxh3 native root relevant skip s =
     (let paths = filter (\<lambda>p. p \<notin> skip) (walk_relevant_files native root relevant);
          (changes, s1) = read_disk_changes native paths s
      in stage xxh3 changes s1)"

section \<open>What belongs to a project\<close>

text \<open>The loop over the ancestors of a path: the components, innermost first.\<close>

fun under_sidecar :: "str list \<Rightarrow> bool" where
  "under_sidecar [] = False"
| "under_sidecar (c # cs) = (c = ''.tyo3'' \<or> under_sidecar cs)"

definition is_project_config_file :: "path \<Rightarrow> bool" where
  "is_project_config_file p \<longleftrightarrow>
     file_name p \<in> {Some ''pyproject.toml'', Some ''ty.toml'', Some ''setup.cfg'', Some ''setup.py''}"

definition is_project_relevant :: "(str \<Rightarrow> bool) \<Rightarrow> path \<Rightarrow> bool" where
  "is_project_relevant py_ext p \<longleftrightarrow>
     (if under_sidecar (rev (components p)) then False
      else if (case extension p of None \<Rightarrow> False | Some e \<Rightarrow> py_ext e) then True
      else file_name p \<in> {Some ''pyproject.toml'', Some ''ty.toml'', Some ''setup.cfg'', Some ''setup.py''})"

section \<open>Histories of a store\<close>

text \<open>
  \<open>store_reach xxh3 cap s hist\<close>: the store \<open>s\<close>, opened with capacity \<open>cap\<close>, is reached by
  the operations of this file, and \<open>hist\<close> lists the generations published so far, revision 0
  first.  A staged generation is published at once or dropped (a failed commit).
\<close>

inductive store_reach :: "(str \<Rightarrow> u128) \<Rightarrow> nat \<Rightarrow> content_store \<Rightarrow> generation list \<Rightarrow> bool"
  for xxh3 :: "str \<Rightarrow> u128" and cap :: nat where
  opened: "store_reach xxh3 cap (with_retain_cap cap) [content_map_new]"
| batch: "store_reach xxh3 cap s hist \<Longrightarrow> apply_batch xxh3 cs s = (s', r) \<Longrightarrow>
    store_reach xxh3 cap s' (hist @ [generation s'])"
| ingest: "store_reach xxh3 cap s hist \<Longrightarrow> ingest_project xxh3 native root rel s = (s', r) \<Longrightarrow>
    store_reach xxh3 cap s' (hist @ [generation s'])"
| committed: "store_reach xxh3 cap s hist \<Longrightarrow> stage xxh3 cs s = (g, s1) \<Longrightarrow>
    publish_staged g s1 = (s', r) \<Longrightarrow> store_reach xxh3 cap s' (hist @ [g])"
| committed_same: "store_reach xxh3 cap s hist \<Longrightarrow>
    publish_staged (stage_unchanged s) s = (s', r) \<Longrightarrow> store_reach xxh3 cap s' (hist @ [generation s])"
| dropped: "store_reach xxh3 cap s hist \<Longrightarrow> stage xxh3 cs s = (g, s') \<Longrightarrow> store_reach xxh3 cap s' hist"
| reread: "store_reach xxh3 cap s hist \<Longrightarrow> read_disk_changes native ps s = (cs, s') \<Longrightarrow>
    store_reach xxh3 cap s' hist"

section \<open>Staging\<close>

lemma stage_change_batch:
  "stage_change xxh3 c (m, s) =
     (case batch_change xxh3 c (m, version_counter s) of (m', vc) \<Rightarrow> (m', s\<lparr>version_counter := vc\<rparr>))"
  by (cases c) (auto simp: Let_def)

lemma stage_fold_batch:
  "fold (stage_change xxh3) cs (m, s) =
     (case fold (batch_change xxh3) cs (m, version_counter s) of
        (m', vc) \<Rightarrow> (m', s\<lparr>version_counter := vc\<rparr>))"
proof (induction cs arbitrary: m s)
  case Nil
  then show ?case by simp
next
  case (Cons c cs)
  obtain m1 vc1 where b: "batch_change xxh3 c (m, version_counter s) = (m1, vc1)"
    by fastforce
  have "fold (stage_change xxh3) cs (stage_change xxh3 c (m, s)) =
      fold (stage_change xxh3) cs (m1, s\<lparr>version_counter := vc1\<rparr>)"
    by (simp add: stage_change_batch b)
  with b show ?case by (simp add: Cons.IH split: prod.splits)
qed

lemma stage_eq:
  "stage xxh3 cs s =
     (case fold (batch_change xxh3) cs (generation s, version_counter s) of
        (m, vc) \<Rightarrow> (m, s\<lparr>version_counter := vc\<rparr>))"
  by (simp add: stage_def stage_fold_batch)

lemma stage_store:
  assumes "stage xxh3 cs s = (g, s')"
  obtains vc where "s' = s\<lparr>version_counter := vc\<rparr>"
    and "fold (batch_change xxh3) cs (generation s, version_counter s) = (g, vc)"
  using assms by (auto simp: stage_eq split: prod.splits)

lemma read_disk_changes_store:
  assumes "read_disk_changes native ps s = (cs, s')"
  obtains n where "s' = s\<lparr>disk_reads := n\<rparr>"
    and "fold (read_disk_change native) ps ([], disk_reads s) = (cs, n)"
  using assms by (auto simp: read_disk_changes_def split: prod.splits)

text \<open>One direct batch is one staged generation published at once.\<close>

lemma apply_batch_stage_publish:
  "apply_batch xxh3 cs s = (case stage xxh3 cs s of (g, s1) \<Rightarrow> publish_staged g s1)"
  by (auto simp: apply_batch_def mutate_def publish_staged_def stage_eq Let_def split: prod.splits)

section \<open>The retained window\<close>

lemma evict_oldest_drop:
  "bt_inv m \<Longrightarrow> evict_oldest cap m = drop (length m - cap) m"
proof (induction cap m rule: evict_oldest.induct)
  case (1 cap m)
  show ?case
  proof (cases "length m > cap")
    case True
    then obtain k v m' where m: "m = (k, v) # m'" by (cases m) auto
    have "k \<notin> fst ` set m'" using "1.prems" m by (auto simp: bt_inv_def)
    then have rm: "bt_remove k m = m'"
      by (auto simp: m bt_remove_def filter_id_conv image_iff)
    have "bt_inv m'" using "1.prems" m by (simp add: bt_inv_def)
    then have "evict_oldest cap m' = drop (length m' - cap) m'"
      using "1.IH"[OF True m refl] rm by simp
    with True m rm show ?thesis
      by (subst evict_oldest.simps) (simp add: Suc_diff_le)
  next
    case False
    then show ?thesis by (subst evict_oldest.simps) simp
  qed
qed

lemma bt_insert_above:
  "(\<And>k'. k' \<in> fst ` set m \<Longrightarrow> k' < k) \<Longrightarrow> bt_insert k v m = m @ [(k, v)]"
  by (induction k v m rule: bt_insert.induct) (auto dest: less_not_sym)

lemma bt_inv_enumerate: "bt_inv (drop k (List.enumerate n xs))"
  by (simp add: bt_inv_def drop_map [symmetric] sorted_wrt_drop)

lemma map_of_drop_enumerate:
  "map_of (drop k (List.enumerate 0 xs)) r = (if k \<le> r \<and> r < length xs then Some (xs ! r) else None)"
proof -
  let ?m = "drop k (List.enumerate 0 xs)"
  have d: "distinct (map fst ?m)" by (rule bt_inv_distinct [OF bt_inv_enumerate])
  have mem: "(r, x) \<in> set ?m \<longleftrightarrow> k \<le> r \<and> r < length xs \<and> x = xs ! r" for x
    by (auto simp: set_conv_nth nth_enumerate_eq intro!: exI [of _ "r - k"])
  show ?thesis
  proof (cases "k \<le> r \<and> r < length xs")
    case True
    then have "(r, xs ! r) \<in> set ?m" using mem by blast
    with d True show ?thesis by simp
  next
    case False
    then have "r \<notin> fst ` set ?m" using mem by force
    then have "map_of ?m r = None" by (simp add: map_of_eq_None_iff)
    with False show ?thesis by auto
  qed
qed

text \<open>Publishing appends to the history and re-establishes the window.\<close>

definition window :: "nat \<Rightarrow> content_store \<Rightarrow> generation list \<Rightarrow> bool" where
  "window cap s hist \<longleftrightarrow>
     hist \<noteq> [] \<and> retain_cap s = cap \<and> revision s = length hist - 1 \<and> generation s = last hist \<and>
     retained s = drop (length hist - cap) (List.enumerate 0 hist)"

lemma window_publish:
  assumes w: "window cap s hist" and "0 < cap" and "publish_staged g s = (s', r)"
  shows "window cap s' (hist @ [g])"
proof -
  let ?m = "retained s" and ?n = "length hist"
  have n: "revision s + 1 = ?n" using w by (auto simp: window_def)
  have m: "?m = drop (?n - cap) (List.enumerate 0 hist)" using w by (simp add: window_def)
  have "\<And>k'. k' \<in> fst ` set ?m \<Longrightarrow> k' < ?n"
    by (auto simp: m in_set_enumerate_eq dest!: in_set_dropD)
  then have ins: "bt_insert ?n g ?m = ?m @ [(?n, g)]" by (rule bt_insert_above)
  have "bt_inv (bt_insert ?n g ?m)" by (rule bt_inv_insert) (simp add: m bt_inv_enumerate)
  moreover have "retained s' = evict_oldest cap (bt_insert ?n g ?m)"
    using assms(3) w n
    by (auto simp: publish_staged_def record_retained_def Let_def window_def)
  ultimately have "retained s' = drop (length (?m @ [(?n, g)]) - cap) (?m @ [(?n, g)])"
    by (simp add: evict_oldest_drop ins)
  also have "\<dots> = drop (Suc ?n - cap) (List.enumerate 0 (hist @ [g]))"
    using \<open>0 < cap\<close> by (simp add: m enumerate_append_eq) (cases "?n < cap"; simp add: Suc_diff_le)
  finally show ?thesis
    using assms(3) w n
    by (auto simp: window_def publish_staged_def record_retained_def Let_def)
qed

lemma window_version: "window cap (s\<lparr>version_counter := vc\<rparr>) hist = window cap s hist"
  by (simp add: window_def)

lemma window_disk_reads: "window cap (s\<lparr>disk_reads := n\<rparr>) hist = window cap s hist"
  by (simp add: window_def)

lemma generation_publish: "publish_staged g s = (s', r) \<Longrightarrow> generation s' = g"
  by (auto simp: publish_staged_def record_retained_def Let_def)

lemma window_batch:
  assumes "window cap s hist" "0 < cap" "apply_batch xxh3 cs s = (s', r)"
  shows "window cap s' (hist @ [generation s'])"
proof -
  obtain g s1 where st: "stage xxh3 cs s = (g, s1)" by fastforce
  with assms(3) have pub: "publish_staged g s1 = (s', r)"
    by (simp add: apply_batch_stage_publish)
  have "window cap s1 hist"
    using st assms(1) by (auto simp: window_version elim: stage_store)
  with window_publish [OF this assms(2) pub] generation_publish [OF pub] show ?thesis by simp
qed

lemma store_reach_window:
  assumes "store_reach xxh3 cap s hist" "0 < cap"
  shows "window cap s hist"
  using assms
proof (induction rule: store_reach.induct)
  case opened
  then show ?case by (simp add: window_def with_retain_cap_def Suc_le_eq)
next
  case (batch s hist cs s' r)
  then show ?case by (blast intro: window_batch)
next
  case (ingest s hist native root rel s' r)
  then obtain cs s1 where rd: "read_disk_changes native (walk_relevant_files native root rel) s = (cs, s1)"
    and "apply_batch xxh3 cs s1 = (s', r)"
    by (auto simp: ingest_project_def split: prod.splits)
  moreover have "window cap s1 hist"
    using rd ingest by (auto simp: window_disk_reads elim: read_disk_changes_store)
  ultimately show ?case using ingest.prems by (blast intro: window_batch)
next
  case (committed s hist cs g s1 s' r)
  then have "window cap s1 hist" by (auto simp: window_version elim: stage_store)
  with committed show ?case by (blast intro: window_publish)
next
  case (committed_same s hist s' r)
  then show ?case by (auto simp: stage_unchanged_def intro: window_publish)
next
  case (dropped s hist cs g s')
  then show ?case by (auto simp: window_version elim: stage_store)
next
  case (reread s hist native ps cs s')
  then show ?case by (auto simp: window_disk_reads elim: read_disk_changes_store)
qed

section \<open>Versions and hashes\<close>

text \<open>The documents of a generation, tagged by the namespace they live in.\<close>

definition entries :: "content_map \<Rightarrow> (bool \<times> path \<times> document) set" where
  "entries m = Pair True ` set (system m) \<union> Pair False ` set (virtual_files m)"

abbreviation entry_version :: "bool \<times> path \<times> document \<Rightarrow> nat" where
  "entry_version e \<equiv> document_version (snd (snd e))"

text \<open>
  \<open>ledger xxh3 E vc\<close>: \<open>E\<close> holds documents written so far; each has its own version number
  below the counter, and each text document carries the hash of its text.
\<close>

definition doc_ok :: "(str \<Rightarrow> u128) \<Rightarrow> document \<Rightarrow> bool" where
  "doc_ok xxh3 d \<longleftrightarrow> (case d of Text t h _ \<Rightarrow> h = hash_text xxh3 t | Deleted _ \<Rightarrow> True)"

definition ledger :: "(str \<Rightarrow> u128) \<Rightarrow> (bool \<times> path \<times> document) set \<Rightarrow> nat \<Rightarrow> bool" where
  "ledger xxh3 E vc \<longleftrightarrow>
     inj_on entry_version E \<and>
     (\<forall>e\<in>E. 0 < entry_version e \<and> entry_version e \<le> vc \<and> doc_ok xxh3 (snd (snd e)))"

definition map_inv :: "content_map \<Rightarrow> bool" where
  "map_inv m \<longleftrightarrow> hm_inv (system m) \<and> hm_inv (virtual_files m)"

lemma set_update_subset: "set (AList.update k v al) \<subseteq> insert (k, v) (set al)"
  by (induction al) auto

lemma set_delete_subset: "set (AList.delete k al) \<subseteq> set al"
  by (auto simp: AList.delete_eq)

lemma entries_update:
  "entries (m\<lparr>system := AList.update p d (system m)\<rparr>) \<subseteq> insert (True, p, d) (entries m)"
  "entries (m\<lparr>virtual_files := AList.update p d (virtual_files m)\<rparr>) \<subseteq> insert (False, p, d) (entries m)"
  "entries (m\<lparr>system := AList.delete p (system m)\<rparr>) \<subseteq> entries m"
  using set_update_subset [of p d "system m"] set_update_subset [of p d "virtual_files m"]
    set_delete_subset [of p "system m"]
  by (fastforce simp: entries_def)+

lemma ledger_add:
  assumes "ledger xxh3 E vc" "document_version d = Suc vc" "doc_ok xxh3 d"
  shows "ledger xxh3 (insert (ns, p, d) E) (Suc vc)"
proof -
  have "(ns, p, d) \<notin> E" "Suc vc \<notin> entry_version ` E"
    using assms(1,2) by (force simp: ledger_def)+
  then show ?thesis using assms by (auto simp: ledger_def le_Suc_eq)
qed

lemma batch_change_ledger:
  assumes "batch_change xxh3 c (m, vc) = (m', vc')" "ledger xxh3 E vc" "entries m \<subseteq> E" "map_inv m"
  shows "\<exists>E'. E \<subseteq> E' \<and> ledger xxh3 E' vc' \<and> entries m' \<subseteq> E' \<and> map_inv m'"
proof (cases c)
  case (Insert p t)
  let ?e = "(True, p, document_text xxh3 t (Suc vc))"
  have "ledger xxh3 (insert ?e E) (Suc vc)"
    using assms(2) by (intro ledger_add) (auto simp: document_text_def doc_ok_def)
  moreover have "entries m' \<subseteq> insert ?e E" "map_inv m'" "vc' = Suc vc"
    using assms Insert entries_update(1) [where m = m and p = p and d = "document_text xxh3 t (Suc vc)"]
    by (auto simp: map_inv_def hm.inv_ins)
  ultimately show ?thesis by blast
next
  case (Delete p)
  let ?e = "(True, p, Deleted (Suc vc))"
  have "ledger xxh3 (insert ?e E) (Suc vc)"
    using assms(2) by (intro ledger_add) (auto simp: doc_ok_def)
  moreover have "entries m' \<subseteq> insert ?e E" "map_inv m'" "vc' = Suc vc"
    using assms Delete entries_update(1) [where m = m and p = p and d = "Deleted (Suc vc)"]
    by (auto simp: map_inv_def hm.inv_ins)
  ultimately show ?thesis by blast
next
  case (InsertVirtual p t)
  let ?e = "(False, p, document_text xxh3 t (Suc vc))"
  have "ledger xxh3 (insert ?e E) (Suc vc)"
    using assms(2) by (intro ledger_add) (auto simp: document_text_def doc_ok_def)
  moreover have "entries m' \<subseteq> insert ?e E" "map_inv m'" "vc' = Suc vc"
    using assms InsertVirtual entries_update(2) [where m = m and p = p and d = "document_text xxh3 t (Suc vc)"]
    by (auto simp: map_inv_def hm.inv_ins)
  ultimately show ?thesis by blast
next
  case (Forget p)
  then show ?thesis
    using assms entries_update(3) [where m = m and p = p]
    by (intro exI [of _ E]) (auto simp: map_inv_def hm.inv_del)
qed

lemma fold_batch_ledger:
  assumes "fold (batch_change xxh3) cs (m, vc) = (m', vc')" "ledger xxh3 E vc" "entries m \<subseteq> E" "map_inv m"
  shows "\<exists>E'. E \<subseteq> E' \<and> ledger xxh3 E' vc' \<and> entries m' \<subseteq> E' \<and> map_inv m'"
  using assms
proof (induction cs arbitrary: m vc E)
  case Nil
  then show ?case by auto
next
  case (Cons c cs)
  obtain m1 vc1 where b: "batch_change xxh3 c (m, vc) = (m1, vc1)" by fastforce
  from batch_change_ledger [OF b Cons.prems(2-4)] obtain E1 where
    E1: "E \<subseteq> E1" "ledger xxh3 E1 vc1" "entries m1 \<subseteq> E1" "map_inv m1" by blast
  from Cons.prems(1) b have "fold (batch_change xxh3) cs (m1, vc1) = (m', vc')" by simp
  from Cons.IH [OF this E1(2-4)] E1(1) show ?case by blast
qed

text \<open>The invariant of a history: one ledger covers every published generation.\<close>

definition history_inv :: "(str \<Rightarrow> u128) \<Rightarrow> content_store \<Rightarrow> generation list \<Rightarrow> bool" where
  "history_inv xxh3 s hist \<longleftrightarrow>
     generation s \<in> set hist \<and>
     (\<exists>E. ledger xxh3 E (version_counter s) \<and> (\<forall>g\<in>set hist. entries g \<subseteq> E \<and> map_inv g))"

lemma history_inv_stage:
  assumes "history_inv xxh3 s hist" "stage xxh3 cs s = (g, s')"
  shows "history_inv xxh3 s' hist \<and>
    (\<exists>E. ledger xxh3 E (version_counter s') \<and> (\<forall>g'\<in>set (hist @ [g]). entries g' \<subseteq> E \<and> map_inv g'))"
proof -
  from assms(2) obtain vc where s': "s' = s\<lparr>version_counter := vc\<rparr>"
    and f: "fold (batch_change xxh3) cs (generation s, version_counter s) = (g, vc)"
    by (rule stage_store)
  from assms(1) obtain E where E: "ledger xxh3 E (version_counter s)"
    "\<forall>g\<in>set hist. entries g \<subseteq> E \<and> map_inv g" "generation s \<in> set hist"
    by (auto simp: history_inv_def)
  from fold_batch_ledger [OF f E(1)] E(2,3) obtain E' where
    "E \<subseteq> E'" "ledger xxh3 E' vc" "entries g \<subseteq> E'" "map_inv g" by blast
  with E s' show ?thesis by (auto simp: history_inv_def intro!: exI [of _ E'])
qed

lemma publish_fields:
  "publish_staged g s = (s', r) \<Longrightarrow>
     generation s' = g \<and> version_counter s' = version_counter s \<and> revision s' = revision s + 1 \<and>
     r = revision s + 1 \<and> retain_cap s' = retain_cap s \<and> disk_reads s' = disk_reads s"
  by (auto simp: publish_staged_def record_retained_def Let_def)

lemma history_inv_publish:
  assumes "history_inv xxh3 s hist" "stage xxh3 cs s = (g, s1)" "publish_staged g s1 = (s', r)"
  shows "history_inv xxh3 s' (hist @ [g])"
  using history_inv_stage [OF assms(1,2)] publish_fields [OF assms(3)] by (auto simp: history_inv_def)

lemma history_inv_batch:
  assumes "history_inv xxh3 s hist" "apply_batch xxh3 cs s = (s', r)"
  shows "history_inv xxh3 s' (hist @ [generation s'])"
proof -
  obtain g s1 where st: "stage xxh3 cs s = (g, s1)" by fastforce
  with assms(2) have pub: "publish_staged g s1 = (s', r)" by (simp add: apply_batch_stage_publish)
  with history_inv_publish [OF assms(1) st pub] publish_fields [OF pub] show ?thesis by simp
qed

lemma history_inv_disk_reads:
  "history_inv xxh3 (s\<lparr>disk_reads := n\<rparr>) hist = history_inv xxh3 s hist"
  by (simp add: history_inv_def)

lemma store_reach_history_inv: "store_reach xxh3 cap s hist \<Longrightarrow> history_inv xxh3 s hist"
proof (induction rule: store_reach.induct)
  case opened
  then show ?case
    by (auto simp: history_inv_def with_retain_cap_def content_map_new_def ledger_def entries_def
        map_inv_def hm.inv_empty intro!: exI [of _ "{}"])
next
  case (ingest s hist native root rel s' r)
  then obtain cs s1 where rd: "read_disk_changes native (walk_relevant_files native root rel) s = (cs, s1)"
    and "apply_batch xxh3 cs s1 = (s', r)"
    by (auto simp: ingest_project_def split: prod.splits)
  moreover have "history_inv xxh3 s1 hist"
    using rd ingest.IH by (auto simp: history_inv_disk_reads elim: read_disk_changes_store)
  ultimately show ?case by (blast intro: history_inv_batch)
next
  case (committed_same s hist s' r)
  then show ?case using publish_fields [OF committed_same(2)]
    by (auto simp: history_inv_def stage_unchanged_def)
next
  case (reread s hist native ps cs s')
  then show ?case by (auto simp: history_inv_disk_reads elim: read_disk_changes_store)
next
  case (dropped s hist cs g s')
  then show ?case using history_inv_stage by blast
qed (blast intro: history_inv_batch history_inv_publish)+

section \<open>What a stage writes\<close>

text \<open>What a generation says of a system path: text, deleted, or nothing.\<close>

definition visible :: "content_map \<Rightarrow> path \<Rightarrow> str option option" where
  "visible m p =
     (case map_of (system m) p of
        None \<Rightarrow> None
      | Some (Text t _ _) \<Rightarrow> Some (Some t)
      | Some (Deleted _) \<Rightarrow> Some None)"

fun change_effect :: "change \<Rightarrow> path \<Rightarrow> str option option \<Rightarrow> str option option" where
  "change_effect (Insert q t) p old = (if q = p then Some (Some t) else old)"
| "change_effect (Delete q) p old = (if q = p then Some None else old)"
| "change_effect (Forget q) p old = (if q = p then None else old)"
| "change_effect (InsertVirtual q t) p old = old"

lemma batch_change_visible:
  "batch_change xxh3 c (m, vc) = (m', vc') \<Longrightarrow> visible m' p = change_effect c p (visible m p)"
  by (cases c) (auto simp: visible_def update_conv' delete_conv' document_text_def)

lemma fold_batch_visible:
  "fold (batch_change xxh3) cs (m, vc) = (m', vc') \<Longrightarrow>
     visible m' p = fold (\<lambda>c. change_effect c p) cs (visible m p)"
proof (induction cs arbitrary: m vc)
  case (Cons c cs)
  obtain m1 vc1 where b: "batch_change xxh3 c (m, vc) = (m1, vc1)" by fastforce
  with Cons batch_change_visible [OF b, of p] show ?case by simp
qed simp

lemma stage_visible:
  "stage xxh3 cs s = (g, s') \<Longrightarrow>
     visible g p = fold (\<lambda>c. change_effect c p) cs (visible (generation s) p)"
  by (erule stage_store) (rule fold_batch_visible)

definition disk_effect :: "os_system \<Rightarrow> path \<Rightarrow> str option option \<Rightarrow> str option option" where
  "disk_effect native p old =
     (case os_read native p of
        Inr t \<Rightarrow> Some (Some t)
      | Inl NotFound \<Rightarrow> Some None
      | Inl OtherIo \<Rightarrow> old)"

lemma read_disk_change_effect:
  assumes "read_disk_change native q (cs, n) = (cs', n')"
  shows "fold (\<lambda>c. change_effect c p) cs' old =
    (if q = p then disk_effect native p (fold (\<lambda>c. change_effect c p) cs old)
     else fold (\<lambda>c. change_effect c p) cs old)"
  using assms by (auto simp: disk_effect_def split: sum.splits io_error.splits)

lemma fold_read_disk_effect:
  "fold (read_disk_change native) ps (cs0, n) = (cs, n') \<Longrightarrow>
     fold (\<lambda>c. change_effect c p) cs old =
       (if p \<in> set ps then disk_effect native p (fold (\<lambda>c. change_effect c p) cs0 old)
        else fold (\<lambda>c. change_effect c p) cs0 old)"
proof (induction ps arbitrary: cs0 n)
  case (Cons q ps)
  obtain cs1 n1 where r: "read_disk_change native q (cs0, n) = (cs1, n1)" by fastforce
  have idem: "disk_effect native p (disk_effect native p x) = disk_effect native p x" for x
    by (auto simp: disk_effect_def split: sum.splits io_error.splits)
  from Cons.IH [of cs1 n1] Cons.prems r read_disk_change_effect [OF r, of p old]
  show ?case by (auto simp: idem)
qed auto

lemma under_sidecar_iff: "under_sidecar cs \<longleftrightarrow> ''.tyo3'' \<in> set cs"
  by (induction cs) auto

text \<open>
  A capacity of zero, which validation accepts, retains nothing: not even the revision just
  published can be found again.
\<close>

lemma zero_capacity_retains_nothing:
  assumes "retain_cap s = 0" "publish_staged g s = (s', r)"
  shows "generation_at s' q = None"
proof -
  have "evict_oldest 0 m = []" for m
    by (induction "length m" arbitrary: m rule: less_induct)
      (subst evict_oldest.simps, auto split: list.splits simp: bt_remove_def less_Suc_eq_le)
  with assms show ?thesis by (auto simp: publish_staged_def record_retained_def Let_def generation_at_def)
qed

section \<open>Properties\<close>

text \<open>
  C4. Time travel: whatever sequence of batches, ingests, published and abandoned stages led
  to a store, the generation found at revision \<open>r\<close> is exactly the one published as revision
  \<open>r\<close> while \<open>r\<close> is among the last \<open>retain_cap\<close> revisions, and nothing otherwise; the head
  revision counts the publications.
\<close>

theorem time_travel:
  assumes "store_reach xxh3 cap s hist" "0 < cap"
  shows "revision s = length hist - 1 \<and> capture s = last hist \<and>
    generation_at s r =
      (if r < length hist \<and> length hist \<le> r + cap then Some (hist ! r) else None)"
  using store_reach_window [OF assms]
  by (auto simp: window_def capture_def generation_at_def map_of_drop_enumerate)

theorem time_travel_witness:
  "generation_at (fst (apply_batch (\<lambda>_. 7) [Insert ''/r/a.py'' ''x = 1''] (with_retain_cap 1))) 0 = None
   \<and> (\<exists>g. generation_at (fst (apply_batch (\<lambda>_. 7) [Insert ''/r/a.py'' ''x = 1''] (with_retain_cap 1))) 1 = Some g)"
proof -
  let ?b = "apply_batch (\<lambda>_. 7) [Insert ''/r/a.py'' ''x = 1''] (with_retain_cap 1)"
  have r: "store_reach (\<lambda>_. 7) 1 (fst ?b) ([content_map_new] @ [generation (fst ?b)])"
    by (rule store_reach.batch [OF store_reach.opened, where r = "snd ?b"]) simp
  show ?thesis using time_travel [OF r, of 0] time_travel [OF r, of 1] by simp
qed

text \<open>
  A direct batch and a staged commit are the same write: \<open>apply_batch\<close> produces the store
  and revision that staging the batch and publishing the staged generation produce.
\<close>

theorem batch_equals_staged_publish:
  "apply_batch xxh3 changes s = (case stage xxh3 changes s of (g, s1) \<Rightarrow> publish_staged g s1)"
  by (rule apply_batch_stage_publish)

text \<open>
  C35. Version numbers identify documents: over the whole history of a store, two documents
  at one path that carry the same version are the same document, and every text document
  carries the hash of its text.  So a consumer that compares versions sees every change.
\<close>

theorem version_identifies_document:
  assumes "store_reach xxh3 cap s hist" "g \<in> set hist" "g' \<in> set hist"
    and "map_of (system g) p = Some d" "map_of (system g') p = Some d'"
    and "document_version d = document_version d'"
  shows "d = d' \<and> (\<forall>h. document_hash d = Some h \<longrightarrow> h = hash_text xxh3 (doc_text d))"
proof -
  from store_reach_history_inv [OF assms(1)] obtain E where
    E: "ledger xxh3 E (version_counter s)" "entries g \<subseteq> E" "entries g' \<subseteq> E"
    using assms(2,3) by (auto simp: history_inv_def)
  have "(True, p, d) \<in> entries g" "(True, p, d') \<in> entries g'"
    using assms(4,5) by (auto simp: entries_def dest: map_of_SomeD)
  with E have m: "(True, p, d) \<in> E" "(True, p, d') \<in> E" by blast+
  have "inj_on entry_version E" using E(1) by (simp add: ledger_def)
  from inj_onD [OF this _ m] assms(6) have "d = d'" by simp
  moreover have "doc_ok xxh3 d" using E(1) m(1) by (auto simp: ledger_def)
  ultimately show ?thesis by (cases d) (auto simp: doc_ok_def)
qed

theorem version_identifies_document_witness:
  "document_hash (document_text (\<lambda>_. 7) ''x = 1'' 1) = Some (hash_text (\<lambda>_. 7) ''x = 1'')"
proof -
  let ?b = "apply_batch (\<lambda>_. 7) [Insert ''/r/a.py'' ''x = 1''] (with_retain_cap 1)"
  have r: "store_reach (\<lambda>_. 7) 1 (fst ?b) ([content_map_new] @ [generation (fst ?b)])"
    by (rule store_reach.batch [OF store_reach.opened, where r = "snd ?b"]) simp
  have g: "map_of (system (generation (fst ?b))) ''/r/a.py'' = Some (document_text (\<lambda>_. 7) ''x = 1'' 1)"
    by (simp add: apply_batch_def mutate_def with_retain_cap_def content_map_new_def record_retained_def)
  from version_identifies_document [OF r _ _ g g] show ?thesis
    by (simp add: document_text_def)
qed

lemma reingest_visible:
  assumes "stage_reingest xxh3 native root relevant skip s = (g, s')"
  shows "visible g p =
      (if p \<in> set (walk_relevant_files native root relevant) \<and> p \<notin> skip
       then disk_effect native p (visible (generation s) p)
       else visible (generation s) p)
    \<and> revision s' = revision s \<and> retained s' = retained s \<and> generation s' = generation s"
proof -
  let ?ps = "filter (\<lambda>p. p \<notin> skip) (walk_relevant_files native root relevant)"
  obtain cs s1 where rd: "read_disk_changes native ?ps s = (cs, s1)" and st: "stage xxh3 cs s1 = (g, s')"
    using assms by (auto simp: stage_reingest_def split: prod.splits)
  from rd obtain n where s1: "s1 = s\<lparr>disk_reads := n\<rparr>"
    and f: "fold (read_disk_change native) ?ps ([], disk_reads s) = (cs, n)"
    by (rule read_disk_changes_store)
  have "visible g p = fold (\<lambda>c. change_effect c p) cs (visible (generation s) p)"
    using stage_visible [OF st, of p] s1 by simp
  then show ?thesis
    using fold_read_disk_effect [OF f, of p "visible (generation s) p"] st s1
    by (auto elim!: stage_store)
qed

text \<open>
  C37. Re-ingesting the project reads every relevant file the walk finds, except the paths
  with an unsaved buffer: such a file's document becomes its disk text, or a tombstone when
  the read says it is gone, and stays as it was on any other read error.  Every other path
  keeps the document it had, and the store's revision and retained window do not move.
\<close>

theorem reingest_content:
  assumes "stage_reingest xxh3 native root relevant skip s = (g, s')"
  shows "visible g p =
      (if p \<in> set (walk_relevant_files native root relevant) \<and> p \<notin> skip
       then disk_effect native p (visible (generation s) p)
       else visible (generation s) p)
    \<and> revision s' = revision s \<and> retained s' = retained s \<and> generation s' = generation s"
  using assms by (rule reingest_visible)

theorem reingest_content_witness:
  "visible (fst (stage_reingest (\<lambda>_. 7) \<lparr>os_read = \<lambda>_. Inl NotFound, os_walk = \<lambda>_. []\<rparr> ''/r'' (\<lambda>_. True) {}
      (fst (insert_text (\<lambda>_. 7) ''/r/gone.py'' ''x = 1'' (with_retain_cap 4))))) ''/r/gone.py''
   = Some (Some ''x = 1'')"
proof -
  let ?n = "\<lparr>os_read = \<lambda>_. Inl NotFound, os_walk = \<lambda>_. []\<rparr>"
  let ?s = "fst (insert_text (\<lambda>_. 7) ''/r/gone.py'' ''x = 1'' (with_retain_cap 4))"
  have "visible (generation ?s) ''/r/gone.py'' = Some (Some ''x = 1'')"
    by (simp add: insert_text_def apply_batch_def mutate_def with_retain_cap_def content_map_new_def
        record_retained_def visible_def document_text_def)
  moreover obtain g s' where "stage_reingest (\<lambda>_. 7) ?n ''/r'' (\<lambda>_. True) {} ?s = (g, s')" by fastforce
  ultimately show ?thesis
    using reingest_content [of "\<lambda>_. 7" ?n "''/r''" "\<lambda>_. True" "{}" ?s g s' "''/r/gone.py''"]
    by (simp add: walk_relevant_files_def List.map_filter_def)
qed

text \<open>
  The sidecar is never project content: no path with a \<open>.tyo3\<close> component is collected by
  the project walk, and what is collected is a Python source or one of the four
  configuration files.
\<close>

theorem sidecar_never_ingested:
  assumes "p \<in> set (walk_relevant_files native root (is_project_relevant py_ext))"
  shows "''.tyo3'' \<notin> set (components p) \<and>
    ((\<exists>e. extension p = Some e \<and> py_ext e) \<or> is_project_config_file p)"
proof -
  have "is_project_relevant py_ext p"
    using assms
    by (auto simp: walk_relevant_files_def List.map_filter_def split: sum.splits if_splits)
  then show ?thesis
    by (auto simp: is_project_relevant_def is_project_config_file_def under_sidecar_iff
        split: if_splits option.splits)
qed

theorem sidecar_never_ingested_witness:
  "''/r/a.py'' \<in> set (walk_relevant_files
      \<lparr>os_read = \<lambda>_. Inl NotFound,
       os_walk = \<lambda>_. [Inr \<lparr>entry_path = ''/r/a.py'', entry_type = File\<rparr>,
                       Inr \<lparr>entry_path = ''/r/.tyo3/b.py'', entry_type = File\<rparr>]\<rparr>
      ''/r'' (is_project_relevant (\<lambda>e. e = ''py'')))
   \<and> ''.tyo3'' \<notin> set (components ''/r/a.py'')"
proof -
  let ?n = "\<lparr>os_read = \<lambda>_. Inl NotFound,
       os_walk = \<lambda>_. [Inr \<lparr>entry_path = ''/r/a.py'', entry_type = File\<rparr>,
                       Inr \<lparr>entry_path = ''/r/.tyo3/b.py'', entry_type = File\<rparr>]\<rparr>"
  have "''/r/a.py'' \<in> set (walk_relevant_files ?n ''/r'' (is_project_relevant (\<lambda>e. e = ''py'')))"
    by (simp add: walk_relevant_files_def List.map_filter_def is_project_relevant_def components_def
        extension_def file_name_def)
  with sidecar_never_ingested [OF this] show ?thesis by simp
qed

end
