(* ===== verification/Overlay.thy ===== *)
theory Overlay
  imports Content
begin

text \<open>
  The overlay file system of \<open>rust/src/overlay.rs\<close>: documents of a generation first, then, on
  the live head only, the native system.  A frozen overlay pins one generation and has no
  disk fallback.  The native system is outside the repository, so it is a record of the
  functions the overlay delegates to; \<open>try_ext\<close> maps a file extension to its source type.  A
  notebook is kept as opaque text, a directory walk as the entries it yields.
\<close>

datatype py_source_type = Python | Stub | Ipynb

record metadata =
  meta_revision :: nat
  meta_file_type :: file_type

datatype case_sensitivity = CaseSensitive | CaseInsensitive | CaseUnknown

record native_system =
  native_metadata :: "path \<Rightarrow> (io_error, metadata) result"
  native_read :: "path \<Rightarrow> (io_error, str) result"
  native_read_virtual :: "path \<Rightarrow> (io_error, str) result"
  native_source_type :: "path \<Rightarrow> py_source_type option"
  native_virtual_source_type :: "path \<Rightarrow> py_source_type option"
  native_read_directory :: "path \<Rightarrow> (io_error, (path \<times> file_type) list) result"
  native_canonicalize :: "path \<Rightarrow> (io_error, path) result"
  native_read_notebook :: "path \<Rightarrow> (str, str) result"
  native_read_virtual_notebook :: "path \<Rightarrow> (str, str) result"
  native_which :: "str \<Rightarrow> (str, path) result"
  native_path_exists_case_sensitive :: "path \<Rightarrow> path \<Rightarrow> bool"
  native_case_sensitivity :: case_sensitivity
  native_current_directory :: path
  native_user_config_directory :: "path option"
  native_cache_dir :: "path option"
  native_walk_directory :: "path \<Rightarrow> (str, dir_entry) result list"
  native_env_var :: "str \<Rightarrow> (str, str) result"

record overlay_system =
  content :: content_map
  native :: native_system
  frozen :: "revision option"

definition overlay_live :: "native_system \<Rightarrow> generation \<Rightarrow> overlay_system" where
  "overlay_live os initial = \<lparr>content = initial, native = os, frozen = None\<rparr>"

definition overlay_frozen :: "native_system \<Rightarrow> generation \<Rightarrow> revision \<Rightarrow> overlay_system" where
  "overlay_frozen os g r = \<lparr>content = g, native = os, frozen = Some r\<rparr>"

definition publish :: "overlay_system \<Rightarrow> generation \<Rightarrow> overlay_system" where
  "publish ov g = ov\<lparr>content := g\<rparr>"

definition overlay_document :: "overlay_system \<Rightarrow> path \<Rightarrow> document option" where
  "overlay_document ov p = map_of (system (content ov)) p"

definition virtual_document :: "overlay_system \<Rightarrow> path \<Rightarrow> document option" where
  "virtual_document ov p = map_of (virtual_files (content ov)) p"

definition system_keys :: "overlay_system \<Rightarrow> path list" where
  "system_keys ov = map fst (system (content ov))"

definition is_synthesised_directory :: "overlay_system \<Rightarrow> path \<Rightarrow> bool" where
  "is_synthesised_directory ov p \<longleftrightarrow>
     (\<exists>key\<in>set (system_keys ov). \<not> (is_absolute key = is_absolute p \<and> components key = components p)
        \<and> path_starts_with key p)"

definition path_metadata :: "overlay_system \<Rightarrow> path \<Rightarrow> (io_error, metadata) result" where
  "path_metadata ov p =
     (case overlay_document ov p of
        Some (Text _ _ version) \<Rightarrow> Inr \<lparr>meta_revision = version, meta_file_type = File\<rparr>
      | Some (Deleted _) \<Rightarrow> Inl NotFound
      | None \<Rightarrow>
          if frozen ov \<noteq> None
          then (if is_synthesised_directory ov p
                then Inr \<lparr>meta_revision = 0, meta_file_type = Directory\<rparr>
                else Inl NotFound)
          else native_metadata (native ov) p)"

definition read_to_string :: "overlay_system \<Rightarrow> path \<Rightarrow> (io_error, str) result" where
  "read_to_string ov p =
     (case overlay_document ov p of
        Some (Text t _ _) \<Rightarrow> Inr t
      | Some (Deleted _) \<Rightarrow> Inl NotFound
      | None \<Rightarrow> if frozen ov \<noteq> None then Inl NotFound else native_read (native ov) p)"

definition read_virtual_path_to_string :: "overlay_system \<Rightarrow> path \<Rightarrow> (io_error, str) result" where
  "read_virtual_path_to_string ov p =
     (case virtual_document ov p of
        Some (Text t _ _) \<Rightarrow> Inr t
      | Some (Deleted _) \<Rightarrow> Inl NotFound
      | None \<Rightarrow> native_read_virtual (native ov) p)"

definition or_python :: "(str \<Rightarrow> py_source_type option) \<Rightarrow> path \<Rightarrow> py_source_type option" where
  "or_python try_ext p =
     (case Option.bind (extension p) try_ext of None \<Rightarrow> Some Python | Some t \<Rightarrow> Some t)"

definition virtual_path_source_type ::
  "(str \<Rightarrow> py_source_type option) \<Rightarrow> overlay_system \<Rightarrow> path \<Rightarrow> py_source_type option" where
  "virtual_path_source_type try_ext ov p =
     (case virtual_document ov p of
        Some (Text _ _ _) \<Rightarrow> or_python try_ext p
      | Some (Deleted _) \<Rightarrow> None
      | None \<Rightarrow> native_virtual_source_type (native ov) p)"

definition source_type ::
  "(str \<Rightarrow> py_source_type option) \<Rightarrow> overlay_system \<Rightarrow> path \<Rightarrow> py_source_type option" where
  "source_type try_ext ov p =
     (case overlay_document ov p of
        Some (Text _ _ _) \<Rightarrow> or_python try_ext p
      | Some (Deleted _) \<Rightarrow> None
      | None \<Rightarrow> if frozen ov \<noteq> None then None else native_source_type (native ov) p)"

text \<open>
  One iteration of the frozen enumeration: the sub-directories found so far (a sorted set)
  and the file entries in the order of the keys.
\<close>

definition read_directory_key ::
  "overlay_system \<Rightarrow> path \<Rightarrow> path \<Rightarrow> path btree_set \<times> (path \<times> file_type) list
   \<Rightarrow> path btree_set \<times> (path \<times> file_type) list" where
  "read_directory_key ov p key acc =
     (case acc of (dirs, ents) \<Rightarrow>
      (case path_strip_prefix key p of
         None \<Rightarrow> (dirs, ents)
       | Some rest0 \<Rightarrow>
           if rest0 = [] \<or> rest0 = ''/'' then (dirs, ents)
           else
             let rest = (case strip_prefix ''/'' rest0 of Some r \<Rightarrow> r | None \<Rightarrow> rest0) in
             (case find_sub ''/'' rest of
                Some slash \<Rightarrow> (bs_insert (join_path p (take slash rest)) dirs, ents)
              | None \<Rightarrow>
                  (case overlay_document ov key of
                     Some (Text _ _ _) \<Rightarrow> (dirs, ents @ [(join_path p rest, File)])
                   | _ \<Rightarrow> (dirs, ents)))))"

definition read_directory ::
  "overlay_system \<Rightarrow> path \<Rightarrow> (io_error, (path \<times> file_type) list) result" where
  "read_directory ov p =
     (if frozen ov \<noteq> None
      then (case fold (read_directory_key ov p) (system_keys ov) ([], []) of
              (dirs, ents) \<Rightarrow> Inr (ents @ map (\<lambda>d. (d, Directory)) dirs))
      else native_read_directory (native ov) p)"

section \<open>Queries handed to the native system\<close>

definition canonicalize_path :: "overlay_system \<Rightarrow> path \<Rightarrow> (io_error, path) result" where
  "canonicalize_path ov p = native_canonicalize (native ov) p"

definition read_to_notebook :: "overlay_system \<Rightarrow> path \<Rightarrow> (str, str) result" where
  "read_to_notebook ov p = native_read_notebook (native ov) p"

definition read_virtual_path_to_notebook :: "overlay_system \<Rightarrow> path \<Rightarrow> (str, str) result" where
  "read_virtual_path_to_notebook ov p = native_read_virtual_notebook (native ov) p"

definition which :: "overlay_system \<Rightarrow> str \<Rightarrow> (str, path) result" where
  "which ov name = native_which (native ov) name"

definition path_exists_case_sensitive :: "overlay_system \<Rightarrow> path \<Rightarrow> path \<Rightarrow> bool" where
  "path_exists_case_sensitive ov p base = native_path_exists_case_sensitive (native ov) p base"

definition overlay_case_sensitivity :: "overlay_system \<Rightarrow> case_sensitivity" where
  "overlay_case_sensitivity ov = native_case_sensitivity (native ov)"

definition current_directory :: "overlay_system \<Rightarrow> path" where
  "current_directory ov = native_current_directory (native ov)"

definition user_config_directory :: "overlay_system \<Rightarrow> path option" where
  "user_config_directory ov = native_user_config_directory (native ov)"

definition cache_dir :: "overlay_system \<Rightarrow> path option" where
  "cache_dir ov = native_cache_dir (native ov)"

definition walk_directory :: "overlay_system \<Rightarrow> path \<Rightarrow> (str, dir_entry) result list" where
  "walk_directory ov p = native_walk_directory (native ov) p"

definition env_var :: "overlay_system \<Rightarrow> str \<Rightarrow> (str, str) result" where
  "env_var ov name = native_env_var (native ov) name"

definition as_writable :: "overlay_system \<Rightarrow> overlay_system option" where
  "as_writable ov = None"

section \<open>Normal paths\<close>

text \<open>The text of a normal absolute path is its components, each after a slash.\<close>

definition normal_path :: "path \<Rightarrow> bool" where
  "normal_path p \<longleftrightarrow>
     p = (if components p = [] then ''/'' else concat (map (\<lambda>c. CHR ''/'' # c) (components p)))"

lemma components_no_slash: "c \<in> set (components p) \<Longrightarrow> CHR ''/'' \<notin> set c \<and> c \<noteq> [] \<and> c \<noteq> ''.''"
proof -
  have "x \<in> set (split_char d s) \<Longrightarrow> d \<notin> set x" for x s d
    by (induction d s arbitrary: x rule: split_char.induct) (auto split: list.splits if_splits)
  then show "c \<in> set (components p) \<Longrightarrow> CHR ''/'' \<notin> set c \<and> c \<noteq> [] \<and> c \<noteq> ''.''"
    by (auto simp: components_def)
qed

lemma join_components_Nil [simp]: "join_components [] = []"
  by (simp add: join_components_def)

lemma enumerate_tail:
  "concat (map (\<lambda>(i, c). if i = 0 then c else CHR ''/'' # c) (List.enumerate (Suc n) cs)) =
   concat (map (\<lambda>c. CHR ''/'' # c) cs)"
  by (induction cs arbitrary: n) auto

lemma join_components_Cons:
  "join_components (c # cs) = c @ concat (map (\<lambda>c. CHR ''/'' # c) cs)"
  by (simp add: join_components_def enumerate_tail)

lemma find_sub_char_absent: "c \<notin> set s \<Longrightarrow> find_sub [c] s = None"
  by (induction s) auto

lemma normal_absolute: "normal_path p \<Longrightarrow> is_absolute p"
  by (cases "components p") (auto simp: normal_path_def is_absolute_def split: if_splits)

text \<open>Stripping a normal prefix leaves the remaining components.\<close>

lemma path_strip_prefix_normal:
  assumes "normal_path key" "normal_path p"
  shows "path_strip_prefix key p = Some r \<longleftrightarrow>
    (\<exists>cs. components key = components p @ cs \<and> r = join_components cs)"
  using assms by (auto simp: path_strip_prefix_def path_starts_with_def normal_absolute prefix_def)

lemma join_path_normal:
  assumes "normal_path p" "CHR ''/'' \<notin> set c" "c \<noteq> []"
  shows "join_path p c = concat (map (\<lambda>c. CHR ''/'' # c) (components p @ [c]))"
proof -
  have "\<not> is_absolute c" using assms(2,3) by (cases c) (auto simp: is_absolute_def)
  moreover have "suffix ''/'' p \<longleftrightarrow> components p = []"
  proof (cases "components p" rule: rev_cases)
    case Nil
    with assms(1) have "p = ''/''" by (simp add: normal_path_def)
    with Nil show ?thesis by simp
  next
    case (snoc cs d)
    then have "p = concat (map (\<lambda>c. CHR ''/'' # c) cs) @ CHR ''/'' # d"
      using assms(1) by (simp add: normal_path_def)
    moreover have "CHR ''/'' \<notin> set d" "d \<noteq> []" using components_no_slash [of d p] snoc by auto
    ultimately show ?thesis using snoc by (cases d rule: rev_cases) (auto simp: suffix_def)
  qed
  moreover have "p \<noteq> []" using normal_absolute [OF assms(1)] by (auto simp: is_absolute_def)
  moreover have "components p \<noteq> [] \<Longrightarrow> p = concat (map (\<lambda>c. CHR ''/'' # c) (components p))"
    "components p = [] \<Longrightarrow> p = ''/''"
    using assms(1) by (simp_all add: normal_path_def)
  ultimately show ?thesis by (auto simp: join_path_def)
qed

lemma normal_eq_iff: "normal_path p \<Longrightarrow> normal_path q \<Longrightarrow> components p = components q \<Longrightarrow> p = q"
  by (metis normal_path_def)

section \<open>Directory listings\<close>

definition is_text :: "overlay_system \<Rightarrow> path \<Rightarrow> bool" where
  "is_text ov p \<longleftrightarrow> (case overlay_document ov p of Some (Text _ _ _) \<Rightarrow> True | _ \<Rightarrow> False)"

lemma join_components_nonempty:
  assumes "c \<noteq> []" "CHR ''/'' \<notin> set c"
  shows "join_components (c # cs) \<noteq> []" "join_components (c # cs) \<noteq> ''/''"
    "strip_prefix ''/'' (join_components (c # cs)) = None"
  using assms by (cases c; force simp: join_components_Cons strip_prefix_def)+

lemma read_directory_key_file:
  assumes "normal_path key" "normal_path p" "components key = components p @ [c]"
  shows "read_directory_key ov p key (dirs, ents) =
    (dirs, if is_text ov key then ents @ [(key, File)] else ents)"
proof -
  have c: "CHR ''/'' \<notin> set c" "c \<noteq> []" using components_no_slash [of c key] assms(3) by auto
  have strip: "path_strip_prefix key p = Some (join_components [c])"
    using assms by (auto simp: path_strip_prefix_normal)
  have key: "join_path p c = key"
    using join_path_normal [OF assms(2) c] assms(1,3) by (simp add: normal_path_def)
  show ?thesis
    using join_components_nonempty [OF c(2,1), of "[]"] c
    by (auto simp: read_directory_key_def strip key is_text_def join_components_Cons
        find_sub_char_absent split: option.splits document.splits)
qed

lemma read_directory_key_dir:
  assumes "normal_path key" "normal_path p" "components key = components p @ c # d # ds"
  shows "read_directory_key ov p key (dirs, ents) = (bs_insert (join_path p c) dirs, ents)"
proof -
  have c: "CHR ''/'' \<notin> set c" "c \<noteq> []" using components_no_slash [of c key] assms(3) by auto
  have strip: "path_strip_prefix key p = Some (join_components (c # d # ds))"
    using assms by (auto simp: path_strip_prefix_normal)
  have "find_sub ''/'' (join_components (c # d # ds)) = Some (length c)"
    using find_sub_append_sep [of "''/''" c "d @ concat (map (\<lambda>c. CHR ''/'' # c) ds)"] c
    by (simp add: join_components_Cons)
  then show ?thesis
    using join_components_nonempty [OF c(2,1), of "d # ds"]
    by (simp add: read_directory_key_def strip Let_def) (simp add: join_components_Cons)
qed

lemma read_directory_key_other:
  assumes "normal_path key" "normal_path p" "\<nexists>c cs. components key = components p @ c # cs"
  shows "read_directory_key ov p key acc = acc"
proof (cases "path_strip_prefix key p")
  case None
  then show ?thesis by (simp add: read_directory_key_def split: prod.splits)
next
  case (Some r)
  then obtain cs where "components key = components p @ cs" "r = join_components cs"
    using assms(1,2) by (auto simp: path_strip_prefix_normal)
  with assms(3) have "r = []" by (cases cs) auto
  with Some show ?thesis by (simp add: read_directory_key_def split: prod.splits)
qed

text \<open>What one key contributes to the listing of a directory.\<close>

definition listed_dirs :: "path \<Rightarrow> path \<Rightarrow> path set" where
  "listed_dirs p key = {join_path p c |c d ds. components key = components p @ c # d # ds}"

definition listed_files :: "overlay_system \<Rightarrow> path \<Rightarrow> path \<Rightarrow> (path \<times> file_type) set" where
  "listed_files ov p key = {e. e = (key, File) \<and> (\<exists>c. components key = components p @ [c]) \<and> is_text ov key}"

lemma read_directory_key_sets:
  assumes "normal_path key" "normal_path p" "read_directory_key ov p key (dirs0, ents0) = (dirs, ents)"
  shows "set dirs = set dirs0 \<union> listed_dirs p key \<and> set ents = set ents0 \<union> listed_files ov p key"
proof -
  consider (leaf) c where "components key = components p @ [c]"
    | (dir) c d ds where "components key = components p @ c # d # ds"
    | (other) "\<nexists>c cs. components key = components p @ c # cs"
    by (metis neq_Nil_conv)
  then show ?thesis
  proof cases
    case leaf
    with assms(3) show ?thesis
      by (auto simp: read_directory_key_file [OF assms(1,2) leaf] listed_dirs_def listed_files_def split: if_splits)
  next
    case dir
    with assms(3) show ?thesis
      by (auto simp: read_directory_key_dir [OF assms(1,2) dir] listed_dirs_def listed_files_def)
  next
    case other
    with assms(3) show ?thesis
      by (simp add: read_directory_key_other [OF assms(1,2) other] listed_dirs_def listed_files_def)
  qed
qed

lemma fold_read_directory_key:
  assumes "normal_path p" "\<forall>key\<in>set keys. normal_path key"
    "fold (read_directory_key ov p) keys (dirs0, ents0) = (dirs, ents)"
  shows "set dirs = set dirs0 \<union> \<Union> (listed_dirs p ` set keys) \<and>
    set ents = set ents0 \<union> \<Union> (listed_files ov p ` set keys)"
  using assms(2,3)
proof (induction keys arbitrary: dirs0 ents0)
  case Nil
  then show ?case by simp
next
  case (Cons key keys)
  obtain dirs1 ents1 where k: "read_directory_key ov p key (dirs0, ents0) = (dirs1, ents1)" by fastforce
  have "normal_path key" using Cons.prems by simp
  from read_directory_key_sets [OF this assms(1) k] Cons.IH [of dirs1 ents1] Cons.prems k
  show ?case by (simp add: Un_assoc)
qed

section \<open>Properties\<close>

text \<open>
  Snapshot isolation: what a frozen overlay answers about a path's content, metadata,
  source type or directory members depends on the pinned generation alone, never on the
  disk or on the revision label.
\<close>

theorem frozen_view_ignores_disk:
  "read_to_string (overlay_frozen os g r) p = read_to_string (overlay_frozen os' g r') p \<and>
   path_metadata (overlay_frozen os g r) p = path_metadata (overlay_frozen os' g r') p \<and>
   source_type try_ext (overlay_frozen os g r) p = source_type try_ext (overlay_frozen os' g r') p \<and>
   read_directory (overlay_frozen os g r) p = read_directory (overlay_frozen os' g r') p"
proof -
  have doc: "overlay_document (overlay_frozen os g r) = overlay_document (overlay_frozen os' g r')"
    by (simp add: overlay_document_def overlay_frozen_def fun_eq_iff)
  have keys: "system_keys (overlay_frozen os g r) = system_keys (overlay_frozen os' g r')"
    by (simp add: system_keys_def overlay_frozen_def)
  have step: "read_directory_key (overlay_frozen os g r) p = read_directory_key (overlay_frozen os' g r') p"
    by (intro ext) (unfold read_directory_key_def doc, rule refl)
  have dirs: "is_synthesised_directory (overlay_frozen os g r) p =
      is_synthesised_directory (overlay_frozen os' g r') p"
    by (simp add: is_synthesised_directory_def keys)
  have fr: "frozen (overlay_frozen os g r) \<noteq> None" "frozen (overlay_frozen os' g r') \<noteq> None"
    by (simp_all add: overlay_frozen_def)
  show ?thesis
    by (simp add: read_to_string_def path_metadata_def source_type_def read_directory_def
        doc keys step dirs fr split: option.splits document.splits)
qed

text \<open>
  C36. A frozen directory listing is exact: with normal absolute paths it names as files
  exactly the text documents one component below the directory, each of which can be read,
  and as directories exactly the first components of deeper keys.
\<close>

theorem frozen_listing_exact:
  assumes "frozen ov \<noteq> None" "normal_path p" "\<forall>key\<in>set (system_keys ov). normal_path key"
    and "read_directory ov p = Inr listing"
  shows "((q, File) \<in> set listing \<longleftrightarrow>
      q \<in> set (system_keys ov) \<and> (\<exists>c. components q = components p @ [c]) \<and> (\<exists>t. read_to_string ov q = Inr t))
    \<and> ((q, Directory) \<in> set listing \<longleftrightarrow>
      (\<exists>key\<in>set (system_keys ov). \<exists>c d ds. components key = components p @ c # d # ds \<and> q = join_path p c))"
proof -
  obtain dirs ents where f: "fold (read_directory_key ov p) (system_keys ov) ([], []) = (dirs, ents)"
    by fastforce
  have l: "listing = ents @ map (\<lambda>d. (d, Directory)) dirs"
    using assms(1,4) f by (simp add: read_directory_def)
  have istext: "is_text ov q \<longleftrightarrow> (\<exists>t. read_to_string ov q = Inr t)" for q
    using assms(1) by (auto simp: is_text_def read_to_string_def split: option.splits document.splits)
  note sets = fold_read_directory_key [OF assms(2,3) f]
  have "(q, File) \<in> set listing \<longleftrightarrow>
      q \<in> set (system_keys ov) \<and> (\<exists>c. components q = components p @ [c]) \<and> (\<exists>t. read_to_string ov q = Inr t)"
    using sets by (auto simp: l istext listed_files_def)
  moreover have "(q, Directory) \<in> set listing \<longleftrightarrow>
      (\<exists>key\<in>set (system_keys ov). \<exists>c d ds. components key = components p @ c # d # ds \<and> q = join_path p c)"
    using sets by (auto simp: l image_iff listed_dirs_def listed_files_def)
  ultimately show ?thesis by blast
qed

theorem frozen_listing_exact_witness:
  "\<exists>ov listing. read_directory ov ''/r'' = Inr listing \<and> (''/r/a.py'', File) \<in> set listing
     \<and> (''/r/sub'', Directory) \<in> set listing \<and> (''/r/gone.py'', File) \<notin> set listing"
proof -
  obtain ov :: overlay_system where ov: "system (content ov) = [(''/r/a.py'', Text ''x'' (ContentHash 7) 1),
      (''/r/sub/b.py'', Text ''y'' (ContentHash 7) 2), (''/r/gone.py'', Deleted 3)]" "frozen ov = Some 1"
    using overlay_system.select_convs content_map.select_convs(1) by metis
  have keys: "system_keys ov = [''/r/a.py'', ''/r/sub/b.py'', ''/r/gone.py'']"
    by (simp add: system_keys_def ov)
  have comps: "components ''/r/a.py'' = [''r'', ''a.py'']" "components ''/r/sub/b.py'' = [''r'', ''sub'', ''b.py'']"
    "components ''/r/gone.py'' = [''r'', ''gone.py'']" "components ''/r'' = [''r'']"
    by (simp_all add: components_def)
  have h: "frozen ov \<noteq> None" "normal_path ''/r''" "\<forall>key\<in>set (system_keys ov). normal_path key"
    by (simp_all add: ov keys normal_path_def comps)
  obtain listing where l: "read_directory ov ''/r'' = Inr listing"
    using h(1) by (cases "read_directory ov ''/r''") (simp_all add: read_directory_def case_prod_unfold)
  have reads: "read_to_string ov ''/r/a.py'' = Inr ''x''" "read_to_string ov ''/r/gone.py'' = Inl NotFound"
    by (simp_all add: read_to_string_def overlay_document_def ov)
  note listed = frozen_listing_exact [OF h l]
  have "(''/r/a.py'', File) \<in> set listing"
    using listed [of "''/r/a.py''"] by (simp add: keys comps reads)
  moreover have "(''/r/gone.py'', File) \<notin> set listing"
    using listed [of "''/r/gone.py''"] by (simp add: keys comps reads)
  moreover have "(''/r/sub'', Directory) \<in> set listing"
  proof -
    have "\<exists>key\<in>set (system_keys ov). \<exists>c d ds. components key = components ''/r'' @ c # d # ds
        \<and> ''/r/sub'' = join_path ''/r'' c"
      by (simp add: keys comps join_path_def is_absolute_def suffix_def)
    then show ?thesis using listed [of "''/r/sub''"] by blast
  qed
  ultimately show ?thesis using l by blast
qed

text \<open>
  Notebooks escape the overlay: a frozen view reads them from the disk, and a live view does so
  even when it holds a document for the path.
\<close>

lemma notebooks_bypass_overlay:
  "read_to_notebook (overlay_frozen os g r) p = native_read_notebook os p"
  "read_to_notebook (overlay_live os g) p = native_read_notebook os p"
  by (simp_all add: read_to_notebook_def overlay_frozen_def overlay_live_def)

end
