(* ===== verification/Sidecar.thy ===== *)
theory Sidecar
  imports Content
begin

text \<open>
  The on-disk sidecar (\<open>rust/src/sidecar.rs\<close>): the layout of \<open>.tyo3\<close> and the one primitive
  every sidecar writer uses, \<open>write_atomic\<close>.

  The disk is a partial map from paths to bytes.  Each system call of \<open>write_atomic\<close> may
  fail; the record \<open>io_plan\<close> says which one does (and how many bytes a failing write had
  put down), and every definition that writes takes one.  Parent directories are created as
  needed and are not represented.
\<close>

section \<open>Files and bytes\<close>

type_synonym bytes = "8 word list"
type_synonym disk = "path \<rightharpoonup> bytes"

text \<open>UTF-8 of a text whose scalar values fit in a character.\<close>

definition utf8_char :: "char \<Rightarrow> bytes" where
  "utf8_char c =
     (let n = of_char c :: nat in
      if n < 128 then [of_nat n] else [of_nat (192 + n div 64), of_nat (128 + n mod 64)])"

definition as_bytes :: "str \<Rightarrow> bytes" where
  "as_bytes s = concat (map utf8_char s)"

text \<open>
  \<open>Path::with_extension\<close>: the extension of the last component is replaced; trailing
  separators and \<open>.\<close> components are dropped, and a path without a file name is left alone.
\<close>

definition name_stem :: "str \<Rightarrow> str" where
  "name_stem f = (case rfind_sub ''.'' f of None \<Rightarrow> f | Some 0 \<Rightarrow> f | Some (Suc i) \<Rightarrow> take (Suc i) f)"

definition with_extension :: "path \<Rightarrow> str \<Rightarrow> path" where
  "with_extension p ext =
     (case dropWhile (\<lambda>s. s = [] \<or> s = ''.'') (rev (split_char (CHR ''/'') p)) of
        [] \<Rightarrow> p
      | f # rest \<Rightarrow>
          if f = ''..'' then p
          else join_components (rev ((name_stem f @ ''.'' @ ext) # rest)))"

section \<open>Layout\<close>

record sidecar =
  sc_root :: path

definition sidecar_new :: "path \<Rightarrow> sidecar" where
  "sidecar_new project_root = \<lparr>sc_root = join_path project_root ''.tyo3''\<rparr>"

definition sidecar_exists :: "(path \<Rightarrow> bool) \<Rightarrow> sidecar \<Rightarrow> bool" where
  "sidecar_exists is_dir sc = is_dir (sc_root sc)"

definition config_path :: "sidecar \<Rightarrow> path" where
  "config_path sc = join_path (sc_root sc) ''config.toml''"

definition config_local_path :: "sidecar \<Rightarrow> path" where
  "config_local_path sc = join_path (sc_root sc) ''config.local.toml''"

definition secrets_path :: "sidecar \<Rightarrow> path" where
  "secrets_path sc = join_path (sc_root sc) ''secrets.toml''"

definition identity_db_path :: "sidecar \<Rightarrow> path" where
  "identity_db_path sc = join_path (sc_root sc) ''identity.db''"

definition authored_dir :: "sidecar \<Rightarrow> str \<Rightarrow> path" where
  "authored_dir sc layer = join_path (join_path (sc_root sc) ''authored'') layer"

definition record_path :: "sidecar \<Rightarrow> str \<Rightarrow> str \<Rightarrow> path" where
  "record_path sc layer i = join_path (authored_dir sc layer) (i @ ''.json'')"

definition gitignore_path :: "sidecar \<Rightarrow> path" where
  "gitignore_path sc = join_path (sc_root sc) ''.gitignore''"

definition layout_marker_path :: "sidecar \<Rightarrow> path" where
  "layout_marker_path sc = join_path (sc_root sc) ''LAYOUT.md''"

section \<open>Crash-safe writes\<close>

record io_plan =
  io_mkdir :: "io_error option"
  io_create :: "io_error option"
  io_write :: "(io_error \<times> nat) option"
  io_sync :: "io_error option"
  io_rename :: "io_error option"

definition io_ok :: io_plan where
  "io_ok = \<lparr>io_mkdir = None, io_create = None, io_write = None, io_sync = None, io_rename = None\<rparr>"

text \<open>\<open>Path::parent\<close> is absent only for a path without components.\<close>

definition has_parent :: "path \<Rightarrow> bool" where
  "has_parent p \<longleftrightarrow> components p \<noteq> []"

definition write_atomic :: "io_plan \<Rightarrow> path \<Rightarrow> bytes \<Rightarrow> disk \<Rightarrow> (io_error, unit) result \<times> disk" where
  "write_atomic io p bytes d =
     (case (if has_parent p then io_mkdir io else None) of
        Some e \<Rightarrow> (Inl e, d)
      | None \<Rightarrow>
          let tmp = with_extension p ''tmp'' in
          (case io_create io of
             Some e \<Rightarrow> (Inl e, d)
           | None \<Rightarrow>
               (case io_write io of
                  Some (e, n) \<Rightarrow> (Inl e, d(tmp \<mapsto> take n bytes))
                | None \<Rightarrow>
                    (case io_sync io of
                       Some e \<Rightarrow> (Inl e, d(tmp \<mapsto> bytes))
                     | None \<Rightarrow>
                         (case io_rename io of
                            Some e \<Rightarrow> (Inl e, d(tmp \<mapsto> bytes))
                          | None \<Rightarrow> (Inr (), (d(tmp := None))(p \<mapsto> bytes)))))))"

text \<open>\<open>fs::read_to_string\<close> on the sidecar's disk, with the decoder as a parameter.\<close>

definition read_text :: "(bytes \<Rightarrow> (str, str) result) \<Rightarrow> disk \<Rightarrow> path \<Rightarrow> (io_error, str) result" where
  "read_text from_utf8 d p =
     (case d p of
        None \<Rightarrow> Inl NotFound
      | Some b \<Rightarrow> (case from_utf8 b of Inl _ \<Rightarrow> Inl OtherIo | Inr t \<Rightarrow> Inr t))"

definition newline :: str where
  "newline = [CHR 0x0A]"

definition cache_policy :: str where
  "cache_policy = ''# managed by tyo3'' @ newline @ ''cache/'' @ newline @ ''config.local.toml'' @ newline
     @ ''secrets.toml'' @ newline"

definition has_cache_policy :: "str \<Rightarrow> bool" where
  "has_cache_policy existing \<longleftrightarrow>
     contains_sub ''# managed by tyo3'' existing \<and> contains_sub ''cache/'' existing \<and>
     contains_sub ''config.local.toml'' existing \<and> contains_sub ''secrets.toml'' existing"

definition ensure_gitignore_cache_policy ::
  "(bytes \<Rightarrow> (str, str) result) \<Rightarrow> io_plan \<Rightarrow> sidecar \<Rightarrow> disk \<Rightarrow> (io_error, unit) result \<times> disk" where
  "ensure_gitignore_cache_policy from_utf8 io sc d =
     (let p = gitignore_path sc in
      (case (case read_text from_utf8 d p of
               Inr text \<Rightarrow> Inr text
             | Inl NotFound \<Rightarrow> Inr []
             | Inl OtherIo \<Rightarrow> Inl OtherIo) of
         Inl e \<Rightarrow> (Inl e, d)
       | Inr existing \<Rightarrow>
           if has_cache_policy existing then (Inr (), d)
           else
             let next = (if existing \<noteq> [] \<and> \<not> suffix newline existing then existing @ newline else existing)
             in write_atomic io p (as_bytes (next @ cache_policy)) d))"

definition layout_marker :: str where
  "layout_marker = ''# TyO3 sidecar'' @ newline @ newline
     @ ''This directory contains inert TyO3 tool data: identity.db, authored records, and regenerable cache artifacts.''
     @ newline"

definition ensure_layout_marker :: "io_plan \<Rightarrow> sidecar \<Rightarrow> disk \<Rightarrow> (io_error, unit) result \<times> disk" where
  "ensure_layout_marker io sc d =
     (let p = layout_marker_path sc
      in if d p \<noteq> None then (Inr (), d) else write_atomic io p (as_bytes layout_marker) d)"

section \<open>The temporary file\<close>

lemma join_components_snoc: "suffix c (join_components (cs @ [c]))"
  by (simp add: join_components_def enumerate_append_eq suffix_def split: if_splits)

lemma split_char_snoc:
  "c \<notin> set b \<Longrightarrow> split_char c (a @ b) = butlast (split_char c a) @ [last (split_char c a) @ b]"
proof (induction a)
  case (Cons x a)
  then show ?case by (cases "split_char c a") (auto split: list.splits)
qed (simp add: split_char_no_sep)

lemma with_extension_tmp:
  assumes "suffix b p" "CHR ''/'' \<notin> set b" "2 < length b"
  shows "suffix (''.'' @ ext) (with_extension p ext)"
proof -
  from assms(1) obtain a where p: "p = a @ b" by (auto simp: suffix_def)
  define f where "f = last (split_char (CHR ''/'') a) @ b"
  define xs where "xs = butlast (split_char (CHR ''/'') a)"
  have "split_char (CHR ''/'') p = xs @ [f]" by (simp add: p split_char_snoc [OF assms(2)] f_def xs_def)
  moreover have "2 < length f" using assms(3) by (simp add: f_def)
  then have "f \<noteq> []" "f \<noteq> ''.''" "f \<noteq> ''..''" by auto
  ultimately have "with_extension p ext = join_components (xs @ [name_stem f @ ''.'' @ ext])"
    by (simp add: with_extension_def)
  then have "suffix (name_stem f @ ''.'' @ ext) (with_extension p ext)"
    using join_components_snoc by metis
  then show ?thesis by (rule suffix_order.trans [rotated]) (simp add: suffix_def)
qed

lemma join_path_suffix: "suffix f (join_path d f)"
  by (simp add: join_path_def suffix_def)

text \<open>The files the sidecar writes; none of them is a temporary file, and their temporary files are.\<close>

definition sidecar_file :: "path \<Rightarrow> bool" where
  "sidecar_file p \<longleftrightarrow> (\<exists>b\<in>{''identity.db'', ''.json'', ''.gitignore'', ''LAYOUT.md''}. suffix b p)"

definition temp_file :: "path \<Rightarrow> bool" where
  "temp_file p \<longleftrightarrow> suffix ''.tmp'' p"

lemma sidecar_files [simp]:
  "sidecar_file (identity_db_path sc)" "sidecar_file (record_path sc layer i)"
  "sidecar_file (gitignore_path sc)" "sidecar_file (layout_marker_path sc)"
proof -
  have "suffix ''.json'' (record_path sc layer i)"
    unfolding record_path_def by (rule suffix_order.trans [OF _ join_path_suffix]) (simp add: suffix_def)
  then show "sidecar_file (record_path sc layer i)" by (simp add: sidecar_file_def)
qed (simp_all add: sidecar_file_def identity_db_path_def gitignore_path_def layout_marker_path_def join_path_suffix)

lemma sidecar_file_tmp: "sidecar_file p \<Longrightarrow> temp_file (with_extension p ''tmp'')"
  unfolding sidecar_file_def temp_file_def using with_extension_tmp [of _ p "''tmp''"] by auto

lemma suffix_last: "suffix a p \<Longrightarrow> a \<noteq> [] \<Longrightarrow> last p = last a"
  by (auto simp: suffix_def)

lemma sidecar_not_temp: "sidecar_file p \<Longrightarrow> \<not> temp_file p"
  unfolding sidecar_file_def temp_file_def by (auto dest!: suffix_last)

lemma write_atomic_result:
  "write_atomic io p bytes d = (res, d') \<Longrightarrow>
     (res = Inr () \<longrightarrow> d' = (d(with_extension p ''tmp'' := None))(p \<mapsto> bytes)) \<and>
     (res \<noteq> Inr () \<longrightarrow> d' = d \<or> (\<exists>b. d' = d(with_extension p ''tmp'' \<mapsto> b)))"
  by (auto simp: write_atomic_def Let_def split: option.splits prod.splits)

lemma write_atomic_ok: "fst (write_atomic io_ok p bytes d) = Inr ()"
  by (simp add: write_atomic_def io_ok_def)

text \<open>
  C26.  A sidecar write is atomic, whichever system call fails and however many bytes a failing
  write put down: after a write to a path named like the sidecar's files (the registry, a record,
  the ignore file, the layout marker) the file holds its previous content or exactly the new bytes, the latter precisely when the write reports success; no file
  other than this one and its own temporary file has changed; and a successful write leaves no
  temporary file.
\<close>

theorem write_atomic_all_or_nothing:
  assumes "sidecar_file p" "write_atomic io p bytes d = (res, d')"
  shows "(if res = Inr () then d' p = Some bytes else d' p = d p)
    \<and> (\<forall>q. q \<noteq> p \<and> q \<noteq> with_extension p ''tmp'' \<longrightarrow> d' q = d q) \<and> (res = Inr () \<longrightarrow> d' (with_extension p ''tmp'') = None)"
proof -
  have "with_extension p ''tmp'' \<noteq> p" using sidecar_file_tmp [OF assms(1)] sidecar_not_temp [OF assms(1)] by auto
  then show ?thesis using write_atomic_result [OF assms(2)] by (cases "res = Inr ()") auto
qed

text \<open>A write that fails while it is putting down the temporary file keeps the old registry.\<close>

theorem write_atomic_all_or_nothing_witness:
  "let p = identity_db_path (sidecar_new ''/w'');
       io = io_ok\<lparr>io_write := Some (OtherIo, 1)\<rparr>;
       d = [p \<mapsto> [1, 2]]
   in p = ''/w/.tyo3/identity.db'' \<and> snd (write_atomic io p [3, 4] d) p = Some [1, 2]
      \<and> snd (write_atomic io p [3, 4] d) ''/w/.tyo3/identity.tmp'' = Some [3]"
proof -
  let ?p = "identity_db_path (sidecar_new ''/w'')"
  let ?io = "io_ok\<lparr>io_write := Some (OtherIo, 1)\<rparr>"
  have p: "?p = ''/w/.tyo3/identity.db''"
    by (simp add: identity_db_path_def sidecar_new_def join_path_def is_absolute_def suffix_def)
  have t: "with_extension ?p ''tmp'' = ''/w/.tyo3/identity.tmp''"
    unfolding p by (simp add: with_extension_def name_stem_def join_components_def)
  obtain res d' where w: "write_atomic ?io ?p [3, 4] [?p \<mapsto> [1, 2]] = (res, d')" by fastforce
  then have "res = Inl OtherIo" "d' = [?p \<mapsto> [1, 2]](''/w/.tyo3/identity.tmp'' \<mapsto> [3])"
    by (auto simp: write_atomic_def io_ok_def t split: if_splits)
  with write_atomic_all_or_nothing [OF sidecar_files(1) w] w p show ?thesis by (simp add: Let_def)
qed

section \<open>The ignore file\<close>

lemma find_sub_prefix: "prefix pat s \<Longrightarrow> find_sub pat s = Some 0"
  by (cases s) auto

lemma contains_subI: "contains_sub pat (xs @ pat @ ys)"
  unfolding contains_sub_def by (induction xs) (auto simp: find_sub_prefix)

lemma cache_policy_present: "has_cache_policy (xs @ cache_policy)"
  using contains_subI [of "''# managed by tyo3''" xs]
    contains_subI [of "''cache/''" "xs @ ''# managed by tyo3'' @ newline"]
    contains_subI [of "''config.local.toml''" "xs @ ''# managed by tyo3'' @ newline @ ''cache/'' @ newline"]
    contains_subI [of "''secrets.toml''"
      "xs @ ''# managed by tyo3'' @ newline @ ''cache/'' @ newline @ ''config.local.toml'' @ newline"]
  unfolding has_cache_policy_def cache_policy_def append_assoc by blast

text \<open>
  Once the ignore policy is in place it stays: a second run succeeds without writing, whatever
  the disk would have done, and the user's own lines are kept in front.
\<close>

lemma gitignore_policy_settles:
  assumes utf8: "\<And>t. from_utf8 (as_bytes t) = Inr t"
    and run: "ensure_gitignore_cache_policy from_utf8 io sc d = (Inr (), d')"
  shows "ensure_gitignore_cache_policy from_utf8 io2 sc d' = (Inr (), d')
    \<and> (\<exists>old new. read_text from_utf8 d' (gitignore_path sc) = Inr new \<and> prefix old new \<and> has_cache_policy new
         \<and> read_text from_utf8 d (gitignore_path sc) \<in> {Inr old, Inl NotFound})"
proof -
  let ?p = "gitignore_path sc"
  consider (kept) old where "read_text from_utf8 d ?p = Inr old" "has_cache_policy old" "d' = d"
    | (written) old mid where "read_text from_utf8 d ?p \<in> {Inr old, Inl NotFound}"
      "write_atomic io ?p (as_bytes (old @ mid @ cache_policy)) d = (Inr (), d')"
  proof (cases "read_text from_utf8 d ?p")
    case (Inl e)
    have "\<not> has_cache_policy []" by (simp add: has_cache_policy_def contains_sub_def)
    with run Inl have "e = NotFound" "write_atomic io ?p (as_bytes ([] @ [] @ cache_policy)) d = (Inr (), d')"
      by (simp_all add: ensure_gitignore_cache_policy_def split: io_error.splits)
    then show ?thesis using that(2) [of "[]" "[]"] Inl by simp
  next
    case (Inr old)
    let ?mid = "if old \<noteq> [] \<and> \<not> suffix newline old then newline else []"
    show ?thesis
    proof (cases "has_cache_policy old")
      case True
      then show ?thesis using that(1) [of old] run Inr by (simp add: ensure_gitignore_cache_policy_def)
    next
      case False
      then have "write_atomic io ?p (as_bytes (old @ ?mid @ cache_policy)) d = (Inr (), d')"
        using run Inr by (auto simp: ensure_gitignore_cache_policy_def split: if_splits)
      then show ?thesis using that(2) [of old ?mid] Inr by blast
    qed
  qed
  then show ?thesis
  proof cases
    case kept
    then show ?thesis by (auto simp: ensure_gitignore_cache_policy_def)
  next
    case (written old mid)
    from write_atomic_result [OF this(2)] have "d' ?p = Some (as_bytes (old @ mid @ cache_policy))" by simp
    then have rd: "read_text from_utf8 d' ?p = Inr (old @ mid @ cache_policy)" by (simp add: read_text_def utf8)
    have "has_cache_policy (old @ mid @ cache_policy)" using cache_policy_present [of "old @ mid"] by simp
    with rd written(1) show ?thesis by (auto simp: ensure_gitignore_cache_policy_def)
  qed
qed

end
