(* ===== verification/Registry.thy ===== *)
theory Registry
  imports Content Decimal
begin

text \<open>
  The identity registry of \<open>rust/src/identity.rs\<close>: durable ids bound to the last-known facts
  of an entity, with an index by qualified path and an index by content hash, its mutators,
  and its persisted JSON form.

  \<open>by_id\<close> is iterated by the code, so it is an association list in the hasher's order; the two
  indexes are only looked up.  The JSON text codec is outside the repository: \<open>to_vec_pretty\<close>,
  \<open>from_utf8\<close> and \<open>from_str\<close> are parameters, and the JSON values are the data type \<open>json\<close>.
\<close>

section \<open>Data\<close>

datatype durable_id = DurableId (id_str: str)

instantiation durable_id :: linorder
begin

definition less_eq_durable_id :: "durable_id \<Rightarrow> durable_id \<Rightarrow> bool" where
  "less_eq_durable_id a b \<longleftrightarrow> id_str a \<le> id_str b"

definition less_durable_id :: "durable_id \<Rightarrow> durable_id \<Rightarrow> bool" where
  "less_durable_id a b \<longleftrightarrow> id_str a < id_str b"

instance
  by standard (auto simp: less_eq_durable_id_def less_durable_id_def durable_id.expand)

end

datatype symbol_kind =
    Module | Class | Function | Method | Constructor | Variable | Constant | Field | Parameter
  | Property | TypeParameter | Import

datatype identity_status = Active | NeedsReview | Orphaned

record anchor =
  a_id :: durable_id
  a_qualified_path :: str
  a_content_hash :: content_hash
  a_kind :: symbol_kind
  a_first_seen_rev :: revision
  a_last_seen_rev :: revision
  a_status :: identity_status

record identity_registry =
  by_id :: "(durable_id, anchor) hash_map"
  by_path :: "str \<rightharpoonup> durable_id"
  by_hash :: "content_hash \<rightharpoonup> durable_id list"

definition registry_default :: identity_registry where
  "registry_default = \<lparr>by_id = [], by_path = Map.empty, by_hash = Map.empty\<rparr>"

section \<open>Lookups\<close>

definition registry_get :: "identity_registry \<Rightarrow> durable_id \<Rightarrow> anchor option" where
  "registry_get r i = map_of (by_id r) i"

definition ids_by_hash :: "identity_registry \<Rightarrow> content_hash \<Rightarrow> durable_id list" where
  "ids_by_hash r h = (case by_hash r h of None \<Rightarrow> [] | Some ids \<Rightarrow> ids)"

definition registry_iter :: "identity_registry \<Rightarrow> anchor list" where
  "registry_iter r = map snd (by_id r)"

definition status_of :: "identity_registry \<Rightarrow> durable_id \<Rightarrow> identity_status option" where
  "status_of r i = map_option a_status (registry_get r i)"

section \<open>Mutators\<close>

definition remove_from_hash_index ::
  "content_hash \<Rightarrow> durable_id \<Rightarrow> identity_registry \<Rightarrow> identity_registry" where
  "remove_from_hash_index h i r =
     (case by_hash r h of
        None \<Rightarrow> r
      | Some ids \<Rightarrow>
          let ids' = filter (\<lambda>x. x \<noteq> i) ids in
          if ids' = [] then r\<lparr>by_hash := (by_hash r)(h := None)\<rparr>
          else r\<lparr>by_hash := (by_hash r)(h \<mapsto> ids')\<rparr>)"

definition push_hash_index ::
  "content_hash \<Rightarrow> durable_id \<Rightarrow> identity_registry \<Rightarrow> identity_registry" where
  "push_hash_index h i r = r\<lparr>by_hash := (by_hash r)(h \<mapsto> ids_by_hash r h @ [i])\<rparr>"

definition registry_insert :: "anchor \<Rightarrow> identity_registry \<Rightarrow> identity_registry" where
  "registry_insert a r =
     (let old_keys = map_option (\<lambda>old. (a_qualified_path old, a_content_hash old)) (registry_get r (a_id a));
          r1 = (case old_keys of
                  None \<Rightarrow> r
                | Some (old_path, old_hash) \<Rightarrow>
                    remove_from_hash_index old_hash (a_id a) (r\<lparr>by_path := (by_path r)(old_path := None)\<rparr>));
          r2 = r1\<lparr>by_path := (by_path r1)(a_qualified_path a \<mapsto> a_id a)\<rparr>;
          r3 = push_hash_index (a_content_hash a) (a_id a) r2
      in r3\<lparr>by_id := AList.update (a_id a) a (by_id r3)\<rparr>)"

definition rebind ::
  "durable_id \<Rightarrow> str \<Rightarrow> content_hash \<Rightarrow> revision \<Rightarrow> identity_registry \<Rightarrow> identity_registry" where
  "rebind i new_path new_hash rv r =
     (case registry_get r i of
        None \<Rightarrow> r
      | Some a \<Rightarrow>
          let r1 = remove_from_hash_index (a_content_hash a) i
                     (r\<lparr>by_path := (by_path r)(a_qualified_path a := None)\<rparr>);
              r2 = r1\<lparr>by_id := AList.update i
                     (a\<lparr>a_qualified_path := new_path, a_content_hash := new_hash, a_last_seen_rev := rv\<rparr>) (by_id r1)\<rparr>;
              r3 = r2\<lparr>by_path := (by_path r2)(new_path \<mapsto> i)\<rparr>
          in push_hash_index new_hash i r3)"

definition retire :: "durable_id \<Rightarrow> revision \<Rightarrow> identity_registry \<Rightarrow> identity_registry" where
  "retire i rv r =
     (case registry_get r i of
        None \<Rightarrow> r
      | Some a \<Rightarrow>
          if a_status a = Orphaned then r
          else
            let r1 = r\<lparr>by_id := AList.update i (a\<lparr>a_last_seen_rev := rv, a_status := Orphaned\<rparr>) (by_id r)\<rparr>
            in r1\<lparr>by_path := (by_path r1)(a_qualified_path a := None)\<rparr>)"

definition set_status :: "durable_id \<Rightarrow> identity_status \<Rightarrow> identity_registry \<Rightarrow> identity_registry" where
  "set_status i st r =
     (case registry_get r i of
        None \<Rightarrow> r
      | Some a \<Rightarrow> r\<lparr>by_id := AList.update i (a\<lparr>a_status := st\<rparr>) (by_id r)\<rparr>)"

text \<open>The debug check that the three indexes agree.\<close>

definition assert_consistent :: "identity_registry \<Rightarrow> bool" where
  "assert_consistent r \<longleftrightarrow>
     (\<forall>(i, a)\<in>set (by_id r).
        (case by_path r (a_qualified_path a) of
           Some p_id \<Rightarrow> p_id = i
         | None \<Rightarrow> a_status a = Orphaned) \<and>
        (a_status a \<noteq> Orphaned \<longrightarrow> i \<in> set (ids_by_hash r (a_content_hash a)))) \<and>
     (\<forall>path i. by_path r path = Some i \<longrightarrow>
        (\<exists>a. registry_get r i = Some a \<and> a_qualified_path a = path)) \<and>
     (\<forall>h. \<forall>i\<in>set (ids_by_hash r h). registry_get r i \<noteq> None)"

section \<open>The persisted form\<close>

datatype json =
    JNull
  | JBool bool
  | JNum int
  | JFloat str
  | JStr str
  | JArr "json list"
  | JObj "str \<Rightarrow> json option"

fun json_index :: "json \<Rightarrow> str \<Rightarrow> json" where
  "json_index (JObj m) k = (case m k of None \<Rightarrow> JNull | Some v \<Rightarrow> v)"
| "json_index _ k = JNull"

fun as_str :: "json \<Rightarrow> str option" where
  "as_str (JStr s) = Some s"
| "as_str _ = None"

fun as_u64 :: "json \<Rightarrow> nat option" where
  "as_u64 (JNum n) = (if 0 \<le> n \<and> n < 2 ^ 64 then Some (nat n) else None)"
| "as_u64 _ = None"

fun as_array :: "json \<Rightarrow> json list option" where
  "as_array (JArr xs) = Some xs"
| "as_array _ = None"

fun kind_to_str :: "symbol_kind \<Rightarrow> str" where
  "kind_to_str Module = ''module''"
| "kind_to_str Class = ''class''"
| "kind_to_str Function = ''function''"
| "kind_to_str Method = ''method''"
| "kind_to_str Constructor = ''constructor''"
| "kind_to_str Variable = ''variable''"
| "kind_to_str Constant = ''constant''"
| "kind_to_str Field = ''field''"
| "kind_to_str Parameter = ''parameter''"
| "kind_to_str Property = ''property''"
| "kind_to_str TypeParameter = ''type_parameter''"
| "kind_to_str Import = ''import''"

definition str_to_kind :: "str \<Rightarrow> symbol_kind" where
  "str_to_kind s =
     (if s = ''module'' then Module else if s = ''class'' then Class
      else if s = ''function'' then Function else if s = ''method'' then Method
      else if s = ''constructor'' then Constructor else if s = ''variable'' then Variable
      else if s = ''constant'' then Constant else if s = ''field'' then Field
      else if s = ''parameter'' then Parameter else if s = ''property'' then Property
      else if s = ''type_parameter'' then TypeParameter else if s = ''import'' then Import
      else Variable)"

fun status_to_str :: "identity_status \<Rightarrow> str" where
  "status_to_str Active = ''active''"
| "status_to_str NeedsReview = ''needs_review''"
| "status_to_str Orphaned = ''orphaned''"

definition str_to_status :: "str \<Rightarrow> identity_status" where
  "str_to_status s =
     (if s = ''needs_review'' then NeedsReview else if s = ''orphaned'' then Orphaned else Active)"

definition anchor_entry :: "anchor \<Rightarrow> json" where
  "anchor_entry a = JObj
     [''id'' \<mapsto> JStr (id_str (a_id a)),
      ''qualified_path'' \<mapsto> JStr (a_qualified_path a),
      ''content_hash'' \<mapsto> JStr (nat_to_string (unat (hash_value (a_content_hash a)))),
      ''kind'' \<mapsto> JStr (kind_to_str (a_kind a)),
      ''first_seen_rev'' \<mapsto> JNum (int (a_first_seen_rev a)),
      ''last_seen_rev'' \<mapsto> JNum (int (a_last_seen_rev a)),
      ''status'' \<mapsto> JStr (status_to_str (a_status a))]"

definition to_json_value :: "identity_registry \<Rightarrow> json" where
  "to_json_value r = JObj
     [''format_version'' \<mapsto> JNum 1,
      ''anchors'' \<mapsto> JArr (map anchor_entry (sort_key a_id (registry_iter r)))]"

definition to_bytes :: "(json \<Rightarrow> (str, 8 word list) result) \<Rightarrow> identity_registry \<Rightarrow> (str, 8 word list) result" where
  "to_bytes to_vec_pretty r = to_vec_pretty (to_json_value r)"

datatype format_error = Json str | MissingField str | UnknownVersion nat

definition parse_anchor :: "json \<Rightarrow> (format_error, anchor) result" where
  "parse_anchor entry =
     rbind (ok_or (as_str (json_index entry ''id'')) (MissingField ''id'')) (\<lambda>i.
     rbind (ok_or (as_str (json_index entry ''qualified_path'')) (MissingField ''qualified_path'')) (\<lambda>path.
     rbind (ok_or (as_str (json_index entry ''content_hash'')) (MissingField ''content_hash'')) (\<lambda>hash.
     rbind (ok_or (as_str (json_index entry ''kind'')) (MissingField ''kind'')) (\<lambda>kind.
     rbind (ok_or (as_u64 (json_index entry ''first_seen_rev'')) (MissingField ''first_seen_rev'')) (\<lambda>first.
     rbind (ok_or (as_u64 (json_index entry ''last_seen_rev'')) (MissingField ''last_seen_rev'')) (\<lambda>lst.
     let status = (case as_str (json_index entry ''status'') of None \<Rightarrow> ''active'' | Some s \<Rightarrow> s) in
     rbind (ok_or (parse_unsigned (2 ^ 128) hash) (Json (''invalid content_hash: '' @ hash))) (\<lambda>h.
     Inr \<lparr>a_id = DurableId i, a_qualified_path = path, a_content_hash = ContentHash (of_nat h),
          a_kind = str_to_kind kind, a_first_seen_rev = first, a_last_seen_rev = lst,
          a_status = str_to_status status\<rparr>)))))))"

definition from_value :: "json \<Rightarrow> (format_error, identity_registry) result" where
  "from_value root =
     rbind (ok_or (as_u64 (json_index root ''format_version'')) (MissingField ''format_version'')) (\<lambda>version.
     if version > 1 then Inl (UnknownVersion version)
     else
       rbind (ok_or (as_array (json_index root ''anchors'')) (MissingField ''anchors'')) (\<lambda>anchors.
       fold_result (\<lambda>entry registry. rbind (parse_anchor entry) (\<lambda>a. Inr (registry_insert a registry)))
         anchors registry_default))"

definition from_json :: "(str \<Rightarrow> (str, json) result) \<Rightarrow> str \<Rightarrow> (format_error, identity_registry) result" where
  "from_json from_str text =
     (case from_str text of Inl e \<Rightarrow> Inl (Json e) | Inr root \<Rightarrow> from_value root)"

definition from_bytes ::
  "(8 word list \<Rightarrow> (str, str) result) \<Rightarrow> (str \<Rightarrow> (str, json) result) \<Rightarrow> 8 word list
   \<Rightarrow> (format_error, identity_registry) result" where
  "from_bytes from_utf8 from_str bytes =
     (case from_utf8 bytes of Inl e \<Rightarrow> Inl (Json e) | Inr text \<Rightarrow> from_json from_str text)"

section \<open>Histories of a registry\<close>

inductive registry_step :: "identity_registry \<Rightarrow> identity_registry \<Rightarrow> bool" where
  step_insert: "registry_step r (registry_insert a r)"
| step_rebind: "registry_step r (rebind i p h rv r)"
| step_retire: "registry_step r (retire i rv r)"
| step_status: "registry_step r (set_status i st r)"

section \<open>Projections after each mutator\<close>

lemma registry_get_upd [registry_simps, simp]:
  "registry_get (r\<lparr>by_id := AList.update i a m\<rparr>) j = (if j = i then Some a else map_of m j)"
  "registry_get (r\<lparr>by_path := bp\<rparr>) = registry_get r"
  "registry_get (r\<lparr>by_hash := bh\<rparr>) = registry_get r"
  by (auto simp: registry_get_def update_conv' fun_eq_iff)

lemma ids_by_hash_upd [registry_simps, simp]:
  "ids_by_hash (r\<lparr>by_id := m\<rparr>) = ids_by_hash r"
  "ids_by_hash (r\<lparr>by_path := bp\<rparr>) = ids_by_hash r"
  by (simp_all add: ids_by_hash_def fun_eq_iff)

lemma remove_hash_fields [registry_simps, simp]:
  "by_id (remove_from_hash_index h i r) = by_id r"
  "by_path (remove_from_hash_index h i r) = by_path r"
  "registry_get (remove_from_hash_index h i r) = registry_get r"
  by (auto simp: remove_from_hash_index_def Let_def registry_get_def fun_eq_iff split: option.splits)

lemma remove_hash_ids [registry_simps, simp]:
  "ids_by_hash (remove_from_hash_index h i r) h' =
     (if h' = h then filter (\<lambda>x. x \<noteq> i) (ids_by_hash r h) else ids_by_hash r h')"
  by (auto simp: remove_from_hash_index_def Let_def ids_by_hash_def split: option.splits)

lemma remove_hash_nonempty:
  "(\<forall>h. by_hash r h \<noteq> Some []) \<Longrightarrow> by_hash (remove_from_hash_index h i r) h' \<noteq> Some []"
  by (auto simp: remove_from_hash_index_def Let_def split: option.splits)

lemma push_hash_fields [registry_simps, simp]:
  "by_id (push_hash_index h i r) = by_id r"
  "by_path (push_hash_index h i r) = by_path r"
  "registry_get (push_hash_index h i r) = registry_get r"
  "ids_by_hash (push_hash_index h i r) h' = (if h' = h then ids_by_hash r h @ [i] else ids_by_hash r h')"
  by (auto simp: push_hash_index_def registry_get_def ids_by_hash_def fun_eq_iff)

lemma registry_get_insert [registry_simps]:
  "registry_get (registry_insert a r) = (registry_get r)(a_id a \<mapsto> a)"
  by (auto simp: registry_insert_def Let_def fun_eq_iff registry_get_def [symmetric] split: option.splits)

lemma registry_get_rebind [registry_simps]:
  "registry_get (rebind i p h rv r) =
     (case registry_get r i of
        None \<Rightarrow> registry_get r
      | Some a \<Rightarrow> (registry_get r)
          (i \<mapsto> a\<lparr>a_qualified_path := p, a_content_hash := h, a_last_seen_rev := rv\<rparr>))"
  by (auto simp: rebind_def Let_def fun_eq_iff registry_get_def [symmetric] split: option.splits)

lemma registry_get_retire [registry_simps]:
  "registry_get (retire i rv r) =
     (case registry_get r i of
        None \<Rightarrow> registry_get r
      | Some a \<Rightarrow> if a_status a = Orphaned then registry_get r
                  else (registry_get r)(i \<mapsto> a\<lparr>a_last_seen_rev := rv, a_status := Orphaned\<rparr>))"
  by (auto simp: retire_def Let_def fun_eq_iff registry_get_def [symmetric] split: option.splits)

lemma registry_get_set_status [registry_simps]:
  "registry_get (set_status i st r) =
     (case registry_get r i of
        None \<Rightarrow> registry_get r
      | Some a \<Rightarrow> (registry_get r)(i \<mapsto> a\<lparr>a_status := st\<rparr>))"
  by (auto simp: set_status_def fun_eq_iff registry_get_def [symmetric] split: option.splits)

section \<open>Index soundness\<close>

text \<open>
  The invariant every mutator keeps: ids key their own anchor, a path index entry names an
  anchor that carries that path, and the hash index lists exactly the ids (orphans included)
  whose anchor carries that hash, once each.
\<close>

definition hash_index_exact :: "identity_registry \<Rightarrow> bool" where
  "hash_index_exact r \<longleftrightarrow>
     (\<forall>h. distinct (ids_by_hash r h) \<and>
        (\<forall>i. i \<in> set (ids_by_hash r h) \<longleftrightarrow> (\<exists>a. registry_get r i = Some a \<and> a_content_hash a = h)))"

definition path_index_sound :: "identity_registry \<Rightarrow> bool" where
  "path_index_sound r \<longleftrightarrow>
     (\<forall>p i. by_path r p = Some i \<longrightarrow> (\<exists>a. registry_get r i = Some a \<and> a_qualified_path a = p))"

definition index_sound :: "identity_registry \<Rightarrow> bool" where
  "index_sound r \<longleftrightarrow>
     hm_inv (by_id r) \<and> (\<forall>i a. registry_get r i = Some a \<longrightarrow> a_id a = i) \<and>
     path_index_sound r \<and> hash_index_exact r"

lemma index_soundI:
  "hm_inv (by_id r) \<Longrightarrow> (\<And>i a. registry_get r i = Some a \<Longrightarrow> a_id a = i) \<Longrightarrow>
   path_index_sound r \<Longrightarrow> hash_index_exact r \<Longrightarrow> index_sound r"
  by (simp add: index_sound_def)

lemma index_soundD:
  assumes "index_sound r"
  shows "hm_inv (by_id r)"
    and "registry_get r i = Some a \<Longrightarrow> a_id a = i"
    and "by_path r p = Some i \<Longrightarrow> \<exists>a. registry_get r i = Some a \<and> a_qualified_path a = p"
    and "i \<in> set (ids_by_hash r h) \<longleftrightarrow> (\<exists>a. registry_get r i = Some a \<and> a_content_hash a = h)"
    and "distinct (ids_by_hash r h)"
  using assms by (auto simp: index_sound_def path_index_sound_def hash_index_exact_def)

lemma index_sound_default: "index_sound registry_default"
  by (auto simp: index_sound_def path_index_sound_def hash_index_exact_def registry_default_def
      registry_get_def ids_by_hash_def hm.inv_empty)

lemma index_sound_insert:
  assumes "index_sound r"
  shows "index_sound (registry_insert a r)"
proof (rule index_soundI)
  note s = index_soundD [OF assms]
  show "hm_inv (by_id (registry_insert a r))"
    using s(1) by (auto simp: registry_insert_def Let_def hm.inv_ins split: option.splits)
  show "registry_get (registry_insert a r) i = Some b \<Longrightarrow> a_id b = i" for i b
    using s(2) by (auto simp: registry_get_insert split: if_splits)
  show "path_index_sound (registry_insert a r)"
    using s(3) unfolding path_index_sound_def registry_get_insert
    by (fastforce simp: registry_insert_def Let_def split: option.splits if_splits)
  show "hash_index_exact (registry_insert a r)"
    using s(4,5) unfolding hash_index_exact_def registry_get_insert
    by (auto simp: registry_insert_def Let_def split: option.splits)
qed

lemma index_sound_rebind:
  assumes "index_sound r"
  shows "index_sound (rebind i p h rv r)"
proof (cases "registry_get r i")
  case None
  then show ?thesis using assms by (simp add: rebind_def)
next
  case (Some a)
  note s = index_soundD [OF assms]
  show ?thesis
  proof (rule index_soundI)
    show "hm_inv (by_id (rebind i p h rv r))"
      using s(1) Some by (simp add: rebind_def Let_def hm.inv_ins)
    show "registry_get (rebind i p h rv r) j = Some b \<Longrightarrow> a_id b = j" for j b
      using s(2) Some by (auto simp: registry_get_rebind split: if_splits)
    show "path_index_sound (rebind i p h rv r)"
      using s(3) Some unfolding path_index_sound_def registry_get_rebind
      by (fastforce simp: rebind_def Let_def split: if_splits)
    show "hash_index_exact (rebind i p h rv r)"
      using s(4,5) Some unfolding hash_index_exact_def registry_get_rebind
      by (auto simp: rebind_def Let_def)
  qed
qed

lemma index_sound_retire:
  assumes "index_sound r"
  shows "index_sound (retire i rv r)"
proof (cases "registry_get r i")
  case None
  then show ?thesis using assms by (simp add: retire_def)
next
  case (Some a)
  note s = index_soundD [OF assms]
  show ?thesis
  proof (rule index_soundI)
    show "hm_inv (by_id (retire i rv r))"
      using s(1) Some by (simp add: retire_def Let_def hm.inv_ins)
    show "registry_get (retire i rv r) j = Some b \<Longrightarrow> a_id b = j" for j b
      using s(2) Some by (auto simp: registry_get_retire split: if_splits)
    show "path_index_sound (retire i rv r)"
      using s(3) Some unfolding path_index_sound_def registry_get_retire
      by (fastforce simp: retire_def Let_def split: if_splits)
    show "hash_index_exact (retire i rv r)"
      using s(4,5) Some unfolding hash_index_exact_def registry_get_retire
      by (auto simp: retire_def Let_def)
  qed
qed

lemma index_sound_set_status:
  assumes "index_sound r"
  shows "index_sound (set_status i st r)"
proof (cases "registry_get r i")
  case None
  then show ?thesis using assms by (simp add: set_status_def)
next
  case (Some a)
  note s = index_soundD [OF assms]
  show ?thesis
  proof (rule index_soundI)
    show "hm_inv (by_id (set_status i st r))"
      using s(1) Some by (simp add: set_status_def hm.inv_ins)
    show "registry_get (set_status i st r) j = Some b \<Longrightarrow> a_id b = j" for j b
      using s(2) Some by (auto simp: registry_get_set_status split: if_splits)
    show "path_index_sound (set_status i st r)"
      using s(3) Some unfolding path_index_sound_def registry_get_set_status
      by (fastforce simp: set_status_def split: if_splits)
    show "hash_index_exact (set_status i st r)"
      using s(4,5) Some unfolding hash_index_exact_def registry_get_set_status
      by (auto simp: set_status_def)
  qed
qed

section \<open>The contract of a mutator\<close>

text \<open>
  What the clients of the registry (loading and reconciliation) rely on: a mutator keeps the
  indexes sound and never forgets an id.
\<close>

locale registry_mutator =
  fixes change :: "'x \<Rightarrow> identity_registry \<Rightarrow> identity_registry"
  assumes change_sound: "index_sound r \<Longrightarrow> index_sound (change x r)"
    and change_durable: "registry_get r i \<noteq> None \<Longrightarrow> registry_get (change x r) i \<noteq> None"
begin

lemma fold_sound: "index_sound r \<Longrightarrow> index_sound (fold change xs r)"
  by (induction xs arbitrary: r) (auto intro: change_sound)

lemma fold_durable: "registry_get r i \<noteq> None \<Longrightarrow> registry_get (fold change xs r) i \<noteq> None"
  by (induction xs arbitrary: r) (simp_all add: change_durable del: not_None_eq)

end

interpretation reg_insert: registry_mutator registry_insert
  by unfold_locales (simp_all add: index_sound_insert registry_get_insert)

interpretation reg_rebind: registry_mutator "\<lambda>(i, p, h, rv). rebind i p h rv"
  by unfold_locales (auto simp: index_sound_rebind registry_get_rebind split: option.splits)

interpretation reg_retire: registry_mutator "\<lambda>(i, rv). retire i rv"
  by unfold_locales (auto simp: index_sound_retire registry_get_retire split: option.splits)

interpretation reg_status: registry_mutator "\<lambda>(i, st). set_status i st"
  by unfold_locales (auto simp: index_sound_set_status registry_get_set_status split: option.splits)

section \<open>Reading back what was written\<close>

lemma str_to_kind_to_str: "str_to_kind (kind_to_str k) = k"
  by (cases k) (simp_all add: str_to_kind_def)

lemma str_to_status_to_str: "str_to_status (status_to_str st) = st"
  by (cases st) (simp_all add: str_to_status_def)

definition revisions_fit :: "anchor \<Rightarrow> bool" where
  "revisions_fit a \<longleftrightarrow> a_first_seen_rev a < 2 ^ 64 \<and> a_last_seen_rev a < 2 ^ 64"

lemma parse_anchor_entry: "revisions_fit a \<Longrightarrow> parse_anchor (anchor_entry a) = Inr a"
proof -
  have u: "parse_unsigned (2 ^ 128) (nat_to_string (unat (hash_value (a_content_hash a)))) =
      Some (unat (hash_value (a_content_hash a)))"
    using unsigned_less [of "hash_value (a_content_hash a)"]
    by (intro parse_unsigned_nat_to_string) simp
  assume "revisions_fit a"
  then have "as_u64 (JNum (int (a_first_seen_rev a))) = Some (a_first_seen_rev a)"
    "as_u64 (JNum (int (a_last_seen_rev a))) = Some (a_last_seen_rev a)"
    by (simp_all add: revisions_fit_def)
  then show ?thesis
    by (simp add: parse_anchor_def anchor_entry_def u str_to_kind_to_str str_to_status_to_str
        del: as_u64.simps power_numeral)
qed

lemma anchors_of_registry:
  assumes "index_sound r"
  defines "L \<equiv> sort_key a_id (registry_iter r)"
  shows "sorted_wrt (<) (map a_id L)"
    and "a \<in> set L \<longleftrightarrow> registry_get r (a_id a) = Some a"
proof -
  note s = index_soundD [OF assms(1)]
  have d: "distinct (map fst (by_id r))" using s(1) by (simp add: hm_inv_def)
  have e: "(i, b) \<in> set (by_id r) \<longleftrightarrow> registry_get r i = Some b" for i b
    using d by (auto simp: registry_get_def)
  have ids: "map a_id (registry_iter r) = map fst (by_id r)"
    using s(2) e by (auto simp: registry_iter_def)
  have "distinct (map a_id (registry_iter r))" using ids d by simp
  then have "distinct (map a_id L)" by (simp add: L_def distinct_map)
  then show "sorted_wrt (<) (map a_id L)" by (simp add: L_def strict_sorted_iff)
  show "a \<in> set L \<longleftrightarrow> registry_get r (a_id a) = Some a"
  proof -
    have "a \<in> set L \<longleftrightarrow> (\<exists>i. (i, a) \<in> set (by_id r))"
      by (auto simp: L_def registry_iter_def intro: rev_image_eqI)
    then show ?thesis using e s(2) by auto
  qed
qed

lemma fold_insert_get:
  "distinct (map a_id L) \<Longrightarrow>
     registry_get (fold registry_insert L r) i =
       (case find (\<lambda>a. a_id a = i) L of Some a \<Rightarrow> Some a | None \<Rightarrow> registry_get r i)"
proof (induction L arbitrary: r)
  case (Cons a L)
  then have "find (\<lambda>b. a_id b = a_id a) L = None" by (auto simp: find_None_iff image_iff)
  with Cons show ?case by (auto simp: registry_get_insert split: option.splits)
qed simp

lemma insert_new_by_path:
  "registry_get r (a_id a) = None \<Longrightarrow>
     by_path (registry_insert a r) = (by_path r)(a_qualified_path a \<mapsto> a_id a)"
  by (simp add: registry_insert_def Let_def)

lemma fold_insert_by_path:
  assumes "sorted_wrt (<) (map a_id L)"
  shows "by_path (fold registry_insert L registry_default) p =
    (if \<exists>a\<in>set L. a_qualified_path a = p
     then Some (Max (a_id ` {a \<in> set L. a_qualified_path a = p})) else None)"
  using assms
proof (induction L rule: rev_induct)
  case Nil
  then show ?case by (simp add: registry_default_def)
next
  case (snoc a L)
  let ?r = "fold registry_insert L registry_default"
  let ?S = "a_id ` {b \<in> set L. a_qualified_path b = p}"
  have less: "\<forall>b\<in>set L. a_id b < a_id a" and srt: "sorted_wrt (<) (map a_id L)"
    using snoc.prems by (auto simp: sorted_wrt_append)
  have "find (\<lambda>b. a_id b = a_id a) L = None" using less by (auto simp: find_None_iff)
  then have "registry_get ?r (a_id a) = None"
    using srt by (simp add: fold_insert_get strict_sorted_iff) (simp add: registry_default_def registry_get_def)
  then have bp: "by_path (registry_insert a ?r) = (by_path ?r)(a_qualified_path a \<mapsto> a_id a)"
    by (rule insert_new_by_path)
  show ?case
  proof (cases "a_qualified_path a = p")
    case True
    then have "a_id ` {b \<in> set (L @ [a]). a_qualified_path b = p} = insert (a_id a) ?S" by auto
    moreover have "Max (insert (a_id a) ?S) = a_id a"
      using less by (intro Max_eqI) (auto intro: less_imp_le)
    ultimately show ?thesis using True bp by auto
  next
    case False
    then have "{b \<in> set (L @ [a]). a_qualified_path b = p} = {b \<in> set L. a_qualified_path b = p}" by auto
    with False bp snoc.IH [OF srt] show ?thesis by auto
  qed
qed

lemma from_value_to_json:
  assumes "index_sound r" "\<forall>i a. registry_get r i = Some a \<longrightarrow> revisions_fit a"
  shows "from_value (to_json_value r) =
    Inr (fold registry_insert (sort_key a_id (registry_iter r)) registry_default)"
proof -
  let ?L = "sort_key a_id (registry_iter r)"
  have "parse_anchor (anchor_entry a) = Inr a" if "a \<in> set ?L" for a
    using that assms(2) anchors_of_registry(2) [OF assms(1), of a] parse_anchor_entry by auto
  then have "fold_result (\<lambda>entry registry. rbind (parse_anchor entry) (\<lambda>a. Inr (registry_insert a registry)))
      (map anchor_entry M) r0 = Inr (fold registry_insert M r0)" if "set M \<subseteq> set ?L" for M r0
    using that by (induction M arbitrary: r0) auto
  then show ?thesis by (simp add: from_value_def to_json_value_def)
qed

lemma reload_get:
  assumes "index_sound r"
  shows "registry_get (fold registry_insert (sort_key a_id (registry_iter r)) registry_default) = registry_get r"
    (is "registry_get ?r' = _")
proof
  fix i
  note L = anchors_of_registry [OF assms] and s = index_soundD [OF assms]
  have new: "registry_get ?r' i = (case find (\<lambda>a. a_id a = i) (sort_key a_id (registry_iter r)) of
      Some a \<Rightarrow> Some a | None \<Rightarrow> None)"
    using L(1) by (simp add: fold_insert_get strict_sorted_iff)
      (simp add: registry_default_def registry_get_def cong: option.case_cong)
  show "registry_get ?r' i = registry_get r i"
  proof (cases "find (\<lambda>a. a_id a = i) (sort_key a_id (registry_iter r))")
    case None
    have "registry_get r i \<noteq> Some a" for a
    proof
      assume a: "registry_get r i = Some a"
      with s(2) have "a_id a = i" by blast
      with a L(2) [of a] None show False by (simp add: find_None_iff)
    qed
    then have "registry_get r i = None" by (cases "registry_get r i") blast+
    with None new show ?thesis by simp
  next
    case (Some a)
    then have "a \<in> set (sort_key a_id (registry_iter r))" "a_id a = i"
      using find_SomeD_mem [OF Some] by simp_all
    with Some new L(2) [of a] show ?thesis by simp
  qed
qed

lemma ids_of_path:
  assumes "index_sound r"
  shows "a_id ` {a \<in> set (sort_key a_id (registry_iter r)). a_qualified_path a = p} =
      {i. \<exists>a. registry_get r i = Some a \<and> a_qualified_path a = p}"
proof -
  have "{a \<in> set (sort_key a_id (registry_iter r)). a_qualified_path a = p} =
      {a. registry_get r (a_id a) = Some a \<and> a_qualified_path a = p}"
    using anchors_of_registry(2) [OF assms] by blast
  moreover have "i \<in> a_id ` {a. registry_get r (a_id a) = Some a \<and> a_qualified_path a = p} \<longleftrightarrow>
      (\<exists>a. registry_get r i = Some a \<and> a_qualified_path a = p)" for i
  proof
    assume "\<exists>a. registry_get r i = Some a \<and> a_qualified_path a = p"
    then obtain a where a: "registry_get r i = Some a" "a_qualified_path a = p" by blast
    then have "i = a_id a" using index_soundD(2) [OF assms] by blast
    with a show "i \<in> a_id ` {a. registry_get r (a_id a) = Some a \<and> a_qualified_path a = p}" by blast
  qed blast
  ultimately show ?thesis by blast
qed

lemma registry_step_contract:
  "registry_step r r' \<Longrightarrow> index_sound r \<Longrightarrow>
     index_sound r' \<and> (\<forall>i. registry_get r i \<noteq> None \<longrightarrow> registry_get r' i \<noteq> None)"
proof (induction rule: registry_step.induct)
  case (step_insert r a)
  then show ?case using reg_insert.change_sound reg_insert.change_durable by blast
next
  case (step_rebind r i p h rv)
  then show ?case
    using reg_rebind.change_sound [of r "(i, p, h, rv)"] reg_rebind.change_durable [of r _ "(i, p, h, rv)"]
    by simp
next
  case (step_retire r i rv)
  then show ?case
    using reg_retire.change_sound [of r "(i, rv)"] reg_retire.change_durable [of r _ "(i, rv)"] by simp
next
  case (step_status r i st)
  then show ?case
    using reg_status.change_sound [of r "(i, st)"] reg_status.change_durable [of r _ "(i, st)"] by simp
qed

section \<open>Properties\<close>

text \<open>
  C27. The registry's indexes stay sound and its ids durable: whatever sequence of inserts,
  rebinds, retirements and status changes is applied to a sound registry, every path entry
  still names an anchor with that path, the hash index still lists exactly the ids whose
  anchor carries the hash, and no id is ever forgotten.
\<close>

theorem registry_mutators_sound:
  assumes "registry_step\<^sup>*\<^sup>* r r'" "index_sound r"
  shows "index_sound r' \<and> (\<forall>i. registry_get r i \<noteq> None \<longrightarrow> registry_get r' i \<noteq> None)"
  using assms
proof (induction rule: rtranclp_induct)
  case base
  then show ?case by blast
next
  case (step r1 r2)
  then show ?case using registry_step_contract [of r1 r2] by blast
qed

theorem registry_mutators_sound_witness:
  "index_sound (retire (DurableId ''A'') 2 (registry_insert
     \<lparr>a_id = DurableId ''A'', a_qualified_path = ''m.py::f'', a_content_hash = ContentHash 7,
      a_kind = Function, a_first_seen_rev = 1, a_last_seen_rev = 1, a_status = Active\<rparr> registry_default))"
proof -
  let ?a = "\<lparr>a_id = DurableId ''A'', a_qualified_path = ''m.py::f'', a_content_hash = ContentHash 7,
      a_kind = Function, a_first_seen_rev = 1, a_last_seen_rev = 1, a_status = Active\<rparr>"
  have "registry_step\<^sup>*\<^sup>* registry_default (retire (DurableId ''A'') 2 (registry_insert ?a registry_default))"
    by (meson registry_step.intros r_into_rtranclp rtranclp.rtrancl_into_rtrancl)
  from registry_mutators_sound [OF this index_sound_default] show ?thesis by blast
qed

text \<open>
  C33. A registry survives its file: reading back the bytes written for a sound registry
  succeeds and gives a sound registry with the same anchors under the same ids and the same
  hash index.  The path index is rebuilt from all anchors, orphans included, and names the
  greatest id of each path.
\<close>

theorem registry_roundtrip:
  assumes "index_sound r" "\<forall>i a. registry_get r i = Some a \<longrightarrow> revisions_fit a"
    and "\<forall>j b. to_vec_pretty j = Inr b \<longrightarrow> (\<exists>t. from_utf8 b = Inr t \<and> from_str t = Inr j)"
    and "to_bytes to_vec_pretty r = Inr bytes"
  shows "\<exists>r'. from_bytes from_utf8 from_str bytes = Inr r' \<and> index_sound r' \<and>
    registry_get r' = registry_get r \<and>
    (\<forall>h. set (ids_by_hash r' h) = set (ids_by_hash r h)) \<and>
    (\<forall>p. by_path r' p =
       (let ids = {i. \<exists>a. registry_get r i = Some a \<and> a_qualified_path a = p}
        in if ids = {} then None else Some (Max ids)))"
proof -
  let ?L = "sort_key a_id (registry_iter r)"
  let ?r' = "fold registry_insert ?L registry_default"
  note L = anchors_of_registry [OF assms(1)] and s = index_soundD [OF assms(1)]
  have load: "from_bytes from_utf8 from_str bytes = Inr ?r'"
    using assms(3,4) from_value_to_json [OF assms(1,2)]
    by (force simp: from_bytes_def from_json_def to_bytes_def)
  have sound: "index_sound ?r'" by (rule reg_insert.fold_sound [OF index_sound_default])
  have gets: "registry_get ?r' = registry_get r" by (rule reload_get [OF assms(1)])
  have hash: "set (ids_by_hash ?r' h) = set (ids_by_hash r h)" for h
    using index_soundD(4) [OF sound] s(4) by (auto simp: gets)
  note ids = ids_of_path [OF assms(1)]
  have "by_path ?r' p = (let ids = {i. \<exists>a. registry_get r i = Some a \<and> a_qualified_path a = p}
      in if ids = {} then None else Some (Max ids))" for p
    unfolding fold_insert_by_path [OF L(1)] ids [symmetric] by (auto simp: Let_def)
  then show ?thesis using load sound gets hash by blast
qed

theorem registry_roundtrip_witness:
  "\<exists>codec utf8 parse bytes r'. let
     r = retire (DurableId ''A'') 2 (registry_insert
       \<lparr>a_id = DurableId ''A'', a_qualified_path = ''m.py::f'', a_content_hash = ContentHash 7,
        a_kind = Function, a_first_seen_rev = 1, a_last_seen_rev = 1, a_status = Active\<rparr> registry_default)
   in to_bytes codec r = Inr bytes \<and> from_bytes utf8 parse bytes = Inr r' \<and>
      status_of r' (DurableId ''A'') = Some Orphaned \<and>
      by_path r ''m.py::f'' = None \<and> by_path r' ''m.py::f'' = Some (DurableId ''A'')"
proof -
  define a where "a = \<lparr>a_id = DurableId ''A'', a_qualified_path = ''m.py::f'', a_content_hash = ContentHash 7,
      a_kind = Function, a_first_seen_rev = 1, a_last_seen_rev = 1, a_status = Active\<rparr>"
  define r where "r = retire (DurableId ''A'') 2 (registry_insert a registry_default)"
  let ?codec = "\<lambda>j. if j = to_json_value r then Inr [] else Inl ''unsupported''"
  let ?utf8 = "\<lambda>b :: 8 word list. Inr [] :: (str, str) result"
  let ?parse = "\<lambda>t :: str. Inr (to_json_value r) :: (str, json) result"
  have get: "registry_get r i = (if i = DurableId ''A'' then Some (a\<lparr>a_last_seen_rev := 2, a_status := Orphaned\<rparr>) else None)" for i
    by (simp add: r_def registry_get_retire registry_get_insert a_def)
      (simp add: registry_get_def registry_default_def)
  have snd: "index_sound r"
    unfolding r_def by (intro index_sound_retire index_sound_insert index_sound_default)
  have fit: "\<forall>i b. registry_get r i = Some b \<longrightarrow> revisions_fit b"
    by (auto simp: get revisions_fit_def a_def)
  have codec: "\<forall>j b. ?codec j = Inr b \<longrightarrow> (\<exists>t. ?utf8 b = Inr t \<and> ?parse t = Inr j)" by simp
  have bytes: "to_bytes ?codec r = Inr []" by (simp add: to_bytes_def)
  from registry_roundtrip [OF snd fit codec bytes] obtain r' where
    r': "from_bytes ?utf8 ?parse [] = Inr r'" "registry_get r' = registry_get r"
    "by_path r' ''m.py::f'' = (let ids = {i. \<exists>b. registry_get r i = Some b \<and> a_qualified_path b = ''m.py::f''}
        in if ids = {} then None else Some (Max ids))" by blast
  have "{i. \<exists>b. registry_get r i = Some b \<and> a_qualified_path b = ''m.py::f''} = {DurableId ''A''}"
    by (auto simp: get a_def split: if_splits)
  then have p': "by_path r' ''m.py::f'' = Some (DurableId ''A'')" using r'(3) by simp
  have p: "by_path r ''m.py::f'' = None"
    by (simp add: r_def retire_def registry_get_insert a_def Let_def)
  have st: "status_of r' (DurableId ''A'') = Some Orphaned"
    by (simp add: status_of_def r'(2) get)
  show ?thesis
    unfolding a_def [symmetric] r_def [symmetric] Let_def
    by (intro exI [of _ ?codec] exI [of _ ?utf8] exI [of _ ?parse] exI [of _ "[]"] exI [of _ r'])
      (simp add: bytes r'(1) st p p')
qed

end
