(* ===== verification/Authored.thy ===== *)
theory Authored
  imports Registry Config Paths
begin

text \<open>
  Authored records: the in-memory store of \<open>rust/src/authored.rs\<close>, its disk document with the
  hexadecimal hash adapter, loading at open (\<open>rust/src/project/open.rs\<close>), the derived review
  status (\<open>rust/src/project/commit.rs\<close>) and the snapshot reads (\<open>rust/src/project/snapshot.rs\<close>).

  The decoder of a record file is a parameter \<open>decode\<close>; a directory listing gives, for each
  entry, its path, whether it is a file, and its bytes when they can be read.
\<close>

section \<open>The store\<close>

record authored_version =
  av_value :: json
  av_revision :: nat
  av_reviewed_hash :: "content_hash option"

record authored_record =
  ar_current :: authored_version
  ar_history :: "authored_version list"

type_synonym authored_map = "(str \<times> str, authored_record) hash_map"

definition authored_put ::
  "str \<Rightarrow> str \<Rightarrow> authored_version \<Rightarrow> bool \<Rightarrow> authored_map \<Rightarrow> authored_map" where
  "authored_put layer i version keep_history m =
     (let history = (case map_of m (layer, i) of
                       Some prev \<Rightarrow> if keep_history then ar_history prev @ [ar_current prev] else []
                     | None \<Rightarrow> [])
      in AList.update (layer, i) \<lparr>ar_current = version, ar_history = history\<rparr> m)"

definition authored_value :: "authored_map \<Rightarrow> str \<Rightarrow> str \<Rightarrow> authored_version option" where
  "authored_value m layer i = map_option ar_current (map_of m (layer, i))"

definition value_at :: "authored_map \<Rightarrow> str \<Rightarrow> str \<Rightarrow> nat \<Rightarrow> authored_version option" where
  "value_at m layer i at =
     (case map_of m (layer, i) of
        None \<Rightarrow> None
      | Some rec \<Rightarrow>
          if av_revision (ar_current rec) \<le> at then Some (ar_current rec)
          else find (\<lambda>v. av_revision v \<le> at) (rev (ar_history rec)))"

definition records_get :: "authored_map \<Rightarrow> str \<Rightarrow> str \<Rightarrow> authored_record option" where
  "records_get m layer i = map_of m (layer, i)"

definition ids_in_layer :: "authored_map \<Rightarrow> str \<Rightarrow> str list" where
  "ids_in_layer m layer = map snd (filter (\<lambda>(l, _). l = layer) (map fst m))"

section \<open>The disk document\<close>

definition hex_char :: "nat \<Rightarrow> char" where
  "hex_char d = (if d < 10 then char_of (48 + d) else char_of (87 + d))"

definition hex_value :: "char \<Rightarrow> nat option" where
  "hex_value c =
     (let n = of_char c :: nat in
      if 48 \<le> n \<and> n \<le> 57 then Some (n - 48)
      else if 97 \<le> n \<and> n \<le> 102 then Some (n - 87)
      else if 65 \<le> n \<and> n \<le> 70 then Some (n - 55)
      else None)"

fun hex_fixed :: "nat \<Rightarrow> nat \<Rightarrow> str" where
  "hex_fixed 0 n = []"
| "hex_fixed (Suc k) n = hex_fixed k (n div 16) @ [hex_char (n mod 16)]"

definition hash_to_hex :: "content_hash \<Rightarrow> str" where
  "hash_to_hex h = hex_fixed 32 (unat (hash_value h))"

fun parse_hex_digits :: "nat \<Rightarrow> nat \<Rightarrow> str \<Rightarrow> nat option" where
  "parse_hex_digits bound acc [] = Some acc"
| "parse_hex_digits bound acc (c # cs) =
     (case hex_value c of
        None \<Rightarrow> None
      | Some d \<Rightarrow> let n = acc * 16 + d in if n < bound then parse_hex_digits bound n cs else None)"

definition hash_from_hex :: "str \<Rightarrow> content_hash option" where
  "hash_from_hex s =
     (let digits = (case s of c # cs \<Rightarrow> if c = CHR ''+'' then cs else s | [] \<Rightarrow> s)
      in if digits = [] then None
         else map_option (\<lambda>n. ContentHash (of_nat n)) (parse_hex_digits (2 ^ 128) 0 digits))"

record authored_doc =
  ad_format_version :: nat
  ad_layer :: str
  ad_durable_id :: str
  ad_current :: authored_version
  ad_history :: "authored_version list"

definition authored_format_version :: nat where
  "authored_format_version = 2"

datatype authored_load_error = AuthoredJson str | AuthoredUnknownVersion nat

definition doc_from_bytes ::
  "(8 word list \<Rightarrow> (str, authored_doc) result) \<Rightarrow> 8 word list \<Rightarrow> (authored_load_error, authored_doc) result" where
  "doc_from_bytes decode bytes =
     (case decode bytes of
        Inl e \<Rightarrow> Inl (AuthoredJson e)
      | Inr doc \<Rightarrow>
          if ad_format_version doc > authored_format_version
          then Inl (AuthoredUnknownVersion (ad_format_version doc))
          else Inr doc)"

definition doc_to_bytes ::
  "(authored_doc \<Rightarrow> (str, 8 word list) result) \<Rightarrow> authored_doc \<Rightarrow> (str, 8 word list) result" where
  "doc_to_bytes encode doc = rbind (encode doc) (\<lambda>buf. Inr (buf @ [10]))"

text \<open>
  The document as it is written out: the reviewed hash passes through the hexadecimal adapter, the
  rest is kept.  The text of such a document is the JSON codec's, a parameter: the code's own
  \<open>encode\<close> and \<open>decode\<close> are \<open>serialize_doc\<close> and \<open>deserialize_doc\<close> of a codec.
\<close>

record wire_version =
  wv_value :: json
  wv_revision :: nat
  wv_reviewed_hash :: "str option"

record wire_doc =
  wd_format_version :: nat
  wd_layer :: str
  wd_durable_id :: str
  wd_current :: wire_version
  wd_history :: "wire_version list"

definition version_to_wire :: "authored_version \<Rightarrow> wire_version" where
  "version_to_wire v =
     \<lparr>wv_value = av_value v, wv_revision = av_revision v, wv_reviewed_hash = map_option hash_to_hex (av_reviewed_hash v)\<rparr>"

definition version_from_wire :: "wire_version \<Rightarrow> (str, authored_version) result" where
  "version_from_wire v =
     (case wv_reviewed_hash v of
        None \<Rightarrow> Inr \<lparr>av_value = wv_value v, av_revision = wv_revision v, av_reviewed_hash = None\<rparr>
      | Some s \<Rightarrow>
          (case hash_from_hex s of
             None \<Rightarrow> Inl ''reviewed_hash''
           | Some h \<Rightarrow> Inr \<lparr>av_value = wv_value v, av_revision = wv_revision v, av_reviewed_hash = Some h\<rparr>))"

definition doc_to_wire :: "authored_doc \<Rightarrow> wire_doc" where
  "doc_to_wire doc =
     \<lparr>wd_format_version = ad_format_version doc, wd_layer = ad_layer doc, wd_durable_id = ad_durable_id doc,
      wd_current = version_to_wire (ad_current doc), wd_history = map version_to_wire (ad_history doc)\<rparr>"

definition doc_from_wire :: "wire_doc \<Rightarrow> (str, authored_doc) result" where
  "doc_from_wire w =
     rbind (version_from_wire (wd_current w)) (\<lambda>current.
     rbind (fold_result (\<lambda>v vs. rbind (version_from_wire v) (\<lambda>x. Inr (vs @ [x]))) (wd_history w) []) (\<lambda>history.
       Inr \<lparr>ad_format_version = wd_format_version w, ad_layer = wd_layer w, ad_durable_id = wd_durable_id w,
         ad_current = current, ad_history = history\<rparr>))"

definition serialize_doc :: "(wire_doc \<Rightarrow> (str, 8 word list) result) \<Rightarrow> authored_doc \<Rightarrow> (str, 8 word list) result" where
  "serialize_doc enc doc = enc (doc_to_wire doc)"

definition deserialize_doc :: "(8 word list \<Rightarrow> (str, wire_doc) result) \<Rightarrow> 8 word list \<Rightarrow> (str, authored_doc) result" where
  "deserialize_doc dec bytes = rbind (dec bytes) doc_from_wire"

section \<open>Loading at open\<close>

record record_file =
  rf_path :: path
  rf_is_file :: bool
  rf_bytes :: "8 word list option"

definition load_doc :: "bool \<Rightarrow> authored_doc \<Rightarrow> authored_map \<Rightarrow> authored_map" where
  "load_doc history doc m =
     (let m1 = (if history
                then fold (\<lambda>v. authored_put (ad_layer doc) (ad_durable_id doc) v history) (ad_history doc) m
                else m)
      in authored_put (ad_layer doc) (ad_durable_id doc) (ad_current doc) history m1)"

definition load_record_file ::
  "(8 word list \<Rightarrow> (str, authored_doc) result) \<Rightarrow> bool \<Rightarrow> record_file \<Rightarrow> authored_map
   \<Rightarrow> (authored_load_error, authored_map) result" where
  "load_record_file decode history f m =
     (if \<not> rf_is_file f then Inr m
      else if file_name (rf_path f) = None then Inr m
      else if extension (rf_path f) \<noteq> Some ''json'' then Inr m
      else
        (case rf_bytes f of
           None \<Rightarrow> Inr m
         | Some bytes \<Rightarrow> rbind (doc_from_bytes decode bytes) (\<lambda>doc. Inr (load_doc history doc m))))"

definition load_layer ::
  "(8 word list \<Rightarrow> (str, authored_doc) result) \<Rightarrow> (str \<Rightarrow> record_file list option) \<Rightarrow> validated_config \<Rightarrow> str \<Rightarrow> authored_map
   \<Rightarrow> (authored_load_error, authored_map) result" where
  "load_layer decode authored_dir cfg name m =
     (case map_of (layers (vc_raw cfg)) name of
        None \<Rightarrow> Inr m
      | Some layer \<Rightarrow>
          if l_origin layer \<noteq> Authored then Inr m
          else
            (case authored_dir name of
               None \<Rightarrow> Inr m
             | Some files \<Rightarrow> fold_result (load_record_file decode (l_history layer)) files m))"

definition load_authored_records ::
  "(8 word list \<Rightarrow> (str, authored_doc) result) \<Rightarrow> (str \<Rightarrow> record_file list option) \<Rightarrow> validated_config
   \<Rightarrow> (authored_load_error, authored_map) result" where
  "load_authored_records decode authored_dir cfg = fold_result (load_layer decode authored_dir cfg) (vc_topo_order cfg) []"

section \<open>Status\<close>

definition derive_authored_status ::
  "validated_config \<Rightarrow> identity_registry \<Rightarrow> str \<Rightarrow> str \<Rightarrow> content_hash option \<Rightarrow> str" where
  "derive_authored_status cfg registry layer i reviewed_hash =
     (let review_on_change =
        (case map_of (layers (vc_raw cfg)) layer of None \<Rightarrow> False | Some lc \<Rightarrow> l_review_on_change lc)
      in if \<not> review_on_change then ''present''
         else if status_of registry (DurableId i) = Some Orphaned then ''orphaned''
         else
           (case (reviewed_hash, map_option a_content_hash (registry_get registry (DurableId i))) of
              (Some rh, Some ch) \<Rightarrow> if rh \<noteq> ch then ''needs_review'' else ''present''
            | _ \<Rightarrow> ''present''))"

definition review_layer :: "validated_config \<Rightarrow> str \<Rightarrow> bool" where
  "review_layer cfg name \<longleftrightarrow>
     (case map_of (layers (vc_raw cfg)) name of
        None \<Rightarrow> False
      | Some layer \<Rightarrow> l_origin layer = Authored \<and> l_review_on_change layer)"

definition compute_authored_lifecycle ::
  "validated_config \<Rightarrow> authored_map \<Rightarrow> str list \<Rightarrow> str list \<Rightarrow> str list \<times> str list" where
  "compute_authored_lifecycle cfg authored nr_ids orph_ids =
     (let monitored = fold (\<lambda>name acc. if review_layer cfg name then acc \<union> set (ids_in_layer authored name) else acc)
                        (vc_topo_order cfg) {}
      in (filter (\<lambda>i. i \<in> monitored) nr_ids, filter (\<lambda>i. i \<in> monitored) orph_ids))"

definition flag_record ::
  "authored_map \<Rightarrow> identity_registry \<Rightarrow> str \<Rightarrow> str \<Rightarrow> str btree_set \<Rightarrow> str btree_set" where
  "flag_record authored registry name i flagged =
     (case records_get authored name i of
        None \<Rightarrow> flagged
      | Some rec \<Rightarrow>
          (case av_reviewed_hash (ar_current rec) of
             None \<Rightarrow> flagged
           | Some reviewed \<Rightarrow>
               (case registry_get registry (DurableId i) of
                  None \<Rightarrow> flagged
                | Some a \<Rightarrow>
                    if a_status a = Orphaned then flagged
                    else if reviewed \<noteq> a_content_hash a then bs_insert i flagged
                    else flagged)))"

definition needs_review_ids :: "validated_config \<Rightarrow> authored_map \<Rightarrow> identity_registry \<Rightarrow> str list" where
  "needs_review_ids cfg authored registry =
     fold (\<lambda>name flagged.
       if review_layer cfg name
       then fold (flag_record authored registry name) (ids_in_layer authored name) flagged
       else flagged) (vc_topo_order cfg) []"

section \<open>Snapshot reads\<close>

record authored_view =
  view_value :: "json option"
  view_status :: str
  view_revision :: nat

definition snapshot_authored ::
  "validated_config \<Rightarrow> identity_registry \<Rightarrow> authored_map option \<Rightarrow> bool \<Rightarrow> nat \<Rightarrow> str \<Rightarrow> str \<Rightarrow> authored_view" where
  "snapshot_authored cfg registry authored is_head rv layer i =
     (let version_opt =
        (case authored of
           None \<Rightarrow> None
         | Some store \<Rightarrow>
             if is_head
             then (case value_at store layer i rv of Some v \<Rightarrow> Some v | None \<Rightarrow> authored_value store layer i)
             else value_at store layer i rv)
      in (case version_opt of
            Some v \<Rightarrow> \<lparr>view_value = Some (av_value v),
                       view_status = derive_authored_status cfg registry layer i (av_reviewed_hash v),
                       view_revision = av_revision v\<rparr>
          | None \<Rightarrow> \<lparr>view_value = None, view_status = ''absent'', view_revision = rv\<rparr>))"

definition snapshot_authored_history ::
  "authored_map option \<Rightarrow> bool \<Rightarrow> nat \<Rightarrow> str \<Rightarrow> str \<Rightarrow> (json \<times> nat) list" where
  "snapshot_authored_history authored is_head pinned layer i =
     (case authored of
        None \<Rightarrow> []
      | Some store \<Rightarrow>
          (case records_get store layer i of
             None \<Rightarrow> []
           | Some rec \<Rightarrow>
               map (\<lambda>v. (av_value v, av_revision v))
                 (filter (\<lambda>v. is_head \<or> av_revision v \<le> pinned) (ar_history rec)
                  @ (if is_head \<or> av_revision (ar_current rec) \<le> pinned then [ar_current rec] else []))))"

section \<open>Histories of writes\<close>

text \<open>
  The store after a list of writes, each made with the history flag of its layer; the versions
  written to one record, and those its layer keeps: all of them, or the last one.
\<close>

definition store_of :: "(str \<Rightarrow> bool) \<Rightarrow> (str \<times> str \<times> authored_version) list \<Rightarrow> authored_map" where
  "store_of keep ws = fold (\<lambda>(l, i, v). authored_put l i v (keep l)) ws []"

definition versions :: "(str \<times> str \<times> authored_version) list \<Rightarrow> str \<Rightarrow> str \<Rightarrow> authored_version list" where
  "versions ws l i = map (snd \<circ> snd) (filter (\<lambda>(l', i', v). l' = l \<and> i' = i) ws)"

lemma map_of_authored_put:
  "map_of (authored_put l i v keep m) = (map_of m)((l, i) \<mapsto>
     \<lparr>ar_current = v, ar_history = (case map_of m (l, i) of
        Some prev \<Rightarrow> if keep then ar_history prev @ [ar_current prev] else [] | None \<Rightarrow> [])\<rparr>)"
  by (simp add: authored_put_def Let_def update_conv')

definition kept_versions :: "(str \<Rightarrow> bool) \<Rightarrow> (str \<times> str \<times> authored_version) list \<Rightarrow> str \<Rightarrow> str \<Rightarrow> authored_version list" where
  "kept_versions keep ws l i = (let vs = versions ws l i in if keep l then vs else drop (length vs - 1) vs)"

lemma store_of_get:
  "map_of (store_of keep ws) (l, i) =
     (let vs = versions ws l i in
      if vs = [] then None else Some \<lparr>ar_current = last vs, ar_history = if keep l then butlast vs else []\<rparr>)"
proof (induction ws rule: rev_induct)
  case Nil
  then show ?case by (simp add: store_of_def versions_def)
next
  case (snoc w ws)
  obtain l' i' v where w: "w = (l', i', v)" by (cases w)
  have "store_of keep (ws @ [w]) = authored_put l' i' v (keep l') (store_of keep ws)" by (simp add: store_of_def w)
  then show ?case
    using snoc.IH by (auto simp: map_of_authored_put versions_def w Let_def split: if_splits)
qed

lemma find_rev_last: "find P (rev xs) = (if filter P xs = [] then None else Some (last (filter P xs)))"
  by (induction xs rule: rev_induct) auto

lemma value_at_store:
  "value_at (store_of keep ws) l i at =
     (let vs = filter (\<lambda>v. av_revision v \<le> at) (kept_versions keep ws l i) in if vs = [] then None else Some (last vs))"
proof (cases "versions ws l i" rule: rev_cases)
  case Nil
  then show ?thesis by (simp add: value_at_def store_of_get kept_versions_def)
next
  case (snoc vs v)
  then show ?thesis by (simp add: value_at_def store_of_get find_rev_last kept_versions_def Let_def)
qed

lemma hex_value_char: "d < 16 \<Longrightarrow> hex_value (hex_char d) = Some d"
  by (simp add: hex_value_def hex_char_def Let_def)

lemma parse_hex_append:
  "parse_hex_digits bound acc (s @ t) = Option.bind (parse_hex_digits bound acc s) (\<lambda>m. parse_hex_digits bound m t)"
  by (induction bound acc s rule: parse_hex_digits.induct) (auto simp: Let_def split: option.splits)

lemma parse_hex_fixed:
  "n < 16 ^ k \<Longrightarrow> n < bound \<Longrightarrow> parse_hex_digits bound 0 (hex_fixed k n) = Some n"
proof (induction k arbitrary: n)
  case (Suc k)
  have "n div 16 < 16 ^ k" using Suc.prems(1) by (simp add: less_mult_imp_div_less mult.commute)
  moreover have "n div 16 < bound" using Suc.prems(2) by (meson div_le_dividend le_less_trans)
  moreover have "n div 16 * 16 + n mod 16 = n" by simp
  ultimately show ?case using Suc
    by (simp add: parse_hex_append hex_value_char Let_def)
qed simp

lemma length_hex_fixed: "length (hex_fixed k n) = k"
  by (induction k arbitrary: n) auto

lemma hex_fixed_hd: "c \<in> set (hex_fixed k n) \<Longrightarrow> c \<noteq> CHR ''+''"
proof (induction k arbitrary: n)
  case (Suc k)
  have "hex_value (hex_char (n mod 16)) \<noteq> None" by (simp add: hex_value_char)
  then have "hex_char (n mod 16) \<noteq> CHR ''+''" by (auto simp: hex_value_def)
  with Suc show ?case by auto
qed simp

lemma hash_hex_roundtrip: "hash_from_hex (hash_to_hex h) = Some h"
proof -
  let ?n = "unat (hash_value h)"
  have n: "?n < 2 ^ 128" using unsigned_less [of "hash_value h"] by simp
  then have "?n < 16 ^ 32" by simp
  from parse_hex_fixed [OF this n] have p: "parse_hex_digits (2 ^ 128) 0 (hex_fixed 32 ?n) = Some ?n" .
  have "hex_fixed 32 ?n \<noteq> []" using length_hex_fixed [of 32 ?n] by (metis length_0_conv zero_neq_numeral)
  then obtain c cs where s: "hex_fixed 32 ?n = c # cs" by (meson neq_Nil_conv)
  with hex_fixed_hd [of c 32 ?n] have "c \<noteq> CHR ''+''" by simp
  with p s show ?thesis by (simp add: hash_from_hex_def hash_to_hex_def)
qed

lemma load_history:
  "fold (\<lambda>v. authored_put l i v True) vs m = m' \<Longrightarrow> map_of m (l, i) = None \<Longrightarrow>
     map_of m' = (if vs = [] then map_of m
       else (map_of m)((l, i) \<mapsto> \<lparr>ar_current = last vs, ar_history = butlast vs\<rparr>))"
proof (induction vs arbitrary: m' rule: rev_induct)
  case (snoc v vs)
  then show ?case by (auto simp: map_of_authored_put fun_eq_iff)
qed simp

lemma ids_in_layer_mem: "i \<in> set (ids_in_layer m layer) \<longleftrightarrow> map_of m (layer, i) \<noteq> None"
  by (force simp: ids_in_layer_def map_of_eq_None_iff image_iff)

definition record_stale :: "authored_map \<Rightarrow> identity_registry \<Rightarrow> str \<Rightarrow> str \<Rightarrow> bool" where
  "record_stale authored registry name i \<longleftrightarrow>
     (\<exists>rec h a. records_get authored name i = Some rec \<and> av_reviewed_hash (ar_current rec) = Some h \<and>
        registry_get registry (DurableId i) = Some a \<and> a_status a \<noteq> Orphaned \<and> h \<noteq> a_content_hash a)"

lemma flag_record_eq:
  "flag_record authored registry name i flagged =
     (if record_stale authored registry name i then bs_insert i flagged else flagged)"
  by (auto simp: flag_record_def record_stale_def split: option.splits)

lemma fold_flag_set:
  "set (fold (flag_record authored registry name) ids flagged) =
     set flagged \<union> {i \<in> set ids. record_stale authored registry name i}"
  by (induction ids arbitrary: flagged) (auto simp: flag_record_eq)

lemma fold_flag_inv:
  "bs_inv flagged \<Longrightarrow> bs_inv (fold (flag_record authored registry name) ids flagged)"
  by (induction ids arbitrary: flagged) (auto simp: flag_record_eq bs_inv_insert)

lemma needs_review_set:
  "set (needs_review_ids cfg authored registry) =
     {i. \<exists>name\<in>set (vc_topo_order cfg). review_layer cfg name \<and> record_stale authored registry name i}"
proof -
  have "set (fold (\<lambda>name flagged.
       if review_layer cfg name
       then fold (flag_record authored registry name) (ids_in_layer authored name) flagged
       else flagged) names acc) = set acc \<union>
     {i. \<exists>name\<in>set names. review_layer cfg name \<and> i \<in> set (ids_in_layer authored name) \<and> record_stale authored registry name i}"
    for names acc
    by (induction names arbitrary: acc) (auto simp: fold_flag_set)
  then show ?thesis
    by (auto simp: needs_review_ids_def ids_in_layer_mem record_stale_def records_get_def)
qed

lemma needs_review_sorted: "bs_inv (needs_review_ids cfg authored registry)"
proof -
  have "bs_inv acc \<Longrightarrow> bs_inv (fold (\<lambda>name flagged.
       if review_layer cfg name
       then fold (flag_record authored registry name) (ids_in_layer authored name) flagged
       else flagged) names acc)" for names acc
    by (induction names arbitrary: acc) (auto simp: fold_flag_inv)
  then show ?thesis by (simp add: needs_review_ids_def bs_inv_def)
qed

lemma derive_needs_review_iff:
  "derive_authored_status cfg registry layer i rh = ''needs_review'' \<longleftrightarrow>
     (\<exists>lc. map_of (layers (vc_raw cfg)) layer = Some lc \<and> l_review_on_change lc) \<and>
     (\<exists>h a. rh = Some h \<and> registry_get registry (DurableId i) = Some a \<and> a_status a \<noteq> Orphaned \<and>
        h \<noteq> a_content_hash a)"
  by (cases rh; cases "registry_get registry (DurableId i)"; cases "map_of (layers (vc_raw cfg)) layer")
    (auto simp: derive_authored_status_def status_of_def)

section \<open>Properties\<close>

text \<open>
  C39. Time travel over authored values.  Let a store be filled by writes made with their layers'
  history flags.  Reading a record at revision \<open>at\<close> gives the last version no later than \<open>at\<close>
  among those its layer keeps (nothing if there is none): every version written where history is
  kept, only the last one written where it is not.  When revisions were written in ascending
  order this is the kept version of greatest revision not above \<open>at\<close>.
\<close>

theorem authored_time_travel:
  "value_at (store_of keep ws) layer i at =
     (let vs = filter (\<lambda>v. av_revision v \<le> at) (kept_versions keep ws layer i)
      in if vs = [] then None else Some (last vs)) \<and>
   kept_versions keep ws layer i =
     (if keep layer \<or> versions ws layer i = [] then versions ws layer i else [last (versions ws layer i)]) \<and>
   (sorted_wrt (<) (map av_revision (versions ws layer i)) \<longrightarrow>
     (\<forall>v w. value_at (store_of keep ws) layer i at = Some v \<and> w \<in> set (kept_versions keep ws layer i) \<and> av_revision w \<le> at \<longrightarrow>
        av_revision w \<le> av_revision v))"
proof (intro conjI impI allI)
  show at: "value_at (store_of keep ws) layer i at =
     (let vs = filter (\<lambda>v. av_revision v \<le> at) (kept_versions keep ws layer i)
      in if vs = [] then None else Some (last vs))" by (rule value_at_store)
  show "kept_versions keep ws layer i =
     (if keep layer \<or> versions ws layer i = [] then versions ws layer i else [last (versions ws layer i)])"
    by (cases "versions ws layer i" rule: rev_cases) (auto simp: kept_versions_def)
  fix v w assume asc: "sorted_wrt (<) (map av_revision (versions ws layer i))"
    and v: "value_at (store_of keep ws) layer i at = Some v \<and> w \<in> set (kept_versions keep ws layer i) \<and> av_revision w \<le> at"
  let ?vs = "filter (\<lambda>v. av_revision v \<le> at) (kept_versions keep ws layer i)"
  have "sorted_wrt (<) (map av_revision (kept_versions keep ws layer i))"
    using asc sorted_wrt_drop by (simp add: kept_versions_def Let_def drop_map [symmetric])
  then have "sorted_wrt (\<lambda>x y. av_revision x < av_revision y) ?vs"
    by (simp add: sorted_wrt_map sorted_wrt_filter)
  moreover have "w \<in> set ?vs" "v = last ?vs" "?vs \<noteq> []" using v at by (auto simp: Let_def split: if_splits)
  ultimately show "av_revision w \<le> av_revision v"
    by (cases ?vs rule: rev_cases) (auto simp: sorted_wrt_append)
qed

text \<open>Two versions of a note in a layer with history, and the same writes in a layer without.\<close>

theorem authored_time_travel_witness:
  "let ws = [(l, ''A'', \<lparr>av_value = JStr ''old'', av_revision = 1, av_reviewed_hash = None\<rparr>) . l \<leftarrow> [''note'', ''tag'']] @
            [(l, ''A'', \<lparr>av_value = JStr ''new'', av_revision = 4, av_reviewed_hash = None\<rparr>) . l \<leftarrow> [''note'', ''tag'']]
   in value_at (store_of (\<lambda>l. l = ''note'') ws) ''note'' ''A'' 3 = Some \<lparr>av_value = JStr ''old'', av_revision = 1, av_reviewed_hash = None\<rparr>
      \<and> value_at (store_of (\<lambda>l. l = ''note'') ws) ''tag'' ''A'' 3 = None"
  unfolding Let_def using authored_time_travel [THEN conjunct1]
  by (simp add: versions_def kept_versions_def)

section \<open>Reloading what was saved\<close>

lemma wire_roundtrip: "doc_from_wire (doc_to_wire doc) = Inr doc"
proof -
  have v: "version_from_wire (version_to_wire x) = Inr x" for x
    by (cases "av_reviewed_hash x") (simp_all add: version_from_wire_def version_to_wire_def hash_hex_roundtrip)
  have "fold_result (\<lambda>v vs. rbind (version_from_wire v) (\<lambda>x. Inr (vs @ [x]))) (map version_to_wire xs) vs = Inr (vs @ xs)" for xs vs
    by (induction xs arbitrary: vs) (simp_all add: v)
  then show ?thesis by (simp add: doc_from_wire_def doc_to_wire_def v)
qed

text \<open>The document of a record, the files loading looks at, and a directory that holds exactly the records of a layer.\<close>

definition doc_of :: "str \<Rightarrow> str \<Rightarrow> authored_record \<Rightarrow> authored_doc" where
  "doc_of layer i rec = \<lparr>ad_format_version = authored_format_version, ad_layer = layer, ad_durable_id = i,
     ad_current = ar_current rec, ad_history = ar_history rec\<rparr>"

definition is_record_file :: "record_file \<Rightarrow> bool" where
  "is_record_file f \<longleftrightarrow> rf_is_file f \<and> file_name (rf_path f) \<noteq> None \<and> extension (rf_path f) = Some ''json''"

definition holds_record ::
  "(authored_doc \<Rightarrow> (str, 8 word list) result) \<Rightarrow> authored_map \<Rightarrow> str \<Rightarrow> record_file \<Rightarrow> str \<Rightarrow> bool" where
  "holds_record encode m layer f i \<longleftrightarrow>
     (\<exists>rec bytes. map_of m (layer, i) = Some rec \<and> doc_to_bytes encode (doc_of layer i rec) = Inr bytes \<and> rf_bytes f = Some bytes)"

definition layer_saved ::
  "(authored_doc \<Rightarrow> (str, 8 word list) result) \<Rightarrow> authored_map \<Rightarrow> str \<Rightarrow> record_file list option \<Rightarrow> bool" where
  "layer_saved encode m layer dir \<longleftrightarrow>
     (case dir of
        None \<Rightarrow> \<forall>i. map_of m (layer, i) = None
      | Some files \<Rightarrow> \<exists>ids. distinct ids \<and> set ids = {i. map_of m (layer, i) \<noteq> None}
          \<and> list_all2 (holds_record encode m layer) (filter is_record_file files) ids)"

definition restored :: "bool \<Rightarrow> authored_record \<Rightarrow> authored_record" where
  "restored history rec = (if history then rec else rec\<lparr>ar_history := []\<rparr>)"

lemma load_doc_restores:
  assumes "map_of m (layer, i) = None"
  shows "map_of (load_doc keep (doc_of layer i rec) m) = (map_of m)((layer, i) \<mapsto> restored keep rec)"
proof (cases keep)
  case True
  then show ?thesis using load_history [OF refl assms, of "ar_history rec"]
    by (simp add: load_doc_def doc_of_def restored_def map_of_authored_put fun_eq_iff assms)
qed (simp add: load_doc_def doc_of_def restored_def map_of_authored_put assms, cases rec, simp)

lemma load_files_restores:
  assumes "\<forall>doc bytes. doc_to_bytes encode doc = Inr bytes \<longrightarrow> decode bytes = Inr doc"
    and "list_all2 (holds_record encode m layer) (filter is_record_file files) ids" "distinct ids"
    and "\<forall>i\<in>set ids. map_of acc (layer, i) = None"
  shows "\<exists>m'. fold_result (load_record_file decode keep) files acc = Inr m'
    \<and> (\<forall>l i. map_of m' (l, i) = (if l = layer \<and> i \<in> set ids then map_option (restored keep) (map_of m (l, i)) else map_of acc (l, i)))"
  using assms(2-4)
proof (induction files arbitrary: ids acc)
  case (Cons f files)
  show ?case
  proof (cases "is_record_file f")
    case False
    then have "load_record_file decode keep f acc = Inr acc" by (auto simp: load_record_file_def is_record_file_def)
    with Cons False show ?thesis by simp
  next
    case True
    then obtain i rest where ids: "ids = i # rest" "holds_record encode m layer f i"
        "list_all2 (holds_record encode m layer) (filter is_record_file files) rest"
      using Cons.prems(1) by (auto simp: list_all2_Cons1)
    then obtain rec bytes where f: "map_of m (layer, i) = Some rec" "doc_to_bytes encode (doc_of layer i rec) = Inr bytes" "rf_bytes f = Some bytes"
      by (auto simp: holds_record_def)
    let ?acc = "load_doc keep (doc_of layer i rec) acc"
    have "doc_from_bytes decode bytes = Inr (doc_of layer i rec)"
      using assms(1) f(2) by (simp add: doc_from_bytes_def) (simp add: doc_of_def)
    then have step: "load_record_file decode keep f acc = Inr ?acc"
      using True f(3) by (auto simp: load_record_file_def is_record_file_def)
    have acc: "map_of ?acc = (map_of acc)((layer, i) \<mapsto> restored keep rec)"
      using load_doc_restores Cons.prems(3) ids(1) by simp
    have fresh: "distinct rest" "i \<notin> set rest" using Cons.prems(2) ids(1) by auto
    then have "\<forall>j\<in>set rest. map_of ?acc (layer, j) = None" using Cons.prems(3) ids(1) acc by auto
    from Cons.IH [OF ids(3) fresh(1) this] obtain m' where
      "fold_result (load_record_file decode keep) files ?acc = Inr m'"
      "\<forall>l j. map_of m' (l, j) = (if l = layer \<and> j \<in> set rest then map_option (restored keep) (map_of m (l, j)) else map_of ?acc (l, j))"
      by blast
    with step ids(1) acc f(1) fresh(2) show ?thesis by auto
  qed
qed simp

lemma load_layer_restores:
  assumes reads: "\<forall>doc bytes. doc_to_bytes encode doc = Inr bytes \<longrightarrow> decode bytes = Inr doc"
    and saved: "authored_layer_config cfg name \<noteq> None \<Longrightarrow> layer_saved encode m name (dir name)" and new: "\<forall>i. map_of acc (name, i) = None"
  shows "\<exists>m'. load_layer decode dir cfg name acc = Inr m'
    \<and> (\<forall>l i. map_of m' (l, i) = (if l = name then (case authored_layer_config cfg l of
            Some lc \<Rightarrow> map_option (restored (l_history lc)) (map_of m (l, i)) | None \<Rightarrow> None) else map_of acc (l, i)))"
proof (cases "authored_layer_config cfg name")
  case None
  then have "load_layer decode dir cfg name acc = Inr acc" by (auto simp: load_layer_def authored_layer_config_def split: option.splits)
  with None new show ?thesis by simp
next
  case (Some lc)
  then have l: "load_layer decode dir cfg name acc
      = (case dir name of None \<Rightarrow> Inr acc | Some files \<Rightarrow> fold_result (load_record_file decode (l_history lc)) files acc)"
    by (auto simp: load_layer_def authored_layer_config_def split: option.splits if_splits)
  show ?thesis
  proof (cases "dir name")
    case None
    with saved Some have "\<forall>i. map_of m (name, i) = None" by (simp add: layer_saved_def)
    with l None Some new show ?thesis by simp
  next
    case files: (Some files)
    with saved Some obtain ids where ids: "distinct ids" "set ids = {i. map_of m (name, i) \<noteq> None}"
        "list_all2 (holds_record encode m name) (filter is_record_file files) ids" by (auto simp: layer_saved_def)
    from load_files_restores [OF reads ids(3,1), of acc "l_history lc"] new obtain m' where
      m': "fold_result (load_record_file decode (l_history lc)) files acc = Inr m'"
      "\<forall>l i. map_of m' (l, i) = (if l = name \<and> i \<in> set ids then map_option (restored (l_history lc)) (map_of m (l, i)) else map_of acc (l, i))"
      by auto
    with l files Some new ids(2) show ?thesis by auto
  qed
qed

lemma load_layers_restores:
  assumes reads: "\<forall>doc bytes. doc_to_bytes encode doc = Inr bytes \<longrightarrow> decode bytes = Inr doc"
    and "\<forall>name\<in>set names. authored_layer_config cfg name \<noteq> None \<longrightarrow> layer_saved encode m name (dir name)"
    and "distinct names" "\<forall>name\<in>set names. \<forall>i. map_of acc (name, i) = None"
  shows "\<exists>m'. fold_result (load_layer decode dir cfg) names acc = Inr m'
    \<and> (\<forall>l i. map_of m' (l, i) = (if l \<in> set names then (case authored_layer_config cfg l of
            Some lc \<Rightarrow> map_option (restored (l_history lc)) (map_of m (l, i)) | None \<Rightarrow> None) else map_of acc (l, i)))"
  using assms(2-4)
proof (induction names arbitrary: acc)
  case (Cons name names)
  obtain m1 where m1: "load_layer decode dir cfg name acc = Inr m1"
    "\<forall>l i. map_of m1 (l, i) = (if l = name then (case authored_layer_config cfg l of
        Some lc \<Rightarrow> map_option (restored (l_history lc)) (map_of m (l, i)) | None \<Rightarrow> None) else map_of acc (l, i))"
    using load_layer_restores [OF reads, of cfg name m dir acc] Cons.prems by auto
  then have "\<forall>n\<in>set names. \<forall>i. map_of m1 (n, i) = None" using Cons.prems(2,3) by auto
  from Cons.IH [OF _ _ this] Cons.prems(1,2) obtain m2 where "fold_result (load_layer decode dir cfg) names m1 = Inr m2"
    "\<forall>l i. map_of m2 (l, i) = (if l \<in> set names then (case authored_layer_config cfg l of
        Some lc \<Rightarrow> map_option (restored (l_history lc)) (map_of m (l, i)) | None \<Rightarrow> None) else map_of m1 (l, i))" by auto
  with m1 Cons.prems(2) show ?case by auto
qed simp

text \<open>
  C40. Authored records survive reopening a project.  Let the directory of every authored layer hold exactly
  the documents of a store's records, one file each, as the commit writes them (serialised, with
  the reviewed hash in hexadecimal and a trailing newline), whatever else lies there beside them
  (directories, temporary files); let the JSON codec read back what it wrote, and let the layer
  order list no layer twice.  Then loading succeeds and gives the store back: each record of an
  authored layer in the order with its current version and, where the layer keeps history, its
  whole history in order, where it does not, none; and no other record.
\<close>

theorem authored_reload:
  assumes codec: "\<forall>doc bytes. enc doc = Inr bytes \<longrightarrow> dec (bytes @ [10]) = Inr doc"
    and order: "distinct (vc_topo_order cfg)"
    and saved: "\<forall>layer\<in>set (vc_topo_order cfg). authored_layer_config cfg layer \<noteq> None \<longrightarrow>
      layer_saved (serialize_doc enc) m layer (authored_dir layer)"
  shows "\<exists>m'. load_authored_records (deserialize_doc dec) authored_dir cfg = Inr m'
    \<and> (\<forall>layer i. map_of m' (layer, i) =
         (case authored_layer_config cfg layer of
            Some lc \<Rightarrow> if layer \<in> set (vc_topo_order cfg) then map_option (restored (l_history lc)) (map_of m (layer, i)) else None
          | None \<Rightarrow> None))"
proof -
  have "\<forall>doc bytes. doc_to_bytes (serialize_doc enc) doc = Inr bytes \<longrightarrow> deserialize_doc dec bytes = Inr doc"
    using codec wire_roundtrip by (auto simp: doc_to_bytes_def serialize_doc_def deserialize_doc_def rbind_Inr_iff)
  from load_layers_restores [OF this saved order, of "[]"] obtain m' where
    m': "load_authored_records (deserialize_doc dec) authored_dir cfg = Inr m'"
    "\<And>l i. map_of m' (l, i) = (if l \<in> set (vc_topo_order cfg) then (case authored_layer_config cfg l of
        Some lc \<Rightarrow> map_option (restored (l_history lc)) (map_of m (l, i)) | None \<Rightarrow> None) else None)"
    by (auto simp: load_authored_records_def)
  then show ?thesis by (intro exI [of _ m']) (simp split: option.split)
qed

text \<open>One note with a history, saved by a codec that knows this one document, beside a stray temporary file.\<close>

definition note_record :: authored_record where
  "note_record = \<lparr>ar_current = \<lparr>av_value = JStr ''new'', av_revision = 4, av_reviewed_hash = Some (ContentHash 7)\<rparr>,
     ar_history = [\<lparr>av_value = JStr ''old'', av_revision = 1, av_reviewed_hash = None\<rparr>]\<rparr>"

definition note_config :: validated_config where
  "note_config = \<lparr>vc_raw = raw_defaults\<lparr>layers := [(''note'', \<lparr>l_origin = Authored, l_depends_on = [], l_generator = None,
     l_generator_version = None, l_hash_profile = None, l_store = None, l_serving = Block, l_recompute = Lazy, l_key_locality = None,
     l_entity_kinds = [], l_history = True, l_review_on_change = True\<rparr>)]\<rparr>, vc_topo_order = [''code'', ''note'']\<rparr>"

theorem authored_reload_witness:
  "\<exists>m'. load_authored_records (deserialize_doc (\<lambda>b. if b = [1, 10] then Inr (doc_to_wire (doc_of ''note'' ''A'' note_record)) else Inl []))
      (\<lambda>_. Some [\<lparr>rf_path = ''/w/A.tmp'', rf_is_file = True, rf_bytes = Some [9]\<rparr>, \<lparr>rf_path = ''/w/A.json'', rf_is_file = True, rf_bytes = Some [1, 10]\<rparr>])
      note_config = Inr m' \<and> map_of m' (''note'', ''A'') = Some note_record"
proof -
  let ?doc = "doc_to_wire (doc_of ''note'' ''A'' note_record)"
  let ?enc = "\<lambda>d. if d = ?doc then Inr [1] else Inl []" and ?dec = "\<lambda>b. if b = [1, 10] then Inr ?doc else Inl []"
  let ?files = "[\<lparr>rf_path = ''/w/A.tmp'', rf_is_file = True, rf_bytes = Some [9]\<rparr>, \<lparr>rf_path = ''/w/A.json'', rf_is_file = True, rf_bytes = Some [1, 10]\<rparr>]"
  have codec: "\<forall>doc bytes. ?enc doc = Inr bytes \<longrightarrow> ?dec (bytes @ [10]) = Inr doc" by simp
  have order: "distinct (vc_topo_order note_config)" by (simp add: note_config_def)
  have found: "filter is_record_file ?files = [\<lparr>rf_path = ''/w/A.json'', rf_is_file = True, rf_bytes = Some [1, 10]\<rparr>]" by code_simp
  have "layer_saved (serialize_doc ?enc) [((''note'', ''A''), note_record)] ''note'' (Some ?files)"
    unfolding layer_saved_def option.case found
    by (intro exI [of _ "[''A'']"]) (auto simp: holds_record_def doc_to_bytes_def serialize_doc_def)
  then have saved: "\<forall>layer\<in>set (vc_topo_order note_config). authored_layer_config note_config layer \<noteq> None \<longrightarrow>
      layer_saved (serialize_doc ?enc) [((''note'', ''A''), note_record)] layer (Some ?files)"
    by (auto simp: note_config_def authored_layer_config_def)
  from authored_reload [OF codec order saved] show ?thesis
    by (auto simp: note_config_def authored_layer_config_def restored_def)
qed

text \<open>
  The two reports of review state agree: the level set \<open>needs_review_ids\<close> is sorted and
  free of duplicates, and lists an id exactly when, in some declared authored layer, the
  status derived for its current version is \<open>needs_review\<close>.
\<close>

theorem review_reports_agree:
  "sorted_wrt (<) (needs_review_ids cfg authored registry) \<and>
   (i \<in> set (needs_review_ids cfg authored registry) \<longleftrightarrow>
     (\<exists>name rec. name \<in> set (vc_topo_order cfg) \<and> authored_layer_config cfg name \<noteq> None \<and>
        records_get authored name i = Some rec \<and>
        derive_authored_status cfg registry name i (av_reviewed_hash (ar_current rec)) = ''needs_review''))"
proof -
  have "review_layer cfg name \<and> record_stale authored registry name i \<longleftrightarrow>
      authored_layer_config cfg name \<noteq> None \<and> (\<exists>rec. records_get authored name i = Some rec \<and>
        derive_authored_status cfg registry name i (av_reviewed_hash (ar_current rec)) = ''needs_review'')" for name
    unfolding derive_needs_review_iff record_stale_def
    by (auto simp: review_layer_def authored_layer_config_def split: option.splits)
  then show ?thesis
    using needs_review_sorted [of cfg authored registry] by (auto simp: bs_inv_def needs_review_set)
qed

text \<open>
  A head read can serve an old version: when the session's revision counter is behind the
  revision of the current version, as after reopening a project, the head snapshot answers
  with the newest version not above its counter instead of the current one.
\<close>

theorem head_read_can_be_stale:
  "view_value (snapshot_authored cfg registry
     (Some (store_of (\<lambda>_. True) [(''note'', ''A'', \<lparr>av_value = JStr ''old'', av_revision = 1, av_reviewed_hash = None\<rparr>),
        (''note'', ''A'', \<lparr>av_value = JStr ''new'', av_revision = 4, av_reviewed_hash = None\<rparr>)]))
     True 2 ''note'' ''A'') = Some (JStr ''old'')"
  by (simp add: snapshot_authored_def value_at_store versions_def kept_versions_def)

end
