(* ===== verification/CodeLayer.thy ===== *)
theory CodeLayer
  imports Prelude
begin

text \<open>
  The code layer (\<open>rust/src/code_layer.rs\<close>, first half): nodes keyed by id, the ordered set of
  edges, the maintained reverse-dependency index, and the structural diff.

  \<^item> \<open>edge_kind\<close>, \<open>edge\<close>, \<open>node_data\<close>, \<open>code_layer\<close> are the source's types; the derived \<open>Ord\<close>
    of \<open>EdgeKind\<close> and \<open>Edge\<close> is an instance of \<open>linorder\<close>.
  \<^item> \<open>add_edge\<close> and \<open>remove_edge\<close> keep the index; the interface \<open>edge_mutator\<close> states what both
    promise, and every layer reached through them carries exactly the derived index.
  \<^item> \<open>affected_closure_with_deleted\<close> is the breadth-first walk; it computes reachability.
  \<^item> \<open>diff_from\<close> is the delta; replaying it on the previous layer gives the next one.
\<close>

section \<open>Ids and populations\<close>

definition external_marker :: str where
  "external_marker = ''<external>''"

definition module_qualified_name :: str where
  "module_qualified_name = ''<module>''"

definition make_module_durable_id :: "str \<Rightarrow> str" where
  "make_module_durable_id f = module_qualified_name @ f"

definition make_external_module_id :: "str \<Rightarrow> str" where
  "make_external_module_id package = package @ ''::'' @ module_qualified_name"

definition make_external_symbol_id :: "str \<Rightarrow> str \<Rightarrow> str" where
  "make_external_symbol_id package_or_file name = package_or_file @ ''::'' @ name"

datatype population = PopEntity | PopModule | PopExternal

definition is_module_id :: "str \<Rightarrow> bool" where
  "is_module_id i \<longleftrightarrow> prefix module_qualified_name i"

section \<open>Edges\<close>

datatype edge_kind = Defines | Contains | References | Imports | Inherits | Overrides

fun kind_rank :: "edge_kind \<Rightarrow> nat" where
  "kind_rank Defines = 0"
| "kind_rank Contains = 1"
| "kind_rank References = 2"
| "kind_rank Imports = 3"
| "kind_rank Inherits = 4"
| "kind_rank Overrides = 5"

lemma kind_rank_inject: "kind_rank a = kind_rank b \<longleftrightarrow> a = b"
  by (cases a; cases b) simp_all

instantiation edge_kind :: linorder
begin

definition less_eq_edge_kind :: "edge_kind \<Rightarrow> edge_kind \<Rightarrow> bool" where
  "a \<le> b \<longleftrightarrow> kind_rank a \<le> kind_rank b"

definition less_edge_kind :: "edge_kind \<Rightarrow> edge_kind \<Rightarrow> bool" where
  "a < b \<longleftrightarrow> kind_rank a < kind_rank b"

instance
  by standard (auto simp: less_eq_edge_kind_def less_edge_kind_def kind_rank_inject)

end

fun edge_kind_str :: "edge_kind \<Rightarrow> str" where
  "edge_kind_str Defines = ''defines''"
| "edge_kind_str Contains = ''contains''"
| "edge_kind_str References = ''references''"
| "edge_kind_str Imports = ''imports''"
| "edge_kind_str Inherits = ''inherits''"
| "edge_kind_str Overrides = ''overrides''"

fun is_dependency :: "edge_kind \<Rightarrow> bool" where
  "is_dependency References = True"
| "is_dependency Imports = True"
| "is_dependency Inherits = True"
| "is_dependency Overrides = True"
| "is_dependency _ = False"

datatype position_dto = Position (pos_line: u32) (pos_column: u32)
datatype range_dto = Range (range_start: position_dto) (range_end: position_dto)

type_synonym range_tuple = "u32 \<times> u32 \<times> u32 \<times> u32"

definition to_range_tuple :: "range_dto \<Rightarrow> range_tuple" where
  "to_range_tuple r =
     (pos_line (range_start r), pos_column (range_start r), pos_line (range_end r), pos_column (range_end r))"

definition tuple_to_range :: "range_tuple \<Rightarrow> range_dto" where
  "tuple_to_range t = (case t of (sl, sc, el, ec) \<Rightarrow> Range (Position sl sc) (Position el ec))"

datatype edge =
  Edge (eg_source: str) (eg_target: str) (eg_kind: edge_kind) (eg_role: "str option")
    (eg_file: "str option") (eg_range: "range_tuple option")

text \<open>The derived order compares the fields in their order of declaration.\<close>

definition edge_key ::
  "edge \<Rightarrow> str \<times> str \<times> edge_kind \<times> str option \<times> str option \<times> range_tuple option" where
  "edge_key e = (eg_source e, eg_target e, eg_kind e, eg_role e, eg_file e, eg_range e)"

lemma edge_key_inject: "edge_key a = edge_key b \<longleftrightarrow> a = b"
  by (cases a; cases b) (simp add: edge_key_def)

instantiation edge :: linorder
begin

definition less_eq_edge :: "edge \<Rightarrow> edge \<Rightarrow> bool" where
  "a \<le> b \<longleftrightarrow> edge_key a \<le> edge_key b"

definition less_edge :: "edge \<Rightarrow> edge \<Rightarrow> bool" where
  "a < b \<longleftrightarrow> edge_key a < edge_key b"

instance
  by standard
    (auto simp: less_eq_edge_def less_edge_def edge_key_inject order.strict_iff_order
       dest: order.antisym intro: order.trans)

end

section \<open>Nodes and the layer\<close>

record node_data =
  n_name :: str
  n_qualified_name :: str
  n_kind :: str
  n_file :: str
  n_range :: range_dto
  n_name_range :: "range_dto option"
  n_content_hash :: "str option"
  n_content_hashes :: "(str, str) btree_map"
  n_external :: bool
  n_package :: "str option"

definition node_population :: "node_data \<Rightarrow> str \<Rightarrow> population" where
  "node_population n i =
     (if n_external n then PopExternal else if is_module_id i then PopModule else PopEntity)"

definition structurally_same :: "node_data \<Rightarrow> node_data \<Rightarrow> bool" where
  "structurally_same a b \<longleftrightarrow>
     n_name a = n_name b \<and> n_qualified_name a = n_qualified_name b \<and> n_kind a = n_kind b
     \<and> n_content_hash a = n_content_hash b \<and> n_external a = n_external b"

record code_layer =
  nodes :: "(str, node_data) btree_map"
  edges :: "edge btree_set"
  reverse_deps :: "(str, str btree_set) btree_map"
  layer_files :: "(str, str list) btree_map"

definition code_layer_new :: code_layer where
  "code_layer_new = \<lparr>nodes = [], edges = [], reverse_deps = [], layer_files = []\<rparr>"

definition layer_is_empty :: "code_layer \<Rightarrow> bool" where
  "layer_is_empty l \<longleftrightarrow> nodes l = [] \<and> edges l = []"

definition upsert_node :: "str \<Rightarrow> node_data \<Rightarrow> code_layer \<Rightarrow> code_layer" where
  "upsert_node i n l = l\<lparr>nodes := bt_insert i n (nodes l)\<rparr>"

definition sources_in :: "(str, str btree_set) btree_map \<Rightarrow> str \<Rightarrow> str btree_set" where
  "sources_in m t = (case map_of m t of None \<Rightarrow> [] | Some s \<Rightarrow> s)"

definition index_add :: "edge \<Rightarrow> (str, str btree_set) btree_map \<Rightarrow> (str, str btree_set) btree_map" where
  "index_add e m = bt_insert (eg_target e) (bs_insert (eg_source e) (sources_in m (eg_target e))) m"

text \<open>Both operations also return whether the edge set changed.\<close>

definition add_edge :: "edge \<Rightarrow> code_layer \<Rightarrow> bool \<times> code_layer" where
  "add_edge e l =
     (e \<notin> set (edges l),
      l\<lparr>edges := bs_insert e (edges l),
        reverse_deps := (if is_dependency (eg_kind e) then index_add e (reverse_deps l) else reverse_deps l)\<rparr>)"

definition index_drop :: "edge \<Rightarrow> (str, str btree_set) btree_map \<Rightarrow> (str, str btree_set) btree_map" where
  "index_drop e m =
     (case map_of m (eg_target e) of
        None \<Rightarrow> m
      | Some sources \<Rightarrow>
          let sources' = bs_remove (eg_source e) sources
          in if sources' = [] then bt_remove (eg_target e) m else bt_insert (eg_target e) sources' m)"

definition remove_edge :: "edge \<Rightarrow> code_layer \<Rightarrow> bool \<times> code_layer" where
  "remove_edge e l =
     (let removed = e \<in> set (edges l);
          rest = bs_remove e (edges l);
          still_dep = list_ex (\<lambda>f. is_dependency (eg_kind f) \<and> eg_source f = eg_source e \<and> eg_target f = eg_target e) rest
      in (removed,
          l\<lparr>edges := rest,
            reverse_deps := (if removed \<and> is_dependency (eg_kind e) \<and> \<not> still_dep
                             then index_drop e (reverse_deps l) else reverse_deps l)\<rparr>))"

definition derived_reverse_deps :: "code_layer \<Rightarrow> (str, str btree_set) btree_map" where
  "derived_reverse_deps l =
     fold (\<lambda>e m. if is_dependency (eg_kind e) then index_add e m else m) (edges l) []"

text \<open>The breadth-first walk.\<close>

definition unvisited :: "str btree_set \<Rightarrow> str list \<Rightarrow> str list" where
  "unvisited visited xs = filter (\<lambda>x. x \<notin> set visited) xs"

definition indexed_sources :: "code_layer \<Rightarrow> str set" where
  "indexed_sources l = (\<Union>p\<in>set (reverse_deps l). set (snd p))"

lemma sources_in_sub: "set (sources_in (reverse_deps l) i) \<subseteq> indexed_sources l"
proof (cases "map_of (reverse_deps l) i")
  case (Some srcs)
  then have "(i, srcs) \<in> set (reverse_deps l)" by (rule map_of_SomeD)
  with Some show ?thesis by (force simp: sources_in_def indexed_sources_def)
qed (simp add: sources_in_def)

lemma finite_indexed_sources [simp]: "finite (indexed_sources l)"
  by (simp add: indexed_sources_def)

definition walk_next ::
  "code_layer \<Rightarrow> code_layer \<Rightarrow> str btree_set \<Rightarrow> str btree_set \<Rightarrow> str \<Rightarrow> str list" where
  "walk_next l prev deleted visited i =
     unvisited visited (sources_in (reverse_deps l) i)
     @ (if i \<in> set deleted then unvisited visited (sources_in (reverse_deps prev) i) else [])"

function closure_loop ::
  "code_layer \<Rightarrow> code_layer \<Rightarrow> str btree_set \<Rightarrow> str btree_set \<Rightarrow> str list \<Rightarrow> str btree_set" where
  "closure_loop l prev deleted visited [] = visited"
| "closure_loop l prev deleted visited (i # queue) =
     (if i \<in> set visited then closure_loop l prev deleted visited queue
      else closure_loop l prev deleted (bs_insert i visited)
             (queue @ walk_next l prev deleted (bs_insert i visited) i))"
  by pat_completeness auto
termination
proof (relation "measures
    [\<lambda>(l, prev, deleted, visited, queue).
        card ((set queue \<union> indexed_sources l \<union> indexed_sources prev) - set visited),
     \<lambda>(l, prev, deleted, visited, queue). length queue]", goal_cases)
  case (2 l prev deleted visited i queue)
  then have "i \<in> set visited" by simp
  then have "(set queue \<union> indexed_sources l \<union> indexed_sources prev) - set visited
      = (set (i # queue) \<union> indexed_sources l \<union> indexed_sources prev) - set visited" by auto
  then show ?case by simp
next
  case (3 l prev deleted visited i queue)
  have sub: "set (walk_next l prev deleted (bs_insert i visited) i) \<subseteq> indexed_sources l \<union> indexed_sources prev"
    using sources_in_sub [of l i] sources_in_sub [of prev i] by (auto simp: walk_next_def unvisited_def)
  have "card ((set (queue @ walk_next l prev deleted (bs_insert i visited) i) \<union> indexed_sources l
           \<union> indexed_sources prev) - set (bs_insert i visited))
      < card ((set (i # queue) \<union> indexed_sources l \<union> indexed_sources prev) - set visited)"
    by (rule psubset_card_mono) (use 3 sub in auto)
  then show ?case by simp
qed simp

definition affected_closure_with_deleted ::
  "code_layer \<Rightarrow> code_layer \<Rightarrow> str btree_set \<Rightarrow> str btree_set \<Rightarrow> str btree_set" where
  "affected_closure_with_deleted l prev seeds deleted = closure_loop l prev deleted [] seeds"

section \<open>The structural delta\<close>

record code_node_dto =
  cn_durable_id :: str
  cn_name :: str
  cn_qualified_name :: str
  cn_kind :: str
  cn_file :: str
  cn_range :: range_dto
  cn_name_range :: "range_dto option"
  cn_content_hash :: "str option"
  cn_content_hashes :: "(str, str) hash_map"
  cn_external :: bool
  cn_package :: "str option"

record code_node_moved_dto =
  cm_durable_id :: str
  cm_file :: str
  cm_range :: range_dto
  cm_name_range :: "range_dto option"

record code_edge_dto =
  ce_source_id :: str
  ce_destination_id :: str
  ce_kind :: str
  ce_role :: "str option"
  ce_file :: "str option"
  ce_range :: "range_dto option"

record code_delta =
  cd_revision :: nat
  cd_rescan :: bool
  nodes_upserted :: "code_node_dto list"
  nodes_removed :: "str list"
  nodes_moved :: "code_node_moved_dto list"
  edges_added :: "code_edge_dto list"
  edges_removed :: "code_edge_dto list"

definition edge_to_dto :: "edge \<Rightarrow> code_edge_dto" where
  "edge_to_dto e = \<lparr>ce_source_id = eg_source e, ce_destination_id = eg_target e,
     ce_kind = edge_kind_str (eg_kind e), ce_role = eg_role e, ce_file = eg_file e,
     ce_range = map_option tuple_to_range (eg_range e)\<rparr>"

definition node_to_dto :: "str \<Rightarrow> node_data \<Rightarrow> code_node_dto" where
  "node_to_dto i n = \<lparr>cn_durable_id = i, cn_name = n_name n, cn_qualified_name = n_qualified_name n,
     cn_kind = n_kind n, cn_file = n_file n, cn_range = n_range n, cn_name_range = n_name_range n,
     cn_content_hash = n_content_hash n, cn_content_hashes = n_content_hashes n,
     cn_external = n_external n, cn_package = n_package n\<rparr>"

definition moved_to_dto :: "str \<Rightarrow> node_data \<Rightarrow> code_node_moved_dto" where
  "moved_to_dto i n = \<lparr>cm_durable_id = i, cm_file = n_file n, cm_range = n_range n, cm_name_range = n_name_range n\<rparr>"

definition needs_upsert :: "code_layer \<Rightarrow> str \<Rightarrow> node_data \<Rightarrow> bool" where
  "needs_upsert prev i n =
     (case map_of (nodes prev) i of None \<Rightarrow> True | Some p \<Rightarrow> \<not> structurally_same p n)"

definition has_moved :: "code_layer \<Rightarrow> str \<Rightarrow> node_data \<Rightarrow> bool" where
  "has_moved prev i n =
     (case map_of (nodes prev) i of
        None \<Rightarrow> False
      | Some p \<Rightarrow> structurally_same p n \<and> (n_file p \<noteq> n_file n \<or> n_range p \<noteq> n_range n))"

definition diff_from :: "code_layer \<Rightarrow> code_layer \<Rightarrow> nat \<Rightarrow> bool \<Rightarrow> code_delta" where
  "diff_from l prev rv rescan =
     \<lparr>cd_revision = rv, cd_rescan = rescan,
      nodes_upserted = [node_to_dto i n. (i, n) \<leftarrow> nodes l, needs_upsert prev i n],
      nodes_removed = [i. i \<leftarrow> map fst (nodes prev), map_of (nodes l) i = None],
      nodes_moved = [moved_to_dto i n. (i, n) \<leftarrow> nodes l, has_moved prev i n],
      edges_added = map edge_to_dto (filter (\<lambda>e. e \<notin> set (edges prev)) (edges l)),
      edges_removed = map edge_to_dto (filter (\<lambda>e. e \<notin> set (edges l)) (edges prev))\<rparr>"


section \<open>The index is exact\<close>

definition dep_sources :: "edge set \<Rightarrow> str \<Rightarrow> str set" where
  "dep_sources E t = eg_source ` {e \<in> E. is_dependency (eg_kind e) \<and> eg_target e = t}"

definition exact_index :: "edge set \<Rightarrow> (str, str btree_set) btree_map \<Rightarrow> bool" where
  "exact_index E m \<longleftrightarrow>
     bt_inv m \<and> (\<forall>t. map_of m t =
       (if dep_sources E t = {} then None else Some (sorted_list_of_set (dep_sources E t))))"

definition layer_inv :: "code_layer \<Rightarrow> bool" where
  "layer_inv l \<longleftrightarrow> bt_inv (nodes l) \<and> bs_inv (edges l) \<and> exact_index (set (edges l)) (reverse_deps l)"

lemma finite_dep_sources [simp]: "finite E \<Longrightarrow> finite (dep_sources E t)"
  by (simp add: dep_sources_def)

lemma dep_sources_insert:
  "dep_sources (insert e E) t =
     (if is_dependency (eg_kind e) \<and> eg_target e = t then insert (eg_source e) (dep_sources E t) else dep_sources E t)"
  by (auto simp: dep_sources_def)

lemma dep_sources_empty [simp]: "dep_sources {} t = {}"
  by (simp add: dep_sources_def)

lemma sources_in_exact: "exact_index E m \<Longrightarrow> sources_in m t = sorted_list_of_set (dep_sources E t)"
  by (simp add: sources_in_def exact_index_def)

lemma bs_insert_sorted_list:
  "finite S \<Longrightarrow> bs_insert x (sorted_list_of_set S) = sorted_list_of_set (insert x S)"
  by (intro bs_unique bs_inv_insert) (simp_all add: bs_inv_def del: sorted_list_of_set_insert_remove)

lemma bs_remove_sorted_list:
  "finite S \<Longrightarrow> bs_remove x (sorted_list_of_set S) = sorted_list_of_set (S - {x})"
  by (intro bs_unique bs_inv_remove) (auto simp: bs_inv_def)

lemma exact_index_unique: "exact_index E m \<Longrightarrow> exact_index E m' \<Longrightarrow> m = m'"
  by (rule bt_unique) (auto simp: exact_index_def fun_eq_iff)

lemma exact_index_add:
  assumes "finite E" "exact_index E m" "is_dependency (eg_kind e)"
  shows "exact_index (insert e E) (index_add e m)"
proof -
  have inv: "bt_inv m" using assms(2) by (simp add: exact_index_def)
  show ?thesis
    using assms(2) unfolding exact_index_def
    by (auto simp: index_add_def sources_in_exact [OF assms(2)] bs_insert_sorted_list assms(1,3)
        dep_sources_insert bt.inv_ins bt.get_ins [OF inv])
qed

lemma exact_index_insert_other:
  "exact_index E m \<Longrightarrow> \<not> is_dependency (eg_kind e) \<Longrightarrow> exact_index (insert e E) m"
  by (simp add: exact_index_def dep_sources_insert)

lemma exact_index_same:
  "exact_index E m \<Longrightarrow> (\<And>t. dep_sources E' t = dep_sources E t) \<Longrightarrow> exact_index E' m"
  by (simp add: exact_index_def)

lemma exact_index_drop:
  assumes "finite E" "exact_index E m"
    and gone: "\<And>t. dep_sources E' t = (if t = eg_target e then dep_sources E t - {eg_source e} else dep_sources E t)"
  shows "exact_index E' (index_drop e m)"
proof -
  have inv: "bt_inv m" and get: "\<And>t. map_of m t =
      (if dep_sources E t = {} then None else Some (sorted_list_of_set (dep_sources E t)))"
    using assms(2) by (auto simp: exact_index_def)
  show ?thesis
  proof (cases "dep_sources E (eg_target e) = {}")
    case True
    then have "index_drop e m = m" by (simp add: index_drop_def get)
    with True assms(2) show ?thesis by (auto simp: exact_index_def gone)
  next
    case False
    then show ?thesis
      by (auto simp: exact_index_def index_drop_def get Let_def bs_remove_sorted_list assms(1) gone
          bt.inv_del [OF inv] bt.inv_ins [OF inv] bt.get_del [OF inv] bt.get_ins [OF inv])
  qed
qed

lemma derived_exact: "exact_index (set (edges l)) (derived_reverse_deps l)"
proof -
  have "finite E \<Longrightarrow> exact_index E m \<Longrightarrow>
      exact_index (E \<union> set es) (fold (\<lambda>e m. if is_dependency (eg_kind e) then index_add e m else m) es m)"
    for es E m
  proof (induction es arbitrary: E m)
    case (Cons e es)
    have "exact_index (insert e E) (if is_dependency (eg_kind e) then index_add e m else m)"
      using Cons.prems by (simp add: exact_index_add exact_index_insert_other)
    from Cons.IH [OF _ this] show ?case using Cons.prems by simp
  qed simp
  from this [of "{}" "[]" "edges l"] show ?thesis
    by (simp add: derived_reverse_deps_def exact_index_def bt_inv_def)
qed

lemma layer_inv_index: "layer_inv l \<Longrightarrow> reverse_deps l = derived_reverse_deps l"
  using exact_index_unique derived_exact by (auto simp: layer_inv_def)

text \<open>
  The interface of an operation on the layer: it keeps the invariant.  Whatever sequence of
  such operations runs, the maintained index is the derived one.
\<close>

locale layer_mutator =
  fixes apply_op :: "'x \<Rightarrow> code_layer \<Rightarrow> code_layer"
  assumes keeps: "layer_inv l \<Longrightarrow> layer_inv (apply_op x l)"
begin

lemma keeps_all: "layer_inv l \<Longrightarrow> layer_inv (fold apply_op xs l)"
  by (induction xs arbitrary: l) (auto intro: keeps)

lemma index_after_all:
  "layer_inv l \<Longrightarrow> reverse_deps (fold apply_op xs l) = derived_reverse_deps (fold apply_op xs l)"
  by (rule layer_inv_index) (rule keeps_all)

end

lemma layer_inv_new [simp]: "layer_inv code_layer_new"
  by (simp add: layer_inv_def code_layer_new_def exact_index_def bt_inv_def bs_inv_def)

lemma layer_inv_add: "layer_inv l \<Longrightarrow> layer_inv (snd (add_edge e l))"
  by (auto simp: layer_inv_def add_edge_def bs_inv_insert exact_index_add exact_index_insert_other)

lemma layer_inv_remove:
  assumes "layer_inv l"
  shows "layer_inv (snd (remove_edge e l))"
proof -
  let ?E = "set (edges l)" and ?E' = "set (edges l) - {e}"
  have ex: "exact_index ?E (reverse_deps l)" using assms by (simp add: layer_inv_def)
  let ?still = "\<exists>f\<in>?E'. is_dependency (eg_kind f) \<and> eg_source f = eg_source e \<and> eg_target f = eg_target e"
  have "exact_index ?E' (if e \<in> ?E \<and> is_dependency (eg_kind e) \<and> \<not> ?still then index_drop e (reverse_deps l) else reverse_deps l)"
  proof (cases "e \<in> ?E \<and> is_dependency (eg_kind e) \<and> \<not> ?still")
    case True
    then have "exact_index ?E' (index_drop e (reverse_deps l))"
      by (intro exact_index_drop [OF _ ex]) (auto simp: dep_sources_def)
    with True show ?thesis by simp
  next
    case False
    have "dep_sources ?E t \<subseteq> dep_sources ?E' t" for t
    proof
      fix x
      assume "x \<in> dep_sources ?E t"
      then obtain f where f: "f \<in> ?E" "is_dependency (eg_kind f)" "eg_target f = t" "x = eg_source f"
        by (auto simp: dep_sources_def)
      with False have "f = e \<Longrightarrow> ?still" by blast
      with f have "\<exists>g\<in>?E'. is_dependency (eg_kind g) \<and> eg_source g = x \<and> eg_target g = t"
        by (cases "f = e") auto
      then show "x \<in> dep_sources ?E' t" by (auto simp: dep_sources_def)
    qed
    then have "exact_index ?E' (reverse_deps l)"
      by (intro exact_index_same [OF ex] equalityI) (auto simp: dep_sources_def)
    with False show ?thesis by auto
  qed
  then show ?thesis
    using assms by (simp add: layer_inv_def remove_edge_def Let_def list_ex_iff bs_inv_remove)
qed

interpretation add_op: layer_mutator "\<lambda>e l. snd (add_edge e l)"
  by unfold_locales (rule layer_inv_add)

interpretation remove_op: layer_mutator "\<lambda>e l. snd (remove_edge e l)"
  by unfold_locales (rule layer_inv_remove)

interpretation upsert_op: layer_mutator "\<lambda>(i, n). upsert_node i n"
  by unfold_locales (auto simp: layer_inv_def upsert_node_def bt.inv_ins)

interpretation drop_node_op: layer_mutator "\<lambda>i l. l\<lparr>nodes := bt_remove i (nodes l)\<rparr>"
  by unfold_locales (auto simp: layer_inv_def bt.inv_del)

interpretation files_op: layer_mutator "\<lambda>fs l. l\<lparr>layer_files := fs\<rparr>"
  by unfold_locales (auto simp: layer_inv_def)


section \<open>Reachable layers\<close>

inductive layer_reach :: "code_layer \<Rightarrow> bool" where
  reach_new: "layer_reach code_layer_new"
| reach_upsert: "layer_reach l \<Longrightarrow> layer_reach (upsert_node i n l)"
| reach_add: "layer_reach l \<Longrightarrow> layer_reach (snd (add_edge e l))"
| reach_remove: "layer_reach l \<Longrightarrow> layer_reach (snd (remove_edge e l))"
| reach_drop: "layer_reach l \<Longrightarrow> layer_reach (l\<lparr>nodes := bt_remove i (nodes l)\<rparr>)"
| reach_files: "layer_reach l \<Longrightarrow> layer_reach (l\<lparr>layer_files := fs\<rparr>)"

lemma layer_reach_inv: "layer_reach l \<Longrightarrow> layer_inv l"
proof (induction rule: layer_reach.induct)
  case (reach_upsert l i n)
  then show ?case using upsert_op.keeps [of l "(i, n)"] by simp
qed (auto intro: layer_inv_add layer_inv_remove drop_node_op.keeps files_op.keeps)

text \<open>
  C12.  The maintained reverse-dependency index is the derived one: whatever sequence of node
  insertions and removals and edge insertions and removals produced the layer, the debug
  assertion of the producer holds, and the two flags returned by \<open>add_edge\<close> and
  \<open>remove_edge\<close> say exactly whether the edge set changed.  In particular an index entry goes
  away with the last parallel dependency edge and not before.
\<close>

theorem reverse_deps_exact:
  assumes "layer_reach l"
  shows "reverse_deps l = derived_reverse_deps l
    \<and> (\<forall>e. fst (add_edge e l) \<longleftrightarrow> edges (snd (add_edge e l)) \<noteq> edges l)
    \<and> (\<forall>e. fst (remove_edge e l) \<longleftrightarrow> edges (snd (remove_edge e l)) \<noteq> edges l)
    \<and> (\<forall>s t. s \<in> set (sources_in (reverse_deps l) t) \<longleftrightarrow>
           (\<exists>e\<in>set (edges l). is_dependency (eg_kind e) \<and> eg_source e = s \<and> eg_target e = t))"
proof (intro conjI allI)
  have inv: "layer_inv l" by (rule layer_reach_inv [OF assms])
  then show "reverse_deps l = derived_reverse_deps l" by (rule layer_inv_index)
  show "fst (add_edge e l) \<longleftrightarrow> edges (snd (add_edge e l)) \<noteq> edges l" for e
    using set_bs_insert [of e "edges l"] by (auto simp: add_edge_def bs_insert_def)
  show "fst (remove_edge e l) \<longleftrightarrow> edges (snd (remove_edge e l)) \<noteq> edges l" for e
    using set_bs_remove [of e "edges l"] by (auto simp: remove_edge_def Let_def bs_remove_def filter_id_conv)
  show "s \<in> set (sources_in (reverse_deps l) t) \<longleftrightarrow>
      (\<exists>e\<in>set (edges l). is_dependency (eg_kind e) \<and> eg_source e = s \<and> eg_target e = t)" for s t
    using inv by (auto simp: layer_inv_def sources_in_exact dep_sources_def)
qed

definition ref_edge :: "str \<Rightarrow> str \<Rightarrow> edge" where
  "ref_edge s t = Edge s t References None None None"

definition import_edge :: "str \<Rightarrow> str \<Rightarrow> edge" where
  "import_edge s t = Edge s t Imports None None None"

definition sample_layer :: code_layer where
  "sample_layer = snd (remove_edge (ref_edge ''a'' ''b'')
     (snd (add_edge (import_edge ''a'' ''b'') (snd (add_edge (ref_edge ''c'' ''a'')
       (snd (add_edge (ref_edge ''a'' ''b'') code_layer_new)))))))"

lemma sample_layer_reach: "layer_reach sample_layer"
  by (simp add: sample_layer_def layer_reach.intros)

theorem reverse_deps_exact_witness:
  "reverse_deps sample_layer = derived_reverse_deps sample_layer
   \<and> reverse_deps sample_layer = [(''a'', [''c'']), (''b'', [''a''])]"
proof
  show "reverse_deps sample_layer = derived_reverse_deps sample_layer"
    using reverse_deps_exact [OF sample_layer_reach] by (rule conjunct1)
  show "reverse_deps sample_layer = [(''a'', [''c'']), (''b'', [''a''])]" by code_simp
qed

section \<open>The affected closure\<close>

definition walk_rel :: "code_layer \<Rightarrow> code_layer \<Rightarrow> str set \<Rightarrow> (str \<times> str) set" where
  "walk_rel l prev deleted = {(i, s). s \<in> set (sources_in (reverse_deps l) i)
     \<or> (i \<in> deleted \<and> s \<in> set (sources_in (reverse_deps prev) i))}"

lemma set_walk_next: "set (walk_next l prev deleted visited i) = walk_rel l prev (set deleted) `` {i} - set visited"
  by (auto simp: walk_next_def walk_rel_def unvisited_def)

lemma closure_loop_upper:
  "set (closure_loop l prev deleted visited queue) \<subseteq> set visited \<union> (walk_rel l prev (set deleted))\<^sup>* `` set queue"
proof (induction l prev deleted visited queue rule: closure_loop.induct)
  case (2 l prev deleted visited i queue)
  let ?R = "walk_rel l prev (set deleted)"
  show ?case
  proof (cases "i \<in> set visited")
    case True
    with "2.IH"(1) show ?thesis by auto
  next
    case False
    have "?R\<^sup>* `` set (queue @ walk_next l prev deleted (bs_insert i visited) i) \<subseteq> ?R\<^sup>* `` set (i # queue)"
      by (auto simp: set_walk_next intro: converse_rtrancl_into_rtrancl)
    with "2.IH"(2) [OF False] False show ?thesis by auto
  qed
qed simp

lemma closure_loop_lower:
  assumes "\<And>i. i \<in> set visited \<Longrightarrow> walk_rel l prev (set deleted) `` {i} \<subseteq> set visited \<union> set queue"
  shows "set visited \<union> set queue \<subseteq> set (closure_loop l prev deleted visited queue)
    \<and> walk_rel l prev (set deleted) `` set (closure_loop l prev deleted visited queue)
        \<subseteq> set (closure_loop l prev deleted visited queue)"
  using assms
proof (induction l prev deleted visited queue rule: closure_loop.induct)
  case (2 l prev deleted visited i queue)
  let ?R = "walk_rel l prev (set deleted)"
  show ?case
  proof (cases "i \<in> set visited")
    case True
    then have "?R `` {j} \<subseteq> set visited \<union> set queue" if "j \<in> set visited" for j
      using "2.prems" [OF that] by auto
    from "2.IH"(1) [OF True this] True show ?thesis by auto
  next
    case False
    let ?q = "queue @ walk_next l prev deleted (bs_insert i visited) i"
    have "?R `` {j} \<subseteq> set (bs_insert i visited) \<union> set ?q" if "j \<in> set (bs_insert i visited)" for j
      using that "2.prems" [of j] by (cases "j = i") (auto simp: set_walk_next)
    from "2.IH"(2) [OF False this] False show ?thesis by auto
  qed
qed auto

lemma closure_loop_sorted: "bs_inv visited \<Longrightarrow> bs_inv (closure_loop l prev deleted visited queue)"
  by (induction l prev deleted visited queue rule: closure_loop.induct) (auto intro: bs_inv_insert)

lemma rtrancl_image_closed: "A \<subseteq> S \<Longrightarrow> R `` S \<subseteq> S \<Longrightarrow> R\<^sup>* `` A \<subseteq> S"
proof clarify
  fix x y
  assume "A \<subseteq> S" "R `` S \<subseteq> S" "(x, y) \<in> R\<^sup>*" "x \<in> A"
  from this(3,1,2,4) show "y \<in> S" by (induction rule: rtrancl_induct) auto
qed

lemma affected_closure_reach:
  "set (affected_closure_with_deleted l prev seeds deleted) = (walk_rel l prev (set deleted))\<^sup>* `` set seeds"
proof
  show "set (affected_closure_with_deleted l prev seeds deleted) \<subseteq> (walk_rel l prev (set deleted))\<^sup>* `` set seeds"
    using closure_loop_upper [of l prev deleted "[]" seeds] by (simp add: affected_closure_with_deleted_def)
  show "(walk_rel l prev (set deleted))\<^sup>* `` set seeds \<subseteq> set (affected_closure_with_deleted l prev seeds deleted)"
    using closure_loop_lower [of "[]" l prev deleted seeds]
    by (intro rtrancl_image_closed) (auto simp: affected_closure_with_deleted_def)
qed

text \<open>The dependency relation of the edges: \<open>(t, s)\<close> when \<open>s\<close> depends on \<open>t\<close>.\<close>

definition dependents :: "edge set \<Rightarrow> (str \<times> str) set" where
  "dependents E = {(eg_target e, eg_source e) | e. e \<in> E \<and> is_dependency (eg_kind e)}"

text \<open>
  C10.  The affected set of a commit is exact: over reachable layers it is the set of ids
  reachable from the seeds by following dependency edges backwards, where the edges of the
  previous layer also count for the deleted ids.  Nothing that depends on a seed is missed,
  nothing else is reported, and the result is a sorted set.  The walk always ends.
\<close>

theorem affected_closure_exact:
  assumes "layer_reach l" "layer_reach prev"
  shows "set (affected_closure_with_deleted l prev seeds deleted)
           = (dependents (set (edges l)) \<union> {(i, s) \<in> dependents (set (edges prev)). i \<in> set deleted})\<^sup>* `` set seeds
    \<and> sorted_wrt (<) (affected_closure_with_deleted l prev seeds deleted)"
proof
  have "walk_rel l prev (set deleted)
      = dependents (set (edges l)) \<union> {(i, s) \<in> dependents (set (edges prev)). i \<in> set deleted}"
    using assms [THEN layer_reach_inv]
    by (auto simp: walk_rel_def layer_inv_def sources_in_exact dep_sources_def dependents_def)
  then show "set (affected_closure_with_deleted l prev seeds deleted)
      = (dependents (set (edges l)) \<union> {(i, s) \<in> dependents (set (edges prev)). i \<in> set deleted})\<^sup>* `` set seeds"
    by (simp add: affected_closure_reach)
  show "sorted_wrt (<) (affected_closure_with_deleted l prev seeds deleted)"
    using closure_loop_sorted [of "[]" l prev deleted seeds]
    by (simp add: affected_closure_with_deleted_def bs_inv_def)
qed

text \<open>
  The sample layer has lost its node \<open>b\<close> in the next layer (no edges there): the dependents of
  the deleted \<open>b\<close> come from the previous layer, one step only, since \<open>a\<close> itself is not deleted.
\<close>

theorem affected_closure_exact_witness:
  "affected_closure_with_deleted code_layer_new sample_layer [''b''] [''b''] = [''a'', ''b'']
   \<and> set (affected_closure_with_deleted sample_layer sample_layer [''b''] [])
       = (dependents (set (edges sample_layer)) \<union> {(i, s) \<in> dependents (set (edges sample_layer)). i \<in> set []})\<^sup>* `` {''b''}"
proof
  show "affected_closure_with_deleted code_layer_new sample_layer [''b''] [''b''] = [''a'', ''b'']" by code_simp
qed (use affected_closure_exact [OF sample_layer_reach sample_layer_reach, of "[''b'']" "[]"] in simp)


section \<open>Replaying a delta\<close>

text \<open>
  What a consumer that holds the previous layer makes of a delta.  The view of a node is its
  structural fields and its location; the remaining fields are cosmetic in the contract of
  the delta.
\<close>

type_synonym node_view = "str \<times> str \<times> str \<times> str option \<times> bool \<times> str \<times> range_dto"

definition view_node :: "node_data \<Rightarrow> node_view" where
  "view_node n = (n_name n, n_qualified_name n, n_kind n, n_content_hash n, n_external n, n_file n, n_range n)"

definition view_dto :: "code_node_dto \<Rightarrow> node_view" where
  "view_dto n = (cn_name n, cn_qualified_name n, cn_kind n, cn_content_hash n, cn_external n, cn_file n, cn_range n)"

definition relocate :: "code_node_moved_dto \<Rightarrow> node_view \<Rightarrow> node_view" where
  "relocate m v = (case v of (a, b, c, h, x, _, _) \<Rightarrow> (a, b, c, h, x, cm_file m, cm_range m))"

definition replay_nodes :: "code_delta \<Rightarrow> (str \<rightharpoonup> node_view) \<Rightarrow> (str \<rightharpoonup> node_view)" where
  "replay_nodes d v i =
     (case find (\<lambda>n. cn_durable_id n = i) (nodes_upserted d) of
        Some n \<Rightarrow> Some (view_dto n)
      | None \<Rightarrow>
          (case find (\<lambda>m. cm_durable_id m = i) (nodes_moved d) of
             Some m \<Rightarrow> map_option (relocate m) (v i)
           | None \<Rightarrow> if i \<in> set (nodes_removed d) then None else v i))"

definition replay_edges :: "code_delta \<Rightarrow> code_edge_dto set \<Rightarrow> code_edge_dto set" where
  "replay_edges d E = (E - set (edges_removed d)) \<union> set (edges_added d)"

definition layer_view :: "code_layer \<Rightarrow> (str \<rightharpoonup> node_view)" where
  "layer_view l i = map_option view_node (map_of (nodes l) i)"

definition delta_ids :: "code_delta \<Rightarrow> str set" where
  "delta_ids d = cn_durable_id ` set (nodes_upserted d) \<union> cm_durable_id ` set (nodes_moved d) \<union> set (nodes_removed d)"

lemma edge_kind_str_inject: "edge_kind_str a = edge_kind_str b \<longleftrightarrow> a = b"
  by (cases a; cases b) simp_all

lemma tuple_to_range_inject: "tuple_to_range a = tuple_to_range b \<longleftrightarrow> a = b"
  by (cases a; cases b) (auto simp: tuple_to_range_def)

lemma edge_to_dto_inject: "edge_to_dto a = edge_to_dto b \<longleftrightarrow> a = b"
proof
  assume "edge_to_dto a = edge_to_dto b"
  moreover have "map_option tuple_to_range x = map_option tuple_to_range y \<Longrightarrow> x = y" for x y
    by (rule option.inj_map_strong [of x y tuple_to_range]) (simp_all add: tuple_to_range_inject)
  ultimately show "a = b" by (cases a; cases b) (auto simp: edge_to_dto_def edge_kind_str_inject)
qed simp

lemma upserted_ids:
  "cn_durable_id ` set (nodes_upserted (diff_from l prev rv rescan)) = {i. \<exists>n. (i, n) \<in> set (nodes l) \<and> needs_upsert prev i n}"
  by (force simp: diff_from_def node_to_dto_def image_Union)

lemma moved_ids:
  "cm_durable_id ` set (nodes_moved (diff_from l prev rv rescan)) = {i. \<exists>n. (i, n) \<in> set (nodes l) \<and> has_moved prev i n}"
  by (force simp: diff_from_def moved_to_dto_def image_Union)

lemma removed_ids:
  "set (nodes_removed (diff_from l prev rv rescan)) = dom (map_of (nodes prev)) - dom (map_of (nodes l))"
  by (auto simp: diff_from_def dom_map_of_conv_image_fst map_of_eq_None_iff)

lemma find_entries:
  assumes "distinct (map fst m)" "\<And>k n. key (mk k n) = k"
  shows "find (\<lambda>d. key d = i) [mk k n. (k, n) \<leftarrow> m, P k n] =
    (case map_of m i of None \<Rightarrow> None | Some n \<Rightarrow> if P i n then Some (mk i n) else None)"
  using assms(1)
proof (induction m)
  case (Cons p m)
  obtain k n where p: "p = (k, n)" by (cases p)
  have "map_of m k = None" using Cons.prems p by (simp add: map_of_eq_None_iff)
  with Cons p show ?case by (cases "k = i") (auto simp: assms(2))
qed simp

lemma find_upserted:
  "bt_inv (nodes l) \<Longrightarrow> find (\<lambda>n. cn_durable_id n = i) (nodes_upserted (diff_from l prev rv rescan)) =
    (case map_of (nodes l) i of None \<Rightarrow> None | Some n \<Rightarrow> if needs_upsert prev i n then Some (node_to_dto i n) else None)"
  unfolding diff_from_def code_delta.simps by (rule find_entries) (simp_all add: bt_inv_distinct node_to_dto_def)

lemma find_moved:
  "bt_inv (nodes l) \<Longrightarrow> find (\<lambda>m. cm_durable_id m = i) (nodes_moved (diff_from l prev rv rescan)) =
    (case map_of (nodes l) i of None \<Rightarrow> None | Some n \<Rightarrow> if has_moved prev i n then Some (moved_to_dto i n) else None)"
  unfolding diff_from_def code_delta.simps by (rule find_entries) (simp_all add: bt_inv_distinct moved_to_dto_def)

lemma replay_nodes_diff:
  assumes "bt_inv (nodes l)"
  shows "replay_nodes (diff_from l prev rv rescan) (layer_view prev) i = layer_view l i"
proof (cases "map_of (nodes l) i")
  case None
  then show ?thesis
    using assms by (cases "map_of (nodes prev) i")
      (auto simp: replay_nodes_def find_upserted find_moved removed_ids layer_view_def)
next
  case (Some n)
  then show ?thesis
    using assms by (cases "map_of (nodes prev) i")
      (auto simp: replay_nodes_def find_upserted find_moved removed_ids layer_view_def needs_upsert_def has_moved_def
         view_node_def view_dto_def node_to_dto_def moved_to_dto_def relocate_def structurally_same_def)
qed

lemma delta_ids_diff:
  assumes "bt_inv (nodes l)" "bt_inv (nodes prev)"
  shows "i \<in> delta_ids (diff_from l prev rv rescan) \<longleftrightarrow> layer_view l i \<noteq> layer_view prev i"
proof -
  have "i \<in> delta_ids (diff_from l prev rv rescan) \<longleftrightarrow>
      (\<exists>n. map_of (nodes l) i = Some n \<and> (needs_upsert prev i n \<or> has_moved prev i n))
      \<or> (map_of (nodes prev) i \<noteq> None \<and> map_of (nodes l) i = None)"
    using assms(1) unfolding delta_ids_def upserted_ids moved_ids removed_ids
    by (auto simp: bt.entry_iff dom_def)
  then show ?thesis
    by (cases "map_of (nodes l) i"; cases "map_of (nodes prev) i")
      (simp_all add: layer_view_def view_node_def needs_upsert_def has_moved_def structurally_same_def, metis)
qed

text \<open>
  C29.  The delta between two layers is sound and minimal.  Replaying it on the structural view of
  the previous layer gives that of the next one, nodes and edges; and it mentions exactly the
  ids whose view differs, so an unchanged entity never appears in it.  With an empty previous
  layer it is therefore a full description of the next one.
\<close>

theorem diff_replays:
  assumes "layer_reach l" "layer_reach prev"
  shows "replay_nodes (diff_from l prev rv rescan) (layer_view prev) = layer_view l
    \<and> replay_edges (diff_from l prev rv rescan) (edge_to_dto ` set (edges prev)) = edge_to_dto ` set (edges l)
    \<and> delta_ids (diff_from l prev rv rescan) = {i. layer_view l i \<noteq> layer_view prev i}"
proof -
  have inv: "bt_inv (nodes l)" "bt_inv (nodes prev)"
    using assms [THEN layer_reach_inv] by (simp_all add: layer_inv_def)
  have "replay_edges (diff_from l prev rv rescan) (edge_to_dto ` set (edges prev)) = edge_to_dto ` set (edges l)"
    by (auto simp: replay_edges_def diff_from_def edge_to_dto_inject image_iff)
  then show ?thesis using inv by (auto simp: replay_nodes_diff delta_ids_diff)
qed

definition sample_node :: "str \<Rightarrow> node_data" where
  "sample_node f = \<lparr>n_name = ''C'', n_qualified_name = ''C'', n_kind = ''class_'', n_file = f,
     n_range = Range (Position 1 1) (Position 2 1), n_name_range = None, n_content_hash = Some ''ab'',
     n_content_hashes = [], n_external = False, n_package = None\<rparr>"

definition moved_layer :: "str \<Rightarrow> code_layer" where
  "moved_layer f = snd (add_edge (ref_edge ''m'' ''c'') (upsert_node ''c'' (sample_node f) code_layer_new))"

theorem diff_replays_witness:
  "replay_nodes (diff_from (moved_layer ''b.py'') (moved_layer ''a.py'') 2 False) (layer_view (moved_layer ''a.py''))
     = layer_view (moved_layer ''b.py'')
   \<and> nodes_moved (diff_from (moved_layer ''b.py'') (moved_layer ''a.py'') 2 False)
     = [\<lparr>cm_durable_id = ''c'', cm_file = ''b.py'', cm_range = Range (Position 1 1) (Position 2 1), cm_name_range = None\<rparr>]
   \<and> nodes_upserted (diff_from (moved_layer ''b.py'') (moved_layer ''a.py'') 2 False) = []"
proof (intro conjI)
  have "layer_reach (moved_layer f)" for f by (simp add: moved_layer_def layer_reach.intros)
  then show "replay_nodes (diff_from (moved_layer ''b.py'') (moved_layer ''a.py'') 2 False) (layer_view (moved_layer ''a.py''))
     = layer_view (moved_layer ''b.py'')" using diff_replays by blast
qed code_simp+

end
