(* ===== verification/Builder.thy ===== *)
theory Builder
  imports CodeLayer Paths
begin

text \<open>
  The code-layer producer (\<open>rust/src/code_layer.rs\<close>, second half): the six-pass builder, in its
  full form (\<open>build\<close>) and in its scoped form (\<open>build_scoped\<close>) over a seeded layer.

  The analysis engine behind \<open>compute_files\<close>, \<open>compute_document_symbols\<close>,
  \<open>compute_file_occurrences\<close>, \<open>compute_supertypes\<close> and \<open>compute_navigate\<close> is the record
  \<open>engine\<close>, a parameter of every pass: it is asked by path and position and may fail.  The
  builder's own state is the record \<open>builder\<close>.  Of the analysis DTOs the records keep the
  fields the producer reads, and all of a symbol's and an occurrence's (not \<open>detail\<close> or the
  ranges of a supertype).  A \<open>HashSet\<close> that is iterated (the dirty set) is a list, whose
  order is arbitrary.
\<close>

section \<open>The analysis surface\<close>

datatype symbol_kind_dto =
    KModule | KClass | KFunction | KMethod | KConstructor | KVariable | KConstant | KField
  | KParameter | KProperty | KTypeParameter | KImport | KUnknown

datatype reference_role = RoleRead | RoleWrite | RoleImport | RoleDefinition | RoleOther

record symbol_dto =
  sy_name :: str
  sy_qualified_name :: "str option"
  sy_kind :: symbol_kind_dto
  sy_path :: path
  sy_range :: range_dto
  sy_selection_range :: "range_dto option"
  sy_container_name :: "str option"
  sy_deprecated :: bool
  sy_durable_id :: "str option"
  sy_content_hash :: "str option"
  sy_content_hashes :: "(str, str) hash_map"

record occurrence =
  oc_range :: range_dto
  oc_name :: "str option"
  oc_target_file :: "str option"
  oc_target_name :: "str option"
  oc_target_qualified_name :: "str option"
  oc_role :: reference_role

record hierarchy_item =
  hi_name :: str
  hi_path :: str

record engine =
  en_root :: str
  en_files :: "str list"
  en_symbols :: "str \<Rightarrow> (str, symbol_dto list) result"
  en_occurrences :: "str \<Rightarrow> (str, occurrence list) result"
  en_supertypes :: "str \<Rightarrow> u32 \<Rightarrow> u32 \<Rightarrow> (str, hierarchy_item list) result"
  en_goto :: "str \<Rightarrow> u32 \<Rightarrow> u32 \<Rightarrow> (str, str list) result"

fun symbol_kind_str :: "symbol_kind_dto \<Rightarrow> str" where
  "symbol_kind_str KModule = ''module''"
| "symbol_kind_str KClass = ''class_''"
| "symbol_kind_str KFunction = ''function''"
| "symbol_kind_str KMethod = ''method''"
| "symbol_kind_str KConstructor = ''constructor''"
| "symbol_kind_str KVariable = ''variable''"
| "symbol_kind_str KConstant = ''constant''"
| "symbol_kind_str KField = ''field''"
| "symbol_kind_str KParameter = ''parameter''"
| "symbol_kind_str KProperty = ''property''"
| "symbol_kind_str KTypeParameter = ''type_parameter''"
| "symbol_kind_str KImport = ''import_''"
| "symbol_kind_str KUnknown = ''unknown''"

fun role_str :: "reference_role \<Rightarrow> str" where
  "role_str RoleRead = ''read''"
| "role_str RoleWrite = ''write''"
| "role_str RoleImport = ''import''"
| "role_str RoleDefinition = ''definition''"
| "role_str RoleOther = ''other''"

definition module_range :: range_dto where
  "module_range = Range (Position 1 1) (Position 1 1)"

definition rsplit_once :: "str \<Rightarrow> str \<Rightarrow> (str \<times> str) option" where
  "rsplit_once sep s = map_option (\<lambda>i. (take i s, drop (i + length sep) s)) (rfind_sub sep s)"

definition file_stem :: "str \<Rightarrow> str" where
  "file_stem f =
     (let base = last (split_char (CHR ''/'') f)
      in case rsplit_once ''.'' base of
           Some (stem, _) \<Rightarrow> if stem \<noteq> [] then stem else base
         | None \<Rightarrow> base)"

text \<open>The loop over the path parts after a virtual environment directory.\<close>

fun after_site_packages :: "str list \<Rightarrow> str option" where
  "after_site_packages (part # next # parts) =
     (if part = ''site-packages'' then Some next else after_site_packages (next # parts))"
| "after_site_packages _ = None"

definition venv_package :: "str \<Rightarrow> str \<Rightarrow> str option" where
  "venv_package sep file_path =
     (case split_once sep file_path of
        None \<Rightarrow> None
      | Some (_, rest) \<Rightarrow>
          let parts = split_char (CHR ''/'') rest
          in if 2 < length parts \<and> hd parts = ''lib'' then after_site_packages parts else None)"

definition site_package :: "str \<Rightarrow> str option" where
  "site_package file_path =
     (case split_once ''site-packages/'' file_path of
        None \<Rightarrow> None
      | Some (_, rest) \<Rightarrow>
          let first = hd (split_char (CHR ''/'') rest)
          in if first \<noteq> [] then Some first else None)"

definition infer_package :: "str \<Rightarrow> str option" where
  "infer_package file_path =
     (case site_package file_path of
        Some p \<Rightarrow> Some p
      | None \<Rightarrow>
          if contains_sub ''/lib/python'' file_path \<or> contains_sub ''typeshed'' file_path then Some ''stdlib''
          else
            (case venv_package ''/.venv/'' file_path of
               Some p \<Rightarrow> Some p
             | None \<Rightarrow> venv_package ''/venv/'' file_path))"

section \<open>The builder\<close>

type_synonym range_entry = "u32 \<times> u32 \<times> u32 \<times> u32 \<times> str"

record builder =
  b_layer :: code_layer
  name_to_id :: "str \<times> str \<rightharpoonup> str"
  file_to_nodes :: "(str, str list) hash_map"
  range_cache :: "str \<rightharpoonup> range_entry list"
  project_files :: "str set"

definition builder_new :: builder where
  "builder_new = \<lparr>b_layer = code_layer_new, name_to_id = Map.empty, file_to_nodes = [],
     range_cache = Map.empty, project_files = {}\<rparr>"

definition has_node :: "builder \<Rightarrow> str \<Rightarrow> bool" where
  "has_node b i \<longleftrightarrow> map_of (nodes (b_layer b)) i \<noteq> None"

definition ids_of_file :: "builder \<Rightarrow> str \<Rightarrow> str list" where
  "ids_of_file b f = (case map_of (file_to_nodes b) f of None \<Rightarrow> [] | Some ids \<Rightarrow> ids)"

definition push_file_node :: "str \<Rightarrow> str \<Rightarrow> builder \<Rightarrow> builder" where
  "push_file_node f i b = b\<lparr>file_to_nodes := AList.update f (ids_of_file b f @ [i]) (file_to_nodes b)\<rparr>"

definition to_graph_path :: "str \<Rightarrow> str \<Rightarrow> str" where
  "to_graph_path root native =
     (case strip_prefix root native of
        None \<Rightarrow> native
      | Some rest \<Rightarrow>
          let rest' = (case strip_prefix ''/'' rest of None \<Rightarrow> rest | Some r \<Rightarrow> r)
          in if rest' \<noteq> [] then rest' else native)"

definition normalize_target :: "engine \<Rightarrow> builder \<Rightarrow> str \<Rightarrow> str" where
  "normalize_target en b native =
     (let candidate = to_graph_path (en_root en) native
      in if candidate \<in> project_files b then candidate else native)"

definition register_name :: "str \<Rightarrow> str \<Rightarrow> str \<Rightarrow> builder \<Rightarrow> builder" where
  "register_name f name i b =
     (case name_to_id b (f, name) of
        None \<Rightarrow> b\<lparr>name_to_id := (name_to_id b)((f, name) \<mapsto> i)\<rparr>
      | Some existing \<Rightarrow> if existing = i then b else b\<lparr>name_to_id := (name_to_id b)((f, name) \<mapsto> [])\<rparr>)"

definition upsert :: "str \<Rightarrow> node_data \<Rightarrow> builder \<Rightarrow> builder" where
  "upsert i n b = b\<lparr>b_layer := upsert_node i n (b_layer b)\<rparr>"

definition module_node :: "str \<Rightarrow> node_data" where
  "module_node f = \<lparr>n_name = file_stem f, n_qualified_name = module_qualified_name, n_kind = ''module'',
     n_file = f, n_range = module_range, n_name_range = None, n_content_hash = None,
     n_content_hashes = [], n_external = False, n_package = None\<rparr>"

definition symbol_qn :: "symbol_dto \<Rightarrow> str" where
  "symbol_qn s = (case sy_qualified_name s of Some q \<Rightarrow> q | None \<Rightarrow> sy_name s)"

definition symbol_node :: "str \<Rightarrow> symbol_dto \<Rightarrow> node_data" where
  "symbol_node f s = \<lparr>n_name = sy_name s, n_qualified_name = symbol_qn s,
     n_kind = symbol_kind_str (sy_kind s), n_file = f, n_range = sy_range s,
     n_name_range = sy_selection_range s, n_content_hash = sy_content_hash s,
     n_content_hashes = fold (\<lambda>(k, v). bt_insert k v) (sy_content_hashes s) [], n_external = False, n_package = None\<rparr>"

definition materialize_module :: "str \<Rightarrow> builder \<Rightarrow> builder" where
  "materialize_module f b =
     (let i = make_module_durable_id f
      in if has_node b i then b
         else push_file_node f i
                ((upsert i (module_node f) b)\<lparr>name_to_id := (name_to_id b)((f, module_qualified_name) \<mapsto> i)\<rparr>))"

definition materialize_symbol :: "str \<Rightarrow> symbol_dto \<Rightarrow> builder \<Rightarrow> builder" where
  "materialize_symbol f s b =
     (case sy_durable_id s of
        None \<Rightarrow> b
      | Some i \<Rightarrow>
          if has_node b i then b
          else push_file_node f i (register_name f (symbol_qn s) i (register_name f (sy_name s) i
                 (upsert i (symbol_node f s) b))))"

definition materialize_file_nodes :: "str \<Rightarrow> symbol_dto list \<Rightarrow> builder \<Rightarrow> builder" where
  "materialize_file_nodes f symbols b = fold (materialize_symbol f) symbols (materialize_module f b)"

definition stub_node :: "str \<Rightarrow> str \<Rightarrow> str \<Rightarrow> str \<Rightarrow> node_data" where
  "stub_node name qualified_name kind package = \<lparr>n_name = name, n_qualified_name = qualified_name, n_kind = kind,
     n_file = external_marker, n_range = module_range, n_name_range = None, n_content_hash = None,
     n_content_hashes = [], n_external = True, n_package = Some package\<rparr>"

definition add_stub_node :: "str \<Rightarrow> str \<Rightarrow> str \<Rightarrow> str \<Rightarrow> str \<Rightarrow> builder \<Rightarrow> builder" where
  "add_stub_node i name qualified_name kind package b =
     (if has_node b i then b else upsert i (stub_node name qualified_name kind package) b)"

definition node_named :: "builder \<Rightarrow> str \<Rightarrow> str \<Rightarrow> bool" where
  "node_named b name i =
     (case map_of (nodes (b_layer b)) i of
        None \<Rightarrow> False
      | Some n \<Rightarrow> n_name n = name \<or> n_qualified_name n = name)"

definition find_symbol_in_file :: "builder \<Rightarrow> str \<Rightarrow> str \<Rightarrow> str option" where
  "find_symbol_in_file b f name =
     (case name_to_id b (f, name) of
        None \<Rightarrow> find (node_named b name) (ids_of_file b f)
      | Some cached \<Rightarrow> if cached \<noteq> [] then Some cached else find (node_named b name) (ids_of_file b f))"

definition try_add_edge ::
  "str \<Rightarrow> str \<Rightarrow> edge_kind \<Rightarrow> str option \<Rightarrow> str option \<Rightarrow> range_tuple option \<Rightarrow> builder \<Rightarrow> builder" where
  "try_add_edge s t kind role f r b =
     (if \<not> has_node b s \<or> \<not> has_node b t then b
      else b\<lparr>b_layer := snd (add_edge (Edge s t kind role f r) (b_layer b))\<rparr>)"

definition containment_edge :: "str \<Rightarrow> symbol_dto \<Rightarrow> builder \<Rightarrow> builder" where
  "containment_edge f s b =
     (case sy_durable_id s of
        None \<Rightarrow> b
      | Some i \<Rightarrow>
          let module_id = make_module_durable_id f;
              parent_id = (case sy_container_name s of
                             None \<Rightarrow> module_id
                           | Some cn \<Rightarrow> (case find_symbol_in_file b f cn of Some p \<Rightarrow> p | None \<Rightarrow> module_id))
          in if has_node b parent_id
             then try_add_edge parent_id i (if parent_id = module_id then Defines else Contains) None None None b
             else b)"

definition add_containment_edges :: "str \<Rightarrow> symbol_dto list \<Rightarrow> builder \<Rightarrow> builder" where
  "add_containment_edges f symbols b = fold (containment_edge f) symbols b"

text \<open>
  The span subtraction is on \<open>u32\<close>; it wraps, as in an optimised build, when a range ends
  before it starts.
\<close>

definition span_key :: "range_entry \<Rightarrow> u32 \<times> u32" where
  "span_key e = (case e of (sl, sc, el, ec, _) \<Rightarrow> (el - sl, ec))"

definition range_entries :: "builder \<Rightarrow> str \<Rightarrow> range_entry list" where
  "range_entries b f = List.map_filter (\<lambda>i.
     case map_of (nodes (b_layer b)) i of
       None \<Rightarrow> None
     | Some n \<Rightarrow>
         if n_kind n = ''module'' then None
         else Some (pos_line (range_start (n_range n)), pos_column (range_start (n_range n)),
                    pos_line (range_end (n_range n)), pos_column (range_end (n_range n)), i)) (ids_of_file b f)"

definition build_range_cache :: "str \<Rightarrow> builder \<Rightarrow> builder" where
  "build_range_cache f b = b\<lparr>range_cache := (range_cache b)(f \<mapsto> sort_key span_key (range_entries b f))\<rparr>"

definition entry_encloses :: "range_dto \<Rightarrow> range_entry \<Rightarrow> bool" where
  "entry_encloses r e =
     (case e of (sl, sc, el, ec, _) \<Rightarrow>
        (sl, sc) \<le> (pos_line (range_start r), pos_column (range_start r))
        \<and> (el, ec) \<ge> (pos_line (range_end r), pos_column (range_end r)))"

definition entry_id :: "range_entry \<Rightarrow> str" where
  "entry_id e = (case e of (_, _, _, _, i) \<Rightarrow> i)"

definition find_enclosing_symbol :: "builder \<Rightarrow> str \<Rightarrow> range_dto \<Rightarrow> str option" where
  "find_enclosing_symbol b f r =
     (case find (entry_encloses r) (case range_cache b f of None \<Rightarrow> [] | Some cache \<Rightarrow> cache) of
        Some e \<Rightarrow> Some (entry_id e)
      | None \<Rightarrow>
          let module_id = make_module_durable_id f
          in if has_node b module_id then Some module_id else None)"

definition ensure_external_target :: "str \<Rightarrow> str \<Rightarrow> builder \<Rightarrow> str option \<times> builder" where
  "ensure_external_target target_file target_name b =
     (if target_file \<in> project_files b then (None, b)
      else
        let package = infer_package target_file;
            ext_did = make_external_symbol_id (case package of Some p \<Rightarrow> p | None \<Rightarrow> target_file) target_name
        in (Some ext_did,
            add_stub_node ext_did target_name target_name ''unknown''
              (case package of Some p \<Rightarrow> p | None \<Rightarrow> ''unknown'') b))"

definition add_import_edge :: "str \<Rightarrow> str \<Rightarrow> range_dto \<Rightarrow> builder \<Rightarrow> builder" where
  "add_import_edge source_file target_file r b =
     (let source_module = make_module_durable_id source_file;
          target_module = make_module_durable_id target_file;
          link = (\<lambda>t. try_add_edge source_module t Imports None (Some source_file) (Some (to_range_tuple r)))
      in if \<not> has_node b source_module then b
         else if has_node b target_module then link target_module b
         else if target_file \<in> project_files b then b
         else
           let package = (case infer_package target_file of Some p \<Rightarrow> p | None \<Rightarrow> ''unknown'');
               ext = make_external_module_id package
           in link ext (add_stub_node ext package module_qualified_name ''module'' package b))"

definition resolve_import_via_goto :: "engine \<Rightarrow> str \<Rightarrow> str \<Rightarrow> range_dto \<Rightarrow> builder \<Rightarrow> builder" where
  "resolve_import_via_goto en native_file f r b =
     (case en_goto en native_file (pos_line (range_start r)) (pos_column (range_start r)) of
        Inl _ \<Rightarrow> b
      | Inr [] \<Rightarrow> b
      | Inr (target # _) \<Rightarrow>
          let target_file = normalize_target en b target
          in if target_file \<noteq> f then add_import_edge f target_file r b else b)"

text \<open>
  One occurrence: the target is looked up, or stubbed when it is outside the project; then the
  edges from the enclosing symbol and between the modules are added.
\<close>

definition occurrence_target :: "occurrence \<Rightarrow> str \<Rightarrow> str \<Rightarrow> builder \<Rightarrow> str option \<times> builder" where
  "occurrence_target oc target_file target_name b =
     (let by_qn = (case oc_target_qualified_name oc of
                     None \<Rightarrow> None | Some qn \<Rightarrow> find_symbol_in_file b target_file qn);
          by_name = (case by_qn of Some t \<Rightarrow> Some t | None \<Rightarrow> find_symbol_in_file b target_file target_name)
      in case by_name of
           Some t \<Rightarrow> (Some t, b)
         | None \<Rightarrow>
             if target_file \<in> project_files b then (None, b)
             else ensure_external_target target_file target_name b)"

definition link_occurrence :: "str \<Rightarrow> occurrence \<Rightarrow> str \<Rightarrow> str \<Rightarrow> builder \<Rightarrow> builder" where
  "link_occurrence f oc target_file target_did b =
     (case find_enclosing_symbol b f (oc_range oc) of
        None \<Rightarrow> b
      | Some enclosing_id \<Rightarrow>
          if enclosing_id = target_did then b
          else
            let import = (\<lambda>b. if target_file \<noteq> f then add_import_edge f target_file (oc_range oc) b else b)
            in if oc_role oc = RoleImport then import b
               else import (try_add_edge enclosing_id target_did References (Some (role_str (oc_role oc)))
                              (Some f) (Some (to_range_tuple (oc_range oc))) b))"

definition resolve_occurrence :: "engine \<Rightarrow> str \<Rightarrow> str \<Rightarrow> occurrence \<Rightarrow> builder \<Rightarrow> builder" where
  "resolve_occurrence en f native_file oc b =
     (if oc_role oc = RoleImport \<and> oc_target_file oc = None
      then resolve_import_via_goto en native_file f (oc_range oc) b
      else
        (case (oc_target_file oc, oc_target_name oc) of
           (Some target_file_raw, Some target_name) \<Rightarrow>
             let target_file = normalize_target en b target_file_raw
             in (case occurrence_target oc target_file target_name b of
                   (None, b') \<Rightarrow> b'
                 | (Some t, b') \<Rightarrow> link_occurrence f oc target_file t b')
         | _ \<Rightarrow> b))"

definition resolve_references :: "engine \<Rightarrow> str \<Rightarrow> str \<Rightarrow> builder \<Rightarrow> builder" where
  "resolve_references en f native_file b =
     (case en_occurrences en native_file of
        Inl _ \<Rightarrow> b
      | Inr occurrences \<Rightarrow> fold (resolve_occurrence en f native_file) occurrences b)"


text \<open>Inheritance, first pass: every class asks the engine for its supertypes.\<close>

definition super_target :: "str \<Rightarrow> hierarchy_item \<Rightarrow> builder \<Rightarrow> str option \<times> builder" where
  "super_target super_file item b =
     (case find_symbol_in_file b super_file (hi_name item) of
        Some t \<Rightarrow> (Some t, b)
      | None \<Rightarrow>
          let package = (case infer_package super_file of
                           Some p \<Rightarrow> Some p
                         | None \<Rightarrow> if map_of (file_to_nodes b) super_file = None then Some ''unknown'' else None)
          in (case package of
                None \<Rightarrow> (None, b)
              | Some pkg \<Rightarrow>
                  let ext_did = make_external_symbol_id pkg (hi_name item)
                  in (Some ext_did,
                      add_stub_node ext_did (hi_name item) (pkg @ ''.'' @ hi_name item) ''class_'' pkg b)))"

definition inherit_edge :: "engine \<Rightarrow> str \<Rightarrow> hierarchy_item \<Rightarrow> builder \<Rightarrow> builder" where
  "inherit_edge en i item b =
     (case super_target (normalize_target en b (hi_path item)) item b of
        (None, b') \<Rightarrow> b'
      | (Some t, b') \<Rightarrow> try_add_edge i t Inherits None None None b')"

definition inherits_symbol :: "engine \<Rightarrow> str \<Rightarrow> symbol_dto \<Rightarrow> builder \<Rightarrow> builder" where
  "inherits_symbol en native_file s b =
     (if sy_kind s \<noteq> KClass then b
      else
        (case sy_durable_id s of
           None \<Rightarrow> b
         | Some i \<Rightarrow>
             let cursor = range_start (case sy_selection_range s of Some r \<Rightarrow> r | None \<Rightarrow> sy_range s)
             in (case en_supertypes en native_file (pos_line cursor) (pos_column cursor) of
                   Inl _ \<Rightarrow> b
                 | Inr supertypes \<Rightarrow> fold (inherit_edge en i) supertypes b)))"

definition inherits_pass :: "engine \<Rightarrow> str \<Rightarrow> str \<Rightarrow> symbol_dto list \<Rightarrow> builder \<Rightarrow> builder" where
  "inherits_pass en f native_file symbols b = fold (inherits_symbol en native_file) symbols b"

text \<open>Second pass: methods by name across the inheritance chain, breadth first.\<close>

definition children_of :: "code_layer \<Rightarrow> str \<Rightarrow> str list" where
  "children_of l i =
     rev (fold (\<lambda>e out.
       if eg_source e = i \<and> (eg_kind e = Defines \<or> eg_kind e = Contains) \<and> eg_target e \<notin> set out
       then eg_target e # out else out) (edges l) [])"

definition parents_of :: "code_layer \<Rightarrow> str \<Rightarrow> str list" where
  "parents_of l i = map eg_target (filter (\<lambda>e. eg_source e = i \<and> eg_kind e = Inherits) (edges l))"

definition note_method :: "code_layer \<Rightarrow> str \<Rightarrow> (str \<rightharpoonup> str) \<Rightarrow> (str \<rightharpoonup> str)" where
  "note_method l child methods =
     (case map_of (nodes l) child of
        None \<Rightarrow> methods
      | Some n \<Rightarrow>
          if (n_kind n = ''method'' \<or> n_kind n = ''constructor'') \<and> methods (n_name n) = None
          then methods(n_name n \<mapsto> child) else methods)"

definition visit_parent ::
  "code_layer \<Rightarrow> str \<Rightarrow> str set \<times> str list \<times> (str \<rightharpoonup> str) \<Rightarrow> str set \<times> str list \<times> (str \<rightharpoonup> str)" where
  "visit_parent l parent st =
     (case st of (visited, queue, methods) \<Rightarrow>
        (insert parent visited,
         (if parent \<in> visited then queue else queue @ [parent]),
         fold (note_method l) (children_of l parent) methods))"

lemma visit_parent_eq:
  "visit_parent l p (visited, queue, methods) =
     (insert p visited, (if p \<in> visited then queue else queue @ [p]), fold (note_method l) (children_of l p) methods)"
  by (simp add: visit_parent_def)

definition open_targets :: "code_layer \<Rightarrow> str set \<Rightarrow> nat" where
  "open_targets l visited = card (eg_target ` set (edges l) - visited)"

lemma visit_parents_measure:
  assumes "set ps \<subseteq> eg_target ` set (edges l)"
    and "fold (visit_parent l) ps (visited, queue, methods) = (visited', queue', methods')"
  shows "open_targets l visited' + length queue' \<le> open_targets l visited + length queue"
  using assms
proof (induction ps arbitrary: visited queue methods)
  case (Cons p ps)
  let ?T = "eg_target ` set (edges l)"
  let ?q = "if p \<in> visited then queue else queue @ [p]"
  have step: "open_targets l (insert p visited) + length ?q \<le> open_targets l visited + length queue"
  proof (cases "p \<in> visited")
    case True
    then show ?thesis by (simp add: insert_absorb)
  next
    case False
    have "?T - insert p visited \<subset> ?T - visited" using False Cons.prems(1) by auto
    then have "card (?T - insert p visited) < card (?T - visited)" by (intro psubset_card_mono) auto
    with False show ?thesis by (simp add: open_targets_def)
  qed
  have "fold (visit_parent l) ps (insert p visited, ?q, fold (note_method l) (children_of l p) methods)
      = (visited', queue', methods')"
    using Cons.prems(2) by (simp add: visit_parent_eq)
  from Cons.IH [OF _ this] Cons.prems(1) step show ?case by auto
qed simp

lemma parents_of_sub: "set (parents_of l i) \<subseteq> eg_target ` set (edges l)"
  by (auto simp: parents_of_def)

function ancestor_loop ::
  "code_layer \<Rightarrow> str set \<Rightarrow> str list \<Rightarrow> (str \<rightharpoonup> str) \<Rightarrow> (str \<rightharpoonup> str)" where
  "ancestor_loop l visited [] methods = methods"
| "ancestor_loop l visited (current # queue) methods =
     (case fold (visit_parent l) (parents_of l current) (visited, queue, methods) of
        (visited', queue', methods') \<Rightarrow> ancestor_loop l visited' queue' methods')"
  by pat_completeness auto
termination
proof (relation "measure (\<lambda>(l, visited, queue, methods). open_targets l visited + length queue)", goal_cases)
  case (2 l visited current queue methods visited' rest queue' methods')
  then have "fold (visit_parent l) (parents_of l current) (visited, queue, methods) = (visited', queue', methods')"
    by simp
  from visit_parents_measure [OF parents_of_sub this] show ?case by simp
qed simp

definition ancestor_methods :: "code_layer \<Rightarrow> str \<Rightarrow> (str \<rightharpoonup> str)" where
  "ancestor_methods l i = ancestor_loop l {i} [i] Map.empty"

definition override_edge :: "(str \<rightharpoonup> str) \<Rightarrow> symbol_dto \<Rightarrow> builder \<Rightarrow> builder" where
  "override_edge methods m b =
     (case (methods (sy_name m), sy_durable_id m) of
        (Some parent, Some i) \<Rightarrow> try_add_edge i parent Overrides None None None b
      | _ \<Rightarrow> b)"

definition overrides_symbol :: "str \<Rightarrow> symbol_dto list \<Rightarrow> symbol_dto \<Rightarrow> builder \<Rightarrow> builder" where
  "overrides_symbol f symbols s b =
     (if sy_kind s \<noteq> KClass then b
      else
        (case find_symbol_in_file b f (symbol_qn s) of
           None \<Rightarrow> b
         | Some i \<Rightarrow>
             let child_methods = filter (\<lambda>m. (sy_kind m = KMethod \<or> sy_kind m = KConstructor)
                                    \<and> sy_container_name m = Some (sy_name s)) symbols
             in if child_methods = [] then b
                else fold (override_edge (ancestor_methods (b_layer b) i)) child_methods b))"

definition overrides_pass :: "str \<Rightarrow> symbol_dto list \<Rightarrow> builder \<Rightarrow> builder" where
  "overrides_pass f symbols b = fold (overrides_symbol f symbols) symbols b"

section \<open>The full build\<close>

record file_symbols =
  fs_graph_path :: str
  fs_native_path :: str
  fs_symbols :: "symbol_dto list"

definition sync_file_to_nodes :: "builder \<Rightarrow> builder" where
  "sync_file_to_nodes b =
     b\<lparr>b_layer := (b_layer b)\<lparr>layer_files := fold (\<lambda>(k, v). bt_insert k v) (file_to_nodes b) []\<rparr>\<rparr>"

definition collect_file ::
  "engine \<Rightarrow> str \<Rightarrow> builder \<times> file_symbols list \<Rightarrow> builder \<times> file_symbols list" where
  "collect_file en native_path st =
     (case st of (b, files) \<Rightarrow>
        let graph_path = to_graph_path (en_root en) native_path
        in if graph_path = native_path then (b, files)
           else
             let b' = b\<lparr>project_files := insert graph_path (project_files b)\<rparr>
             in (case en_symbols en native_path of
                   Inl _ \<Rightarrow> (b', files)
                 | Inr symbols \<Rightarrow>
                     (b', files @ [\<lparr>fs_graph_path = graph_path, fs_native_path = native_path, fs_symbols = symbols\<rparr>])))"

text \<open>Passes two to six, shared by the full and the scoped build.\<close>

definition materialize_all :: "file_symbols list \<Rightarrow> builder \<Rightarrow> builder" where
  "materialize_all files b = fold (\<lambda>x. materialize_file_nodes (fs_graph_path x) (fs_symbols x)) files b"

definition contain_all :: "file_symbols list \<Rightarrow> builder \<Rightarrow> builder" where
  "contain_all files b =
     fold (\<lambda>x b. build_range_cache (fs_graph_path x) (add_containment_edges (fs_graph_path x) (fs_symbols x) b)) files b"

definition link_all :: "engine \<Rightarrow> file_symbols list \<Rightarrow> builder \<Rightarrow> builder" where
  "link_all en files b =
     fold (\<lambda>x. overrides_pass (fs_graph_path x) (fs_symbols x)) files
       (fold (\<lambda>x. inherits_pass en (fs_graph_path x) (fs_native_path x) (fs_symbols x)) files
         (fold (\<lambda>x. resolve_references en (fs_graph_path x) (fs_native_path x)) files b))"

definition run_passes :: "engine \<Rightarrow> file_symbols list \<Rightarrow> builder \<Rightarrow> builder" where
  "run_passes en files b = link_all en files (contain_all files (materialize_all files b))"

definition build :: "engine \<Rightarrow> builder" where
  "build en =
     (case fold (collect_file en) (en_files en) (builder_new, []) of
        (b, files) \<Rightarrow> sync_file_to_nodes (run_passes en files b))"

definition produce_code_delta :: "engine \<Rightarrow> code_layer \<Rightarrow> nat \<Rightarrow> bool \<Rightarrow> code_layer \<times> code_delta" where
  "produce_code_delta en prev rv rescan =
     (let l = b_layer (build en) in (l, diff_from l prev rv (rescan \<or> layer_is_empty prev)))"

section \<open>The scoped build\<close>

definition replay_name :: "str \<Rightarrow> str \<Rightarrow> builder \<Rightarrow> builder" where
  "replay_name f i b =
     (case map_of (nodes (b_layer b)) i of
        None \<Rightarrow> b
      | Some n \<Rightarrow>
          if n_qualified_name n = module_qualified_name
          then b\<lparr>name_to_id := (name_to_id b)((f, module_qualified_name) \<mapsto> i)\<rparr>
          else register_name f (n_qualified_name n) i (register_name f (n_name n) i b))"

definition seeded :: "code_layer \<Rightarrow> builder" where
  "seeded prev =
     (let b = \<lparr>b_layer = prev, name_to_id = Map.empty, file_to_nodes = layer_files prev,
               range_cache = Map.empty, project_files = {}\<rparr>
      in fold (\<lambda>(f, ids) b. build_range_cache f (fold (replay_name f) ids b)) (layer_files prev) b)"

definition list_file ::
  "engine \<Rightarrow> str \<Rightarrow> builder \<times> (str \<rightharpoonup> str) \<Rightarrow> builder \<times> (str \<rightharpoonup> str)" where
  "list_file en native_path st =
     (case st of (b, current) \<Rightarrow>
        let graph_path = to_graph_path (en_root en) native_path
        in if graph_path = native_path then (b, current)
           else (b\<lparr>project_files := insert graph_path (project_files b)\<rparr>, current(graph_path \<mapsto> native_path)))"

definition expand_dirty :: "code_layer \<Rightarrow> str list \<Rightarrow> str list" where
  "expand_dirty l seed_dirty =
     (let seed_modules = make_module_durable_id ` set seed_dirty
      in fold (\<lambda>e dirty.
           if eg_kind e = Imports \<and> eg_target e \<in> seed_modules then
             (case map_of (nodes l) (eg_source e) of
                None \<Rightarrow> dirty
              | Some n \<Rightarrow> if n_file n \<noteq> [] \<and> n_file n \<noteq> external_marker then List.insert (n_file n) dirty else dirty)
           else dirty) (edges l) seed_dirty)"

definition drop_names :: "str \<Rightarrow> (str \<times> str \<rightharpoonup> str) \<Rightarrow> (str \<times> str \<rightharpoonup> str)" where
  "drop_names f m = (\<lambda>k. if fst k = f then None else m k)"

definition evict_file :: "str \<Rightarrow> builder \<Rightarrow> builder" where
  "evict_file f b =
     (let ids = ids_of_file b f;
          outgoing = filter (\<lambda>e. eg_source e \<in> set ids) (edges (b_layer b));
          l1 = fold (\<lambda>e l. snd (remove_edge e l)) outgoing (b_layer b);
          l2 = fold (\<lambda>i l. l\<lparr>nodes := bt_remove i (nodes l)\<rparr>) ids l1
      in b\<lparr>b_layer := l2, file_to_nodes := AList.delete f (file_to_nodes b),
           range_cache := (range_cache b)(f := None),
           name_to_id := drop_names f (name_to_id b)\<rparr>)"

definition gc_external_stubs :: "builder \<Rightarrow> builder" where
  "gc_external_stubs b =
     (let l = b_layer b;
          referenced = eg_target ` set (edges l);
          doomed = map fst (filter (\<lambda>(i, n). node_population n i = PopExternal \<and> i \<notin> referenced) (nodes l))
      in b\<lparr>b_layer := fold (\<lambda>i l. l\<lparr>nodes := bt_remove i (nodes l)\<rparr>) doomed l\<rparr>)"

definition collect_dirty :: "engine \<Rightarrow> (str \<rightharpoonup> str) \<Rightarrow> str list \<Rightarrow> file_symbols list" where
  "collect_dirty en current dirty =
     List.map_filter (\<lambda>g.
       case current g of
         None \<Rightarrow> None
       | Some native_path \<Rightarrow>
           (case en_symbols en native_path of
              Inl _ \<Rightarrow> None
            | Inr symbols \<Rightarrow>
                Some \<lparr>fs_graph_path = g, fs_native_path = native_path, fs_symbols = symbols\<rparr>))
       (sort (filter (\<lambda>f. current f \<noteq> None) dirty))"

definition rebuild_dirty :: "engine \<Rightarrow> (str \<rightharpoonup> str) \<Rightarrow> str list \<Rightarrow> builder \<Rightarrow> builder" where
  "rebuild_dirty en current dirty b =
     sync_file_to_nodes (gc_external_stubs (run_passes en (collect_dirty en current dirty) (fold evict_file dirty b)))"

definition build_scoped :: "engine \<Rightarrow> str list \<Rightarrow> builder \<Rightarrow> builder" where
  "build_scoped en seed_dirty b =
     (case fold (list_file en) (en_files en) (b, Map.empty) of
        (b1, current) \<Rightarrow> rebuild_dirty en current (expand_dirty (b_layer b1) seed_dirty) b1)"

definition produce_code_delta_scoped ::
  "engine \<Rightarrow> code_layer \<Rightarrow> str list \<Rightarrow> nat \<Rightarrow> code_layer \<times> code_delta" where
  "produce_code_delta_scoped en prev seed_dirty rv =
     (let l = b_layer (build_scoped en seed_dirty (seeded prev)) in (l, diff_from l prev rv False))"

end
