(* ===== verification/Producer.thy ===== *)
theory Producer
  imports Builder
begin

text \<open>
  Correctness of the code-layer producer.

  \<^item> \<open>links\<close> is what every edge-making pass promises (the interface \<open>link_pass\<close>): it only adds
    external stubs and edges between existing nodes, and keeps every index.
  \<^item> Layers produced by any sequence of full and scoped builds keep the exact
    reverse-dependency index and the exact file index; a full build has no dangling edge, a
    scoped build no unreferenced stub and no new edge without a target.
  \<^item> Seeding a builder from a layer gives the indexes that the full build had.
  \<^item> Two concrete projects on which the scoped build and the full build part ways.
\<close>

section \<open>What the edge passes promise\<close>

abbreviation node_of :: "builder \<Rightarrow> str \<Rightarrow> node_data option" where
  "node_of b \<equiv> map_of (nodes (b_layer b))"

abbreviation edge_set :: "builder \<Rightarrow> edge set" where
  "edge_set b \<equiv> set (edges (b_layer b))"

definition links :: "builder \<Rightarrow> builder \<Rightarrow> bool" where
  "links b b' \<longleftrightarrow> (layer_inv (b_layer b) \<longrightarrow>
     layer_inv (b_layer b')
     \<and> name_to_id b' = name_to_id b \<and> file_to_nodes b' = file_to_nodes b
     \<and> range_cache b' = range_cache b \<and> project_files b' = project_files b
     \<and> (\<forall>i. node_of b' i = node_of b i \<or> (node_of b i = None \<and> (\<exists>n. node_of b' i = Some n \<and> n_external n)))
     \<and> (\<forall>e\<in>edge_set b'. e \<in> edge_set b \<or> (node_of b' (eg_source e) \<noteq> None \<and> node_of b' (eg_target e) \<noteq> None)))"

lemma links_refl [simp, intro]: "links b b"
  by (simp add: links_def)

lemma links_node: "links b b' \<Longrightarrow> layer_inv (b_layer b) \<Longrightarrow> node_of b i \<noteq> None \<Longrightarrow> node_of b' i = node_of b i"
  by (auto simp: links_def)

lemma links_trans:
  assumes "links a b" "links b c"
  shows "links a c"
  unfolding links_def
proof (intro impI conjI)
  assume a: "layer_inv (b_layer a)"
  then have b: "layer_inv (b_layer b)" using assms(1) by (simp add: links_def)
  show "layer_inv (b_layer c)" using b assms(2) by (simp add: links_def)
  show "name_to_id c = name_to_id a" "file_to_nodes c = file_to_nodes a" "range_cache c = range_cache a"
    "project_files c = project_files a" using a b assms by (simp_all add: links_def)
  show "\<forall>i. node_of c i = node_of a i \<or> (node_of a i = None \<and> (\<exists>n. node_of c i = Some n \<and> n_external n))"
    using a b assms unfolding links_def by metis
  show "\<forall>e\<in>edge_set c. e \<in> edge_set a \<or> (node_of c (eg_source e) \<noteq> None \<and> node_of c (eg_target e) \<noteq> None)"
  proof
    fix e
    assume e: "e \<in> edge_set c"
    consider "e \<in> edge_set a" | "node_of b (eg_source e) \<noteq> None" "node_of b (eg_target e) \<noteq> None"
      | "node_of c (eg_source e) \<noteq> None" "node_of c (eg_target e) \<noteq> None"
      using a b e assms unfolding links_def by meson
    then show "e \<in> edge_set a \<or> (node_of c (eg_source e) \<noteq> None \<and> node_of c (eg_target e) \<noteq> None)"
      using links_node [OF assms(2) b] by cases auto
  qed
qed

locale link_pass =
  fixes pass :: "'x \<Rightarrow> builder \<Rightarrow> builder"
  assumes pass_links: "links b (pass x b)"
begin

lemma all_link: "links b (fold pass xs b)"
  by (induction xs arbitrary: b) (auto intro: links_trans pass_links)

end

lemma node_of_upsert: "layer_inv (b_layer b) \<Longrightarrow> node_of (upsert i n b) = (node_of b)(i \<mapsto> n)"
  by (simp add: upsert_def upsert_node_def layer_inv_def bt.get_ins)

lemma upsert_fields [simp]:
  "name_to_id (upsert i n b) = name_to_id b" "file_to_nodes (upsert i n b) = file_to_nodes b"
  "range_cache (upsert i n b) = range_cache b" "project_files (upsert i n b) = project_files b"
  "edges (b_layer (upsert i n b)) = edges (b_layer b)"
  by (simp_all add: upsert_def upsert_node_def)

lemma layer_inv_upsert: "layer_inv (b_layer b) \<Longrightarrow> layer_inv (b_layer (upsert i n b))"
  using upsert_op.keeps [of "b_layer b" "(i, n)"] by (simp add: upsert_def)

lemma links_add_stub: "links b (add_stub_node i name qn kind package b)"
  by (auto simp: links_def add_stub_node_def has_node_def node_of_upsert layer_inv_upsert stub_node_def)

lemma add_edge_fields [simp]:
  "nodes (snd (add_edge e l)) = nodes l" "set (edges (snd (add_edge e l))) = insert e (set (edges l))"
  "layer_files (snd (add_edge e l)) = layer_files l"
  by (simp_all add: add_edge_def)

lemma links_try_add_edge: "links b (try_add_edge s t kind role f r b)"
  by (auto simp: links_def try_add_edge_def has_node_def layer_inv_add)

lemma links_containment: "links b (containment_edge f s b)"
  by (auto simp: containment_edge_def Let_def links_try_add_edge split: option.splits)

lemma links_ensure_external: "links b (snd (ensure_external_target tf tn b))"
  by (auto simp: ensure_external_target_def Let_def links_add_stub)

lemma links_import_edge: "links b (add_import_edge sf tf r b)"
  by (auto simp: add_import_edge_def Let_def intro: links_try_add_edge links_trans [OF links_add_stub])

lemma links_goto: "links b (resolve_import_via_goto en nf f r b)"
  by (auto simp: resolve_import_via_goto_def Let_def links_import_edge split: sum.splits list.splits)

lemma links_occurrence_target: "links b (snd (occurrence_target oc tf tn b))"
  by (auto simp: occurrence_target_def Let_def links_ensure_external split: option.splits)

lemma links_link_occurrence: "links b (link_occurrence f oc tf t b)"
  by (auto simp: link_occurrence_def Let_def links_import_edge
      intro: links_try_add_edge links_trans [OF links_try_add_edge links_import_edge] split: option.splits)

text \<open>A lookup that may add a stub, followed by a step on its result.\<close>

lemma links_lookup_then:
  assumes "links b (snd r)" "\<And>t b. links b (g t b)"
  shows "links b (case r of (None, b') \<Rightarrow> b' | (Some t, b') \<Rightarrow> g t b')"
proof (cases r)
  case (Pair t b')
  have "links b (g i b')" for i
    by (rule links_trans [OF _ assms(2)]) (use assms(1) Pair in simp)
  then show ?thesis using assms(1) Pair by (cases t) simp_all
qed

lemma links_resolve_occurrence: "links b (resolve_occurrence en f nf oc b)"
  by (cases "oc_target_file oc"; cases "oc_target_name oc")
    (simp_all add: resolve_occurrence_def Let_def links_goto
       links_lookup_then [OF links_occurrence_target links_link_occurrence])

lemma links_inherit_edge: "links b (inherit_edge en i item b)"
proof -
  have "links b (snd (super_target sf item b))" for sf
    by (auto simp: super_target_def Let_def links_add_stub split: option.splits)
  then show ?thesis
    unfolding inherit_edge_def by (rule links_lookup_then) (rule links_try_add_edge)
qed

lemma links_override_edge: "links b (override_edge ms m b)"
  by (auto simp: override_edge_def links_try_add_edge split: option.splits)

interpretation containment: link_pass "containment_edge f" for f
  by unfold_locales (rule links_containment)

interpretation occurrences: link_pass "resolve_occurrence en f nf" for en f nf
  by unfold_locales (rule links_resolve_occurrence)

interpretation inherit: link_pass "inherit_edge en i" for en i
  by unfold_locales (rule links_inherit_edge)

interpretation override: link_pass "override_edge ms" for ms
  by unfold_locales (rule links_override_edge)

interpretation inherits_symbols: link_pass "inherits_symbol en nf" for en nf
  by unfold_locales (auto simp: inherits_symbol_def Let_def inherit.all_link split: option.splits sum.splits)

interpretation overrides_symbols: link_pass "overrides_symbol f symbols" for f symbols
  by unfold_locales (auto simp: overrides_symbol_def Let_def override.all_link split: option.splits)

interpretation references: link_pass "\<lambda>x. resolve_references en (fs_graph_path x) (fs_native_path x)"
  for en
  by unfold_locales (auto simp: resolve_references_def occurrences.all_link split: sum.splits)

interpretation inherits_files: link_pass
  "\<lambda>x. inherits_pass en (fs_graph_path x) (fs_native_path x) (fs_symbols x)" for en
  by unfold_locales (auto simp: inherits_pass_def inherits_symbols.all_link)

interpretation overrides_files: link_pass "\<lambda>x. overrides_pass (fs_graph_path x) (fs_symbols x)"
  by unfold_locales (auto simp: overrides_pass_def overrides_symbols.all_link)


section \<open>The file index\<close>

definition file_index :: "builder \<Rightarrow> bool" where
  "file_index b \<longleftrightarrow> distinct (map fst (file_to_nodes b))
     \<and> (\<forall>f i. i \<in> set (ids_of_file b f) \<longleftrightarrow> (\<exists>n. node_of b i = Some n \<and> \<not> n_external n \<and> n_file n = f))"

definition indexed :: "builder \<Rightarrow> bool" where
  "indexed b \<longleftrightarrow> layer_inv (b_layer b) \<and> file_index b"

lemma indexed_ids_node: "indexed b \<Longrightarrow> i \<in> set (ids_of_file b f) \<Longrightarrow> node_of b i \<noteq> None"
  by (auto simp: indexed_def file_index_def)

lemma ids_of_push: "ids_of_file (push_file_node f i b) g = (if g = f then ids_of_file b f @ [i] else ids_of_file b g)"
  by (simp add: ids_of_file_def push_file_node_def update_conv')

lemma push_fields [simp]:
  "b_layer (push_file_node f i b) = b_layer b" "name_to_id (push_file_node f i b) = name_to_id b"
  "range_cache (push_file_node f i b) = range_cache b" "project_files (push_file_node f i b) = project_files b"
  "map fst (file_to_nodes (push_file_node f i b)) = map fst (AList.update f (ids_of_file b f @ [i]) (file_to_nodes b))"
  by (simp_all add: push_file_node_def)

lemma register_fields [simp]:
  "b_layer (register_name f x i b) = b_layer b" "file_to_nodes (register_name f x i b) = file_to_nodes b"
  "range_cache (register_name f x i b) = range_cache b" "project_files (register_name f x i b) = project_files b"
  by (auto simp: register_name_def split: option.splits)

lemma ids_of_file_cong: "file_to_nodes b' = file_to_nodes b \<Longrightarrow> ids_of_file b' = ids_of_file b"
  by (simp add: ids_of_file_def fun_eq_iff)

text \<open>Inserting a new node of a file and appending it to the file's list keeps the index.\<close>

lemma indexed_new_node:
  assumes "indexed b" "node_of b i = None" "\<not> n_external n" "n_file n = f"
    and "b_layer b' = b_layer (upsert i n b)" "file_to_nodes b' = file_to_nodes b"
  shows "indexed (push_file_node f i b')"
proof -
  have inv: "layer_inv (b_layer b)" and idx: "file_index b" using assms(1) by (simp_all add: indexed_def)
  have ids: "ids_of_file b' = ids_of_file b" using assms(6) by (rule ids_of_file_cong)
  have node: "node_of b' = (node_of b)(i \<mapsto> n)" using assms(5) inv by (simp add: node_of_upsert)
  have "j \<in> set (ids_of_file (push_file_node f i b') g) \<longleftrightarrow>
      (\<exists>m. node_of b' j = Some m \<and> \<not> n_external m \<and> n_file m = g)" for g j
    using idx assms(2-4) by (cases "j = i") (auto simp: ids_of_push ids node file_index_def)
  moreover have "distinct (map fst (file_to_nodes (push_file_node f i b')))"
    using idx assms(6) by (simp add: file_index_def distinct_update)
  ultimately show ?thesis
    using inv assms(5) by (simp add: indexed_def file_index_def layer_inv_upsert)
qed

lemma indexed_materialize_module: "indexed b \<Longrightarrow> indexed (materialize_module f b)"
  unfolding materialize_module_def Let_def
  by (auto simp: has_node_def module_node_def intro!: indexed_new_node)

lemma indexed_materialize_symbol: "indexed b \<Longrightarrow> indexed (materialize_symbol f s b)"
  unfolding materialize_symbol_def
  by (auto simp: has_node_def symbol_node_def split: option.splits intro!: indexed_new_node)

lemma indexed_links:
  assumes "links b b'" "indexed b"
  shows "indexed b'"
proof -
  have inv: "layer_inv (b_layer b)" using assms(2) by (simp add: indexed_def)
  have same: "layer_inv (b_layer b')" "file_to_nodes b' = file_to_nodes b"
    and nodes: "\<And>i. node_of b' i = node_of b i \<or> (node_of b i = None \<and> (\<exists>n. node_of b' i = Some n \<and> n_external n))"
    using assms(1) inv by (simp_all add: links_def)
  have "(\<exists>n. node_of b' i = Some n \<and> \<not> n_external n \<and> n_file n = f) \<longleftrightarrow>
      (\<exists>n. node_of b i = Some n \<and> \<not> n_external n \<and> n_file n = f)" for i f
    using nodes [of i] by (metis option.distinct(1) option.inject)
  then show ?thesis
    using assms(2) same ids_of_file_cong [OF same(2)] by (simp add: indexed_def file_index_def)
qed

lemma range_cache_fields [simp]:
  "b_layer (build_range_cache f b) = b_layer b" "name_to_id (build_range_cache f b) = name_to_id b"
  "file_to_nodes (build_range_cache f b) = file_to_nodes b" "project_files (build_range_cache f b) = project_files b"
  by (simp_all add: build_range_cache_def)

lemma indexed_range_cache [simp]: "indexed (build_range_cache f b) = indexed b"
  by (simp add: indexed_def file_index_def ids_of_file_def)

section \<open>Invariants of the passes\<close>

lemma run_passes_phases: "run_passes en files b = link_all en files (contain_all files (materialize_all files b))"
  by (simp add: run_passes_def)

lemma link_all_links: "links b (link_all en files b)"
  unfolding link_all_def
  by (rule links_trans [OF references.all_link links_trans [OF inherits_files.all_link overrides_files.all_link]])

lemma materialize_all_keeps:
  assumes "\<And>f b. f \<in> fs_graph_path ` set files \<Longrightarrow> P b \<Longrightarrow> P (materialize_module f b)"
    and "\<And>x s b. x \<in> set files \<Longrightarrow> s \<in> set (fs_symbols x) \<Longrightarrow> P b \<Longrightarrow> P (materialize_symbol (fs_graph_path x) s b)"
    and "P b"
  shows "P (materialize_all files b)"
proof -
  have syms: "P b \<Longrightarrow> set ss \<subseteq> set (fs_symbols x) \<Longrightarrow> P (fold (materialize_symbol (fs_graph_path x)) ss b)"
    if "x \<in> set files" for ss x b
    using that assms(2) by (induction ss arbitrary: b) auto
  have "P b \<Longrightarrow> set fs \<subseteq> set files \<Longrightarrow>
      P (fold (\<lambda>x. materialize_file_nodes (fs_graph_path x) (fs_symbols x)) fs b)" for fs b
    using assms(1) syms by (induction fs arbitrary: b) (auto simp: materialize_file_nodes_def)
  then show ?thesis using assms(3) by (simp add: materialize_all_def)
qed

lemma contain_all_keeps:
  assumes "\<And>b b'. links b b' \<Longrightarrow> P b \<Longrightarrow> P b'" "\<And>f b. P b \<Longrightarrow> P (build_range_cache f b)" "P b"
  shows "P (contain_all files b)"
proof -
  have "P b \<Longrightarrow> P (build_range_cache (fs_graph_path x) (add_containment_edges (fs_graph_path x) (fs_symbols x) b))" for x b
    by (rule assms(2), rule assms(1)) (auto simp: add_containment_edges_def containment.all_link)
  then show ?thesis using assms(3) unfolding contain_all_def by (induction files arbitrary: b) auto
qed

lemma run_passes_keeps:
  assumes "\<And>f b. P b \<Longrightarrow> P (materialize_module f b)" "\<And>f s b. P b \<Longrightarrow> P (materialize_symbol f s b)"
    and "\<And>b b'. links b b' \<Longrightarrow> P b \<Longrightarrow> P b'" "\<And>f b. P b \<Longrightarrow> P (build_range_cache f b)" "P b"
  shows "P (run_passes en files b)"
  unfolding run_passes_phases
  by (rule assms(3) [OF link_all_links], rule contain_all_keeps, rule assms(3), assumption+, erule assms(4),
      rule materialize_all_keeps) (use assms in auto)

lemma run_passes_indexed: "indexed b \<Longrightarrow> indexed (run_passes en files b)"
  by (rule run_passes_keeps [of indexed])
    (auto intro: indexed_materialize_module indexed_materialize_symbol indexed_links)

definition edges_closed :: "code_layer \<Rightarrow> bool" where
  "edges_closed l \<longleftrightarrow> (\<forall>e\<in>set (edges l). map_of (nodes l) (eg_source e) \<noteq> None \<and> map_of (nodes l) (eg_target e) \<noteq> None)"

text \<open>Every edge outside a set of old ones has both endpoints; with no old edges the layer is closed.\<close>

definition closed_beyond :: "edge set \<Rightarrow> code_layer \<Rightarrow> bool" where
  "closed_beyond old l \<longleftrightarrow> (\<forall>e\<in>set (edges l). e \<in> old \<or>
     (map_of (nodes l) (eg_source e) \<noteq> None \<and> map_of (nodes l) (eg_target e) \<noteq> None))"

lemma edges_closed_beyond: "edges_closed l \<longleftrightarrow> closed_beyond {} l"
  by (simp add: edges_closed_def closed_beyond_def)

lemma closed_beyond_upsert:
  "layer_inv (b_layer b) \<Longrightarrow> closed_beyond old (b_layer b) \<Longrightarrow> closed_beyond old (b_layer (upsert i n b))"
  using node_of_upsert [of b i n] by (auto simp: closed_beyond_def)

lemma closed_beyond_links:
  assumes "links b b'" "layer_inv (b_layer b)" "closed_beyond old (b_layer b)"
  shows "closed_beyond old (b_layer b')"
  unfolding closed_beyond_def
proof
  fix e
  assume "e \<in> edge_set b'"
  then have "e \<in> edge_set b \<or> (node_of b' (eg_source e) \<noteq> None \<and> node_of b' (eg_target e) \<noteq> None)"
    using assms(1,2) by (simp add: links_def)
  then show "e \<in> old \<or> (node_of b' (eg_source e) \<noteq> None \<and> node_of b' (eg_target e) \<noteq> None)"
    using assms(3) links_node [OF assms(1,2)] by (auto simp: closed_beyond_def)
qed

lemma run_passes_closed:
  assumes "indexed b" "closed_beyond old (b_layer b)"
  shows "closed_beyond old (b_layer (run_passes en files b))"
proof -
  have "indexed (run_passes en files b) \<and> closed_beyond old (b_layer (run_passes en files b))"
  proof (rule run_passes_keeps [of "\<lambda>b. indexed b \<and> closed_beyond old (b_layer b)"])
    show "indexed (materialize_module f b) \<and> closed_beyond old (b_layer (materialize_module f b))"
      if "indexed b \<and> closed_beyond old (b_layer b)" for f b
      using that by (simp add: indexed_materialize_module)
        (simp add: materialize_module_def Let_def indexed_def closed_beyond_upsert)
    show "indexed (materialize_symbol f s b) \<and> closed_beyond old (b_layer (materialize_symbol f s b))"
      if "indexed b \<and> closed_beyond old (b_layer b)" for f s b
      using that by (simp add: indexed_materialize_symbol)
        (simp add: materialize_symbol_def indexed_def closed_beyond_upsert split: option.splits)
    show "indexed b' \<and> closed_beyond old (b_layer b')" if "links b b'" "indexed b \<and> closed_beyond old (b_layer b)" for b b'
      using that indexed_links [OF that(1)] closed_beyond_links [OF that(1)] by (simp add: indexed_def)
  qed (use assms in simp_all)
  then show ?thesis by simp
qed


section \<open>Produced layers\<close>

text \<open>The ids of a file are the project nodes of that file; each project node is listed under its file.\<close>

definition layer_ids :: "code_layer \<Rightarrow> str \<Rightarrow> str list" where
  "layer_ids l f = (case map_of (layer_files l) f of None \<Rightarrow> [] | Some ids \<Rightarrow> ids)"

definition files_exact :: "code_layer \<Rightarrow> bool" where
  "files_exact l \<longleftrightarrow> bt_inv (layer_files l)
     \<and> (\<forall>f i. i \<in> set (layer_ids l f) \<longleftrightarrow>
              (\<exists>n. map_of (nodes l) i = Some n \<and> \<not> n_external n \<and> n_file n = f))"

lemma sync_fields [simp]:
  "nodes (b_layer (sync_file_to_nodes b)) = nodes (b_layer b)" "edges (b_layer (sync_file_to_nodes b)) = edges (b_layer b)"
  "reverse_deps (b_layer (sync_file_to_nodes b)) = reverse_deps (b_layer b)"
  "name_to_id (sync_file_to_nodes b) = name_to_id b" "range_cache (sync_file_to_nodes b) = range_cache b"
  "file_to_nodes (sync_file_to_nodes b) = file_to_nodes b"
  by (simp_all add: sync_file_to_nodes_def)

lemma map_of_synced:
  assumes "distinct (map fst (file_to_nodes b))"
  shows "bt_inv (layer_files (b_layer (sync_file_to_nodes b)))
    \<and> map_of (layer_files (b_layer (sync_file_to_nodes b))) = map_of (file_to_nodes b)"
proof -
  have "map_of (rev (file_to_nodes b)) = map_of (file_to_nodes b)"
    using assms by (intro map_of_inject_set [THEN iffD2]) (simp_all add: rev_map [symmetric])
  then show ?thesis
    using bt.get_ins_all [OF bt.inv_empty, of "file_to_nodes b"] bt.inv_ins_all [OF bt.inv_empty, of "file_to_nodes b"]
    by (simp add: sync_file_to_nodes_def)
qed

lemma synced_layer:
  assumes "indexed b"
  shows "layer_inv (b_layer (sync_file_to_nodes b)) \<and> files_exact (b_layer (sync_file_to_nodes b))"
proof -
  have "distinct (map fst (file_to_nodes b))" using assms by (simp add: indexed_def file_index_def)
  note m = map_of_synced [OF this]
  have "layer_ids (b_layer (sync_file_to_nodes b)) = ids_of_file b"
    using m by (simp add: layer_ids_def ids_of_file_def fun_eq_iff)
  then have "files_exact (b_layer (sync_file_to_nodes b))"
    using m assms by (simp add: files_exact_def indexed_def file_index_def)
  then show ?thesis using assms by (simp add: indexed_def layer_inv_def)
qed

lemma collect_files_layer:
  "fst (fold (collect_file en) ps (b, files)) = b\<lparr>project_files := project_files (fst (fold (collect_file en) ps (b, files)))\<rparr>"
proof (induction ps arbitrary: b files)
  case (Cons p ps)
  obtain b1 files1 where st: "collect_file en p (b, files) = (b1, files1)" by fastforce
  then have "b1 = b\<lparr>project_files := project_files b1\<rparr>"
    by (auto simp: collect_file_def Let_def split: if_splits sum.splits)
  with Cons [of b1 files1] st show ?case
    by (metis builder.surjective builder.update_convs(5) fold_simps(2))
qed simp

lemma indexed_empty: "indexed (builder_new\<lparr>project_files := ps\<rparr>)"
  by (simp add: indexed_def file_index_def builder_new_def ids_of_file_def, simp add: code_layer_new_def)

lemma build_cases:
  obtains files ps where "build en = sync_file_to_nodes (run_passes en files (builder_new\<lparr>project_files := ps\<rparr>))"
    and "\<And>x s. x \<in> set files \<Longrightarrow> s \<in> set (fs_symbols x) \<Longrightarrow> \<exists>p ss. en_symbols en p = Inr ss \<and> s \<in> set ss"
proof -
  obtain b files where st: "fold (collect_file en) (en_files en) (builder_new, []) = (b, files)" by fastforce
  have b: "b = builder_new\<lparr>project_files := project_files b\<rparr>"
    using collect_files_layer [of en "en_files en" builder_new "[]"] st by simp
  let ?P = "\<lambda>fs. \<forall>x\<in>set fs. en_symbols en (fs_native_path x) = Inr (fs_symbols x)"
  have "?P (snd acc) \<Longrightarrow> ?P (snd (fold (collect_file en) ps acc))" for ps acc
  proof (induction ps arbitrary: acc)
    case (Cons p ps)
    have "?P (snd (collect_file en p acc))"
      using Cons.prems by (cases acc) (auto simp: collect_file_def Let_def split: sum.splits)
    from Cons.IH [OF this] show ?case by simp
  qed simp
  from this [of "(builder_new, [])" "en_files en"] st have "?P files" by simp
  then show thesis using that [of files "project_files b"] st b by (auto simp: build_def)
qed

lemma build_layer: "layer_inv (b_layer (build en)) \<and> files_exact (b_layer (build en)) \<and> edges_closed (b_layer (build en))"
proof -
  obtain files ps where b: "build en = sync_file_to_nodes (run_passes en files (builder_new\<lparr>project_files := ps\<rparr>))"
    by (rule build_cases)
  have "closed_beyond {} (b_layer (builder_new\<lparr>project_files := ps\<rparr>))"
    by (simp add: closed_beyond_def builder_new_def code_layer_new_def)
  from run_passes_closed [OF indexed_empty this] have "edges_closed (b_layer (build en))"
    unfolding b by (simp add: edges_closed_beyond closed_beyond_def)
  then show ?thesis
    unfolding b using synced_layer [OF run_passes_indexed [OF indexed_empty]] by simp
qed

text \<open>Eviction and collection of stubs.\<close>

lemma drop_nodes_get:
  "bt_inv (nodes l) \<Longrightarrow> map_of (nodes (fold (\<lambda>i l. l\<lparr>nodes := bt_remove i (nodes l)\<rparr>) ids l))
     = (\<lambda>i. if i \<in> set ids then None else map_of (nodes l) i)"
proof (induction ids arbitrary: l)
  case (Cons j ids)
  then have "bt_inv (nodes (l\<lparr>nodes := bt_remove j (nodes l)\<rparr>))" by (simp add: bt.inv_del)
  from Cons.IH [OF this] Cons.prems show ?case by (auto simp: bt.get_del fun_eq_iff)
qed simp

lemma drop_nodes_edges: "edges (fold (\<lambda>i l. l\<lparr>nodes := bt_remove i (nodes l)\<rparr>) ids l) = edges l"
  by (induction ids arbitrary: l) simp_all

lemma remove_edges_nodes: "nodes (fold (\<lambda>e l. snd (remove_edge e l)) es l) = nodes l"
  by (induction es arbitrary: l) (simp_all add: remove_edge_def Let_def)

lemma evict_edges: "edge_set (evict_file f b) \<subseteq> edge_set b"
proof -
  have "set (edges (snd (remove_edge e l))) \<subseteq> set (edges l)" for e l
    by (auto simp: remove_edge_def Let_def bs_remove_def)
  then have "set (edges (fold (\<lambda>e l. snd (remove_edge e l)) es l)) \<subseteq> set (edges l)" for es l
    by (induction es arbitrary: l) (simp, simp, blast)
  then show ?thesis by (auto simp: evict_file_def Let_def drop_nodes_edges)
qed

lemma indexed_evict:
  assumes "indexed b"
  shows "indexed (evict_file f b)"
proof -
  let ?ids = "ids_of_file b f"
  let ?l1 = "fold (\<lambda>e l. snd (remove_edge e l)) (filter (\<lambda>e. eg_source e \<in> set ?ids) (edges (b_layer b))) (b_layer b)"
  have inv: "layer_inv (b_layer b)" and idx: "file_index b" using assms by (simp_all add: indexed_def)
  have l1: "layer_inv ?l1" "nodes ?l1 = nodes (b_layer b)"
    using inv by (simp_all add: remove_op.keeps_all remove_edges_nodes)
  have layer: "b_layer (evict_file f b) = fold (\<lambda>i l. l\<lparr>nodes := bt_remove i (nodes l)\<rparr>) ?ids ?l1"
    by (simp add: evict_file_def Let_def)
  have node: "node_of (evict_file f b) = (\<lambda>i. if i \<in> set ?ids then None else node_of b i)"
    unfolding layer using l1(1) by (simp only: layer_inv_def drop_nodes_get l1(2))
  have ids: "ids_of_file (evict_file f b) g = (if g = f then [] else ids_of_file b g)" for g
    by (simp add: ids_of_file_def evict_file_def Let_def delete_conv')
  have "j \<in> set (ids_of_file (evict_file f b) g) \<longleftrightarrow>
      (\<exists>n. node_of (evict_file f b) j = Some n \<and> \<not> n_external n \<and> n_file n = g)" for g j
    using idx by (auto simp: ids node file_index_def)
  moreover have "distinct (map fst (file_to_nodes (evict_file f b)))"
    using idx by (simp add: evict_file_def Let_def file_index_def distinct_delete)
  moreover have "layer_inv (b_layer (evict_file f b))"
    unfolding layer by (rule drop_node_op.keeps_all) (rule l1)
  ultimately show ?thesis by (simp add: indexed_def file_index_def)
qed

lemma gc_nodes:
  assumes "layer_inv (b_layer b)"
  shows "node_of (gc_external_stubs b) = (\<lambda>i. case node_of b i of
      None \<Rightarrow> None
    | Some n \<Rightarrow> if n_external n \<and> i \<notin> eg_target ` edge_set b then None else Some n)"
    and "edges (b_layer (gc_external_stubs b)) = edges (b_layer b)"
    and "layer_inv (b_layer (gc_external_stubs b))"
proof -
  let ?doomed = "map fst (filter (\<lambda>(i, n). node_population n i = PopExternal \<and> i \<notin> eg_target ` edge_set b) (nodes (b_layer b)))"
  have inv: "bt_inv (nodes (b_layer b))" using assms by (simp add: layer_inv_def)
  have layer: "b_layer (gc_external_stubs b) = fold (\<lambda>i l. l\<lparr>nodes := bt_remove i (nodes l)\<rparr>) ?doomed (b_layer b)"
    by (simp add: gc_external_stubs_def Let_def)
  have doomed: "i \<in> set ?doomed \<longleftrightarrow> (\<exists>n. node_of b i = Some n \<and> n_external n \<and> i \<notin> eg_target ` edge_set b)" for i
    unfolding bt.entry_iff [OF inv, symmetric]
    by (auto simp: node_population_def image_iff split: if_splits intro!: bexI [of _ "(i, _)"])
  show "node_of (gc_external_stubs b) = (\<lambda>i. case node_of b i of
      None \<Rightarrow> None
    | Some n \<Rightarrow> if n_external n \<and> i \<notin> eg_target ` edge_set b then None else Some n)"
    unfolding layer drop_nodes_get [OF inv] by (rule ext) (simp only: doomed, simp split: option.split)
  show "edges (b_layer (gc_external_stubs b)) = edges (b_layer b)"
    unfolding layer by (rule drop_nodes_edges)
  show "layer_inv (b_layer (gc_external_stubs b))"
    unfolding layer by (rule drop_node_op.keeps_all) (rule assms)
qed

lemma indexed_gc:
  assumes "indexed b"
  shows "indexed (gc_external_stubs b)"
proof -
  have inv: "layer_inv (b_layer b)" and idx: "file_index b" using assms by (simp_all add: indexed_def)
  have files: "file_to_nodes (gc_external_stubs b) = file_to_nodes b" by (simp add: gc_external_stubs_def Let_def)
  show ?thesis
    using idx gc_nodes(3) [OF inv]
    by (auto simp: indexed_def file_index_def files ids_of_file_cong [OF files] gc_nodes(1) [OF inv] split: option.splits if_splits)
qed


lemma seeded_fields:
  "b_layer (seeded prev) = prev" "file_to_nodes (seeded prev) = layer_files prev"
proof -
  have replay: "b_layer (fold (replay_name f) ids b) = b_layer b \<and> file_to_nodes (fold (replay_name f) ids b) = file_to_nodes b"
    for f ids b
    by (induction ids arbitrary: b) (auto simp: replay_name_def split: option.splits)
  have "b_layer (fold (\<lambda>(f, ids) b. build_range_cache f (fold (replay_name f) ids b)) fs b) = b_layer b
     \<and> file_to_nodes (fold (\<lambda>(f, ids) b. build_range_cache f (fold (replay_name f) ids b)) fs b) = file_to_nodes b" for fs b
    by (induction fs arbitrary: b) (auto simp: replay)
  then show "b_layer (seeded prev) = prev" "file_to_nodes (seeded prev) = layer_files prev"
    by (simp_all add: seeded_def Let_def)
qed

lemma ids_of_seeded: "ids_of_file (seeded prev) = layer_ids prev"
  by (simp add: fun_eq_iff ids_of_file_def layer_ids_def seeded_fields)

lemma indexed_seeded: "layer_inv prev \<Longrightarrow> files_exact prev \<Longrightarrow> indexed (seeded prev)"
  by (simp add: indexed_def file_index_def files_exact_def ids_of_seeded seeded_fields bt_inv_distinct)

lemma list_files_fields:
  "b_layer (fst (fold (list_file en) ps (b, m))) = b_layer b \<and> file_to_nodes (fst (fold (list_file en) ps (b, m))) = file_to_nodes b"
proof (induction ps arbitrary: b m)
  case (Cons p ps)
  obtain b1 m1 where st: "list_file en p (b, m) = (b1, m1)" by fastforce
  then have "b_layer b1 = b_layer b \<and> file_to_nodes b1 = file_to_nodes b"
    by (auto simp: list_file_def Let_def split: if_splits)
  with Cons [of b1 m1] st show ?case by simp
qed simp

lemma build_scoped_cases:
  assumes "indexed b"
  obtains files b2 where "build_scoped en seeds b = sync_file_to_nodes (gc_external_stubs (run_passes en files b2))"
    and "indexed b2" "edge_set b2 \<subseteq> edge_set b"
proof -
  obtain b1 current where st: "fold (list_file en) (en_files en) (b, Map.empty) = (b1, current)" by fastforce
  have b1: "b_layer b1 = b_layer b" "file_to_nodes b1 = file_to_nodes b"
    using list_files_fields [of en "en_files en" b Map.empty] st by simp_all
  then have "indexed b1" using assms ids_of_file_cong [OF b1(2)] by (simp add: indexed_def file_index_def)
  then have "indexed (fold evict_file dirty b1)" for dirty
    by (induction dirty arbitrary: b1) (simp_all add: indexed_evict)
  moreover have "edge_set (fold evict_file dirty b1) \<subseteq> edge_set b1" for dirty
    by (induction dirty arbitrary: b1) (auto dest: subsetD [OF evict_edges])
  ultimately show thesis
    using b1(1) by (intro that [rotated]) (auto simp: build_scoped_def rebuild_dirty_def st)
qed

definition no_dead_stub :: "code_layer \<Rightarrow> bool" where
  "no_dead_stub l \<longleftrightarrow> (\<forall>i n. map_of (nodes l) i = Some n \<and> n_external n \<longrightarrow> i \<in> eg_target ` set (edges l))"

definition new_targets_present :: "code_layer \<Rightarrow> code_layer \<Rightarrow> bool" where
  "new_targets_present prev l \<longleftrightarrow>
     (\<forall>e\<in>set (edges l). e \<in> set (edges prev) \<or> map_of (nodes l) (eg_target e) \<noteq> None)"

lemma scoped_layer:
  assumes "layer_inv prev" "files_exact prev"
  shows "layer_inv (b_layer (build_scoped en seeds (seeded prev)))
    \<and> files_exact (b_layer (build_scoped en seeds (seeded prev)))
    \<and> no_dead_stub (b_layer (build_scoped en seeds (seeded prev)))
    \<and> new_targets_present prev (b_layer (build_scoped en seeds (seeded prev)))"
proof -
  obtain files b2 where b: "build_scoped en seeds (seeded prev) = sync_file_to_nodes (gc_external_stubs (run_passes en files b2))"
    and b2: "indexed b2" and old: "edge_set b2 \<subseteq> set (edges prev)"
    using build_scoped_cases [OF indexed_seeded [OF assms], of en seeds] by (metis seeded_fields(1))
  have "closed_beyond (set (edges prev)) (b_layer b2)" using old by (auto simp: closed_beyond_def)
  note new = run_passes_closed [OF b2 this, of en files]
  have idx: "indexed (run_passes en files b2)" using b2 by (simp add: run_passes_indexed)
  then have inv: "layer_inv (b_layer (run_passes en files b2))" by (simp add: indexed_def)
  have "no_dead_stub (b_layer (gc_external_stubs (run_passes en files b2)))"
    unfolding no_dead_stub_def gc_nodes(1,2) [OF inv] by (auto split: option.splits if_splits)
  moreover have "new_targets_present prev (b_layer (gc_external_stubs (run_passes en files b2)))"
    using new unfolding new_targets_present_def gc_nodes(1,2) [OF inv] by (auto simp: closed_beyond_def split: option.splits)
  ultimately show ?thesis
    unfolding b using synced_layer [OF indexed_gc [OF idx]] by (simp add: no_dead_stub_def new_targets_present_def)
qed

inductive produced :: "code_layer \<Rightarrow> bool" where
  produced_cold: "produced code_layer_new"
| produced_full: "produced (fst (produce_code_delta en prev rv rescan))"
| produced_scoped: "produced prev \<Longrightarrow> produced (fst (produce_code_delta_scoped en prev seeds rv))"

lemma produced_inv: "produced l \<Longrightarrow> layer_inv l \<and> files_exact l"
proof (induction rule: produced.induct)
  case produced_cold
  show ?case by (simp add: files_exact_def layer_ids_def, simp add: code_layer_new_def bt_inv_def)
next
  case (produced_full en prev rv rescan)
  show ?case using build_layer [of en] by (simp add: produce_code_delta_def Let_def)
next
  case (produced_scoped prev en seeds rv)
  then show ?case using scoped_layer [of prev en seeds] by (simp add: produce_code_delta_scoped_def Let_def)
qed

text \<open>
  C11.  The producer's indexes are exact over any number of generations: whatever the engine
  answers, and however full and scoped builds alternate, the layer's maintained
  reverse-dependency index equals the one derived from its edges (the debug assertion after
  both producers), and its file index lists under each file exactly the project nodes of
  that file.
\<close>

theorem produced_layer_exact:
  assumes "produced l"
  shows "reverse_deps l = derived_reverse_deps l \<and> files_exact l"
  using produced_inv [OF assms] layer_inv_index by simp

text \<open>
  C30.  What each producer promises of edges and stubs.  A full build has no dangling edge: both
  endpoints of every edge are nodes of the layer.  A scoped build over a produced layer
  leaves no external stub without an incoming edge, and every edge it adds points at a node
  of the layer, so that an edge with a missing target is one it carried over.  Neither promise
  extends to the other producer: \<open>scoped_build_can_dangle\<close> and \<open>full_build_leaves_dead_stub\<close> below.
\<close>

theorem producer_promises:
  assumes "produced prev"
  shows "edges_closed (fst (produce_code_delta en prev rv rescan))
    \<and> no_dead_stub (fst (produce_code_delta_scoped en prev seeds rv))
    \<and> new_targets_present prev (fst (produce_code_delta_scoped en prev seeds rv))"
  using build_layer [of en] scoped_layer [of prev en seeds] produced_inv [OF assms]
  by (simp add: produce_code_delta_def produce_code_delta_scoped_def Let_def)


section \<open>The lookup caches\<close>

text \<open>
  What the name cache of one file holds after its ids were registered in order: a name that
  two ids share is marked by the empty string.
\<close>

definition reg :: "str \<Rightarrow> str \<Rightarrow> (str \<rightharpoonup> str) \<Rightarrow> (str \<rightharpoonup> str)" where
  "reg x i m = (case m x of None \<Rightarrow> m(x \<mapsto> i) | Some e \<Rightarrow> if e = i then m else m(x \<mapsto> []))"

definition replay_one :: "(str \<rightharpoonup> node_data) \<Rightarrow> str \<Rightarrow> (str \<rightharpoonup> str) \<Rightarrow> (str \<rightharpoonup> str)" where
  "replay_one N i m =
     (case N i of
        None \<Rightarrow> m
      | Some n \<Rightarrow>
          if n_qualified_name n = module_qualified_name then m(module_qualified_name \<mapsto> i)
          else reg (n_qualified_name n) i (reg (n_name n) i m))"

definition names_exact :: "builder \<Rightarrow> bool" where
  "names_exact b \<longleftrightarrow>
     (\<forall>f. (\<lambda>x. name_to_id b (f, x)) = fold (replay_one (node_of b)) (ids_of_file b f) Map.empty)"

definition ranges_exact :: "builder \<Rightarrow> bool" where
  "ranges_exact b \<longleftrightarrow>
     (\<forall>f. (\<forall>c. range_cache b f = Some c \<longrightarrow> c = sort_key span_key (range_entries b f)))"

definition ranges_cover :: "builder \<Rightarrow> bool" where
  "ranges_cover b \<longleftrightarrow> (\<forall>f. range_cache b f = None \<longrightarrow> ids_of_file b f = [])"

definition caches_exact :: "builder \<Rightarrow> bool" where
  "caches_exact b \<longleftrightarrow> names_exact b \<and> ranges_exact b \<and> ranges_cover b"

lemma register_at:
  "(\<lambda>x. name_to_id (register_name f n i b) (g, x)) =
     (if g = f then reg n i (\<lambda>x. name_to_id b (f, x)) else (\<lambda>x. name_to_id b (g, x)))"
  by (auto simp: register_name_def reg_def fun_eq_iff split: option.splits)

lemma replay_cong:
  "(\<And>i. i \<in> set ids \<Longrightarrow> N' i = N i) \<Longrightarrow> fold (replay_one N') ids m = fold (replay_one N) ids m"
  by (rule fold_cong) (simp_all add: replay_one_def fun_eq_iff)

lemma range_entries_cong:
  assumes "ids_of_file b' f = ids_of_file b f" "\<And>i. i \<in> set (ids_of_file b f) \<Longrightarrow> node_of b' i = node_of b i"
  shows "range_entries b' f = range_entries b f"
  using assms unfolding range_entries_def List.map_filter_def
  by (auto intro!: map_cong filter_cong)

lemma names_new_node:
  assumes "indexed b" "names_exact b" "node_of b i = None" "b_layer b' = b_layer (upsert i n b)"
    and "file_to_nodes b' = file_to_nodes b"
    and "\<And>g. (\<lambda>x. name_to_id b' (g, x)) =
           (if g = f then replay_one [i \<mapsto> n] i (\<lambda>x. name_to_id b (f, x)) else (\<lambda>x. name_to_id b (g, x)))"
  shows "names_exact (push_file_node f i b')"
proof -
  have node: "node_of b' = (node_of b)(i \<mapsto> n)"
    using assms(1,4) by (simp add: node_of_upsert indexed_def)
  have fresh: "i \<notin> set (ids_of_file b g)" for g
    using indexed_ids_node [OF assms(1)] assms(3) by blast
  have "fold (replay_one (node_of b')) (ids_of_file b g) Map.empty = fold (replay_one (node_of b)) (ids_of_file b g) Map.empty" for g
    by (rule replay_cong) (use fresh [of g] in \<open>auto simp: node\<close>)
  moreover have "replay_one (node_of b') i = replay_one [i \<mapsto> n] i"
    by (simp add: fun_eq_iff replay_one_def node)
  ultimately show ?thesis
    using assms(2) unfolding names_exact_def
    by (simp add: assms(6) ids_of_push ids_of_file_cong [OF assms(5)])
qed

lemma names_materialize_module:
  assumes "indexed b" "names_exact b"
  shows "names_exact (materialize_module f b)"
proof (cases "has_node b (make_module_durable_id f)")
  case False
  then show ?thesis
    unfolding materialize_module_def Let_def
    by (simp, intro names_new_node [OF assms])
      (auto simp: has_node_def replay_one_def module_node_def fun_eq_iff)
qed (simp add: materialize_module_def assms)

lemma symbol_node_names: "n_name (symbol_node f s) = sy_name s" "n_qualified_name (symbol_node f s) = symbol_qn s"
  by (simp_all add: symbol_node_def)

lemma replay_symbol:
  "symbol_qn s \<noteq> module_qualified_name \<Longrightarrow>
     replay_one [i \<mapsto> symbol_node f s] i m = reg (symbol_qn s) i (reg (sy_name s) i m)"
  by (simp add: replay_one_def symbol_node_names)

lemma names_materialize_symbol:
  assumes "indexed b" "names_exact b" "symbol_qn s \<noteq> module_qualified_name"
  shows "names_exact (materialize_symbol f s b)"
proof (cases "sy_durable_id s")
  case (Some i)
  show ?thesis
  proof (cases "has_node b i")
    case False
    then show ?thesis
      using Some assms(3) unfolding materialize_symbol_def
      by (simp, intro names_new_node [OF assms(1,2), where n = "symbol_node f s"])
        (simp_all add: has_node_def replay_symbol register_at)
  qed (simp add: materialize_symbol_def assms Some)
qed (simp add: materialize_symbol_def assms)

lemma links_ids:
  assumes "links b b'" "indexed b"
  shows "ids_of_file b' = ids_of_file b" "name_to_id b' = name_to_id b" "range_cache b' = range_cache b"
    and "i \<in> set (ids_of_file b f) \<Longrightarrow> node_of b' i = node_of b i"
proof -
  have inv: "layer_inv (b_layer b)" using assms(2) by (simp add: indexed_def)
  then have same: "file_to_nodes b' = file_to_nodes b" "name_to_id b' = name_to_id b" "range_cache b' = range_cache b"
    using assms(1) by (simp_all add: links_def)
  then show "ids_of_file b' = ids_of_file b" "name_to_id b' = name_to_id b" "range_cache b' = range_cache b"
    by (simp_all add: ids_of_file_def fun_eq_iff)
  show "node_of b' i = node_of b i" if "i \<in> set (ids_of_file b f)"
    using links_node [OF assms(1) inv indexed_ids_node [OF assms(2) that]] .
qed

lemma caches_links:
  assumes "links b b'" "indexed b"
  shows "names_exact b \<Longrightarrow> names_exact b'" "ranges_exact b \<Longrightarrow> ranges_exact b'" "ranges_cover b \<Longrightarrow> ranges_cover b'"
proof -
  note same = links_ids [OF assms]
  have "fold (replay_one (node_of b')) (ids_of_file b f) m = fold (replay_one (node_of b)) (ids_of_file b f) m" for f m
    by (rule replay_cong) (rule same(4))
  then show "names_exact b \<Longrightarrow> names_exact b'" by (simp add: names_exact_def same)
  have "range_entries b' f = range_entries b f" for f
    by (rule range_entries_cong) (simp_all add: same(1) same(4))
  then show "ranges_exact b \<Longrightarrow> ranges_exact b'" by (simp add: ranges_exact_def same)
  show "ranges_cover b \<Longrightarrow> ranges_cover b'" by (simp add: ranges_cover_def same)
qed

lemma range_entries_cache [simp]: "range_entries (build_range_cache f b) g = range_entries b g"
  by (simp add: range_entries_def ids_of_file_def)

lemma ids_range_cache [simp]: "ids_of_file (build_range_cache f b) = ids_of_file b"
  by (rule ids_of_file_cong) simp


lemma materialize_fields:
  "range_cache (materialize_module f b) = range_cache b" "range_cache (materialize_symbol f s b) = range_cache b"
  by (simp_all add: materialize_module_def materialize_symbol_def Let_def split: option.splits)

lemma materialize_ids:
  "g \<noteq> f \<Longrightarrow> ids_of_file (materialize_module f b) g = ids_of_file b g"
  "g \<noteq> f \<Longrightarrow> ids_of_file (materialize_symbol f s b) g = ids_of_file b g"
proof -
  have "ids_of_file (upsert i n b) = ids_of_file b" "ids_of_file (register_name f x i c) = ids_of_file c"
    "ids_of_file (b\<lparr>name_to_id := m\<rparr>) = ids_of_file b" for i n x c m b
    by (rule ids_of_file_cong, simp)+
  then show "g \<noteq> f \<Longrightarrow> ids_of_file (materialize_module f b) g = ids_of_file b g"
    "g \<noteq> f \<Longrightarrow> ids_of_file (materialize_symbol f s b) g = ids_of_file b g"
    by (simp_all add: materialize_module_def materialize_symbol_def Let_def ids_of_push split: option.splits)
qed

text \<open>After the containment pass the range cache of every processed file is there and exact.\<close>

lemma contain_all_caches:
  assumes "indexed b" "names_exact b" "ranges_exact b"
  shows "indexed (contain_all files b) \<and> names_exact (contain_all files b) \<and> ranges_exact (contain_all files b)"
proof (rule contain_all_keeps [of "\<lambda>b. indexed b \<and> names_exact b \<and> ranges_exact b"])
  show "indexed b' \<and> names_exact b' \<and> ranges_exact b'"
    if "links b b'" "indexed b \<and> names_exact b \<and> ranges_exact b" for b b'
    using that indexed_links caches_links by blast
  show "indexed (build_range_cache f b) \<and> names_exact (build_range_cache f b) \<and> ranges_exact (build_range_cache f b)"
    if "indexed b \<and> names_exact b \<and> ranges_exact b" for f b
    using that by (simp add: names_exact_def ranges_exact_def) (simp add: build_range_cache_def)
qed (use assms in simp)

lemma contain_all_covers:
  assumes "indexed b"
  shows "ids_of_file (contain_all files b) = ids_of_file b
    \<and> (\<forall>f\<in>fs_graph_path ` set files \<union> {f. range_cache b f \<noteq> None}. range_cache (contain_all files b) f \<noteq> None)"
  using assms
proof (induction files arbitrary: b)
  case (Cons x files)
  let ?c = "add_containment_edges (fs_graph_path x) (fs_symbols x) b"
  let ?b = "build_range_cache (fs_graph_path x) ?c"
  have l: "links b ?c" by (simp add: add_containment_edges_def containment.all_link)
  note same = links_ids [OF l Cons.prems]
  have "indexed ?b" using indexed_links [OF l Cons.prems] by simp
  note IH = Cons.IH [OF this]
  have "range_cache ?b = (range_cache b)(fs_graph_path x \<mapsto> sort_key span_key (range_entries ?c (fs_graph_path x)))"
    by (simp add: build_range_cache_def same)
  with IH same(1) show ?case by (auto simp: contain_all_def)
qed (simp add: contain_all_def)

lemma caches_built:
  assumes ok: "\<And>x s. x \<in> set files \<Longrightarrow> s \<in> set (fs_symbols x) \<Longrightarrow> symbol_qn s \<noteq> module_qualified_name"
  shows "caches_exact (run_passes en files (builder_new\<lparr>project_files := ps\<rparr>))"
proof -
  let ?b0 = "builder_new\<lparr>project_files := ps\<rparr>"
  let ?P = "\<lambda>b. indexed b \<and> names_exact b \<and> range_cache b = Map.empty
      \<and> (\<forall>f. f \<notin> fs_graph_path ` set files \<longrightarrow> ids_of_file b f = [])"
  have "?P ?b0"
    using indexed_empty [of ps] by (simp add: names_exact_def builder_new_def ids_of_file_def)
  then have P: "?P (materialize_all files ?b0)"
  proof (rule materialize_all_keeps [where P = ?P, rotated 2])
    show "?P (materialize_module f b)" if "f \<in> fs_graph_path ` set files" "?P b" for f b
      using that by (auto simp: indexed_materialize_module names_materialize_module materialize_fields
          intro: materialize_ids(1) [THEN trans])
    show "?P (materialize_symbol (fs_graph_path x) s b)" if "x \<in> set files" "s \<in> set (fs_symbols x)" "?P b" for x s b
      using that ok by (auto simp: indexed_materialize_symbol names_materialize_symbol materialize_fields
          intro: materialize_ids(2) [THEN trans])
  qed
  let ?b2 = "contain_all files (materialize_all files ?b0)"
  have idx: "indexed ?b2" and names: "names_exact ?b2" and ranges: "ranges_exact ?b2"
    using contain_all_caches [of "materialize_all files ?b0" files] P by (simp_all add: ranges_exact_def)
  have "ids_of_file ?b2 f = []" if "range_cache ?b2 f = None" for f
    using contain_all_covers [of "materialize_all files ?b0" files] P that by (cases "f \<in> fs_graph_path ` set files") auto
  then have "ranges_cover ?b2" by (simp add: ranges_cover_def)
  then show ?thesis
    unfolding run_passes_phases caches_exact_def
    using caches_links [OF link_all_links idx] names ranges by simp
qed


text \<open>Seeding: each file replays its own names and rebuilds its own range cache.\<close>

lemma replay_names_at:
  "(\<lambda>x. name_to_id (fold (replay_name f) ids b) (g, x)) =
     (if g = f then fold (replay_one (node_of b)) ids (\<lambda>x. name_to_id b (f, x)) else (\<lambda>x. name_to_id b (g, x)))
   \<and> b_layer (fold (replay_name f) ids b) = b_layer b
   \<and> file_to_nodes (fold (replay_name f) ids b) = file_to_nodes b
   \<and> range_cache (fold (replay_name f) ids b) = range_cache b"
proof (induction ids arbitrary: b)
  case (Cons i ids)
  have one: "(\<lambda>x. name_to_id (replay_name f i b) (h, x)) =
      (if h = f then replay_one (node_of b) i (\<lambda>x. name_to_id b (f, x)) else (\<lambda>x. name_to_id b (h, x)))" for h
  proof (cases "node_of b i")
    case (Some n)
    then show ?thesis
      by (cases "n_qualified_name n = module_qualified_name")
        (simp_all add: replay_name_def replay_one_def register_at, simp add: fun_eq_iff)
  qed (simp add: replay_name_def replay_one_def)
  have "b_layer (replay_name f i b) = b_layer b" "file_to_nodes (replay_name f i b) = file_to_nodes b"
    "range_cache (replay_name f i b) = range_cache b"
    by (auto simp: replay_name_def split: option.splits)
  with Cons [of "replay_name f i b"] one show ?case by simp
qed simp

lemma seed_files:
  assumes "distinct (map fst fs)"
  shows "(\<lambda>x. name_to_id (fold (\<lambda>(f, ids) b. build_range_cache f (fold (replay_name f) ids b)) fs b) (g, x)) =
      (case map_of fs g of None \<Rightarrow> (\<lambda>x. name_to_id b (g, x)) | Some ids \<Rightarrow> fold (replay_one (node_of b)) ids (\<lambda>x. name_to_id b (g, x)))
    \<and> range_cache (fold (\<lambda>(f, ids) b. build_range_cache f (fold (replay_name f) ids b)) fs b) g =
      (case map_of fs g of None \<Rightarrow> range_cache b g | Some ids \<Rightarrow> Some (sort_key span_key (range_entries b g)))"
  using assms
proof (induction fs arbitrary: b)
  case (Cons p fs)
  obtain f ids where p: "p = (f, ids)" by (cases p)
  let ?c = "fold (replay_name f) ids b"
  let ?b = "build_range_cache f ?c"
  note at = replay_names_at [of f ids b]
  have c: "b_layer ?c = b_layer b" "file_to_nodes ?c = file_to_nodes b" "range_cache ?c = range_cache b"
    using at by simp_all
  have centries: "range_entries ?c h = range_entries b h" for h
    by (rule range_entries_cong) (simp_all add: c ids_of_file_cong [OF c(2)])
  then have cache: "range_cache ?b = (range_cache b)(f \<mapsto> sort_key span_key (range_entries b f))"
    using c(3) by (simp add: build_range_cache_def)
  have names: "(\<lambda>x. name_to_id ?c (h, x)) =
      (if h = f then fold (replay_one (node_of b)) ids (\<lambda>x. name_to_id b (f, x)) else (\<lambda>x. name_to_id b (h, x)))" for h
    using replay_names_at [of f ids b h] by simp
  have "map_of fs f = None" using Cons.prems p by (simp add: map_of_eq_None_iff)
  with Cons.IH [of ?b] Cons.prems show ?case
    by (cases "g = f"; cases "map_of fs g") (simp_all add: p c(1) names cache centries)
qed simp

lemma caches_seeded:
  assumes "bt_inv (layer_files prev)"
  shows "caches_exact (seeded prev)"
proof -
  let ?b = "\<lparr>b_layer = prev, name_to_id = Map.empty, file_to_nodes = layer_files prev,
    range_cache = Map.empty, project_files = {}\<rparr>"
  have eq: "fold (\<lambda>(f, ids) b. build_range_cache f (fold (replay_name f) ids b)) (layer_files prev) ?b = seeded prev"
    by (simp add: seeded_def)
  note at = seed_files [OF bt_inv_distinct [OF assms], where b = ?b, unfolded eq]
  have names: "(\<lambda>x. name_to_id (seeded prev) (g, x)) = fold (replay_one (node_of (seeded prev))) (ids_of_file (seeded prev) g) Map.empty" for g
    using at [of g] by (cases "map_of (layer_files prev) g") (simp_all add: seeded_fields(1) ids_of_seeded layer_ids_def)
  have entries: "range_entries (seeded prev) g = range_entries ?b g" for g
    by (rule range_entries_cong) (simp_all add: ids_of_file_def seeded_fields)
  have ranges: "range_cache (seeded prev) g =
      (case map_of (layer_files prev) g of None \<Rightarrow> None | Some ids \<Rightarrow> Some (sort_key span_key (range_entries (seeded prev) g)))" for g
    using at [of g] by (cases "map_of (layer_files prev) g") (simp_all add: entries)
  show ?thesis
    using names by (auto simp: caches_exact_def names_exact_def ranges_exact_def ranges_cover_def ranges ids_of_seeded
        layer_ids_def split: option.splits)
qed

lemma cached_ranges:
  "caches_exact b \<Longrightarrow> (case range_cache b f of None \<Rightarrow> [] | Some x \<Rightarrow> x) = sort_key span_key (range_entries b f)"
  by (cases "range_cache b f")
    (auto simp: caches_exact_def ranges_exact_def ranges_cover_def range_entries_def List.map_filter_def)

lemma find_Some_split:
  "find P xs = Some x \<Longrightarrow> \<exists>ys zs. xs = ys @ x # zs \<and> (\<forall>y\<in>set ys. \<not> P y) \<and> P x"
proof (induction xs)
  case (Cons a xs)
  show ?case
  proof (cases "P a")
    case True
    with Cons.prems show ?thesis by (intro exI [of _ "[]"] exI [of _ xs]) auto
  next
    case False
    with Cons obtain ys zs where "xs = ys @ x # zs \<and> (\<forall>y\<in>set ys. \<not> P y) \<and> P x" by auto
    with False show ?thesis by (intro exI [of _ "a # ys"] exI [of _ zs]) auto
  qed
qed simp

lemma caches_determine_lookups:
  assumes "caches_exact b" "caches_exact b'" "node_of b' = node_of b" "ids_of_file b' = ids_of_file b"
  shows "name_to_id b' = name_to_id b" "find_symbol_in_file b' = find_symbol_in_file b"
    and "find_enclosing_symbol b' = find_enclosing_symbol b"
proof -
  have "(\<lambda>x. name_to_id b' (f, x)) = (\<lambda>x. name_to_id b (f, x))" for f
    using assms by (simp add: caches_exact_def names_exact_def)
  then show names: "name_to_id b' = name_to_id b" by (auto simp: fun_eq_iff)
  have named: "node_named b' = node_named b" by (simp add: fun_eq_iff node_named_def assms(3))
  show "find_symbol_in_file b' = find_symbol_in_file b"
    unfolding find_symbol_in_file_def fun_eq_iff names named assms(4) by simp
  have entries: "range_entries b' f = range_entries b f" for f
    by (rule range_entries_cong) (simp_all add: assms(3,4))
  show "find_enclosing_symbol b' = find_enclosing_symbol b"
    unfolding find_enclosing_symbol_def fun_eq_iff cached_ranges [OF assms(1)] cached_ranges [OF assms(2)] entries has_node_def assms(3)
    by simp
qed

lemma built_caches:
  assumes "\<forall>p ss s. en_symbols en p = Inr ss \<and> s \<in> set ss \<longrightarrow> symbol_qn s \<noteq> module_qualified_name"
  shows "caches_exact (build en)"
proof -
  obtain files ps where b: "build en = sync_file_to_nodes (run_passes en files (builder_new\<lparr>project_files := ps\<rparr>))"
    and syms: "\<And>x s. x \<in> set files \<Longrightarrow> s \<in> set (fs_symbols x) \<Longrightarrow> \<exists>p ss. en_symbols en p = Inr ss \<and> s \<in> set ss"
    by (rule build_cases [of en]) blast
  let ?r = "run_passes en files (builder_new\<lparr>project_files := ps\<rparr>)"
  have "caches_exact ?r" by (rule caches_built) (use syms assms in blast)
  moreover have ids: "ids_of_file (sync_file_to_nodes ?r) = ids_of_file ?r" by (rule ids_of_file_cong) simp
  moreover have "range_entries (sync_file_to_nodes ?r) f = range_entries ?r f" for f
    by (rule range_entries_cong) (simp_all add: ids)
  ultimately show ?thesis
    unfolding b by (simp add: caches_exact_def names_exact_def ranges_exact_def ranges_cover_def)
qed

text \<open>
  Seeding restores the builder.  When no symbol of the project is called \<open><module>\<close>, the
  name cache and both lookups of a builder seeded from the layer of a full build are those the
  full build itself had: a scoped build resolves names, including the ambiguous short names,
  and enclosing symbols exactly as the full build did.
\<close>

theorem seeding_restores_lookups:
  assumes "\<forall>p ss s. en_symbols en p = Inr ss \<and> s \<in> set ss \<longrightarrow> symbol_qn s \<noteq> module_qualified_name"
  shows "name_to_id (seeded (b_layer (build en))) = name_to_id (build en)
    \<and> find_symbol_in_file (seeded (b_layer (build en))) = find_symbol_in_file (build en)
    \<and> find_enclosing_symbol (seeded (b_layer (build en))) = find_enclosing_symbol (build en)"
proof -
  obtain files ps where b: "build en = sync_file_to_nodes (run_passes en files (builder_new\<lparr>project_files := ps\<rparr>))"
    by (rule build_cases)
  let ?r = "run_passes en files (builder_new\<lparr>project_files := ps\<rparr>)"
  have ids: "ids_of_file (sync_file_to_nodes ?r) = ids_of_file ?r" by (rule ids_of_file_cong) simp
  have "indexed ?r" by (rule run_passes_indexed [OF indexed_empty])
  then have "distinct (map fst (file_to_nodes ?r))" by (simp add: indexed_def file_index_def)
  from map_of_synced [OF this] have files: "bt_inv (layer_files (b_layer (build en)))"
    "layer_ids (b_layer (build en)) = ids_of_file (build en)"
    unfolding b ids by (simp_all add: layer_ids_def ids_of_file_def fun_eq_iff)
  show ?thesis
    using caches_determine_lookups [OF built_caches [OF assms] caches_seeded [OF files(1)]] files(2)
    by (simp add: seeded_fields ids_of_seeded)
qed


text \<open>
  C38.  References are attributed to the innermost symbol.  In a built project the symbol found
  for a range is a symbol of the file whose range encloses it and whose span, by lines and
  then by end column, is smallest among the enclosing symbols of the file; the module is
  reported only when no symbol encloses the range, and nothing is reported only when there
  is not even a module node.
\<close>

theorem enclosing_symbol_innermost:
  assumes "\<forall>p ss s. en_symbols en p = Inr ss \<and> s \<in> set ss \<longrightarrow> symbol_qn s \<noteq> module_qualified_name"
  shows "case find_enclosing_symbol (build en) f r of
      None \<Rightarrow> \<not> has_node (build en) (make_module_durable_id f)
              \<and> (\<forall>e\<in>set (range_entries (build en) f). \<not> entry_encloses r e)
    | Some i \<Rightarrow>
        (\<exists>e\<in>set (range_entries (build en) f). entry_id e = i \<and> entry_encloses r e
           \<and> (\<forall>e'\<in>set (range_entries (build en) f). entry_encloses r e' \<longrightarrow> span_key e \<le> span_key e'))
        \<or> (i = make_module_durable_id f \<and> (\<forall>e\<in>set (range_entries (build en) f). \<not> entry_encloses r e))"
proof -
  let ?b = "build en" and ?es = "range_entries (build en) f"
  have cached: "(case range_cache ?b f of None \<Rightarrow> [] | Some x \<Rightarrow> x) = sort_key span_key ?es"
    using built_caches [OF assms] by (rule cached_ranges)
  show ?thesis
  proof (cases "find (entry_encloses r) (sort_key span_key ?es)")
    case None
    then have "\<forall>e\<in>set ?es. \<not> entry_encloses r e" unfolding find_None_iff set_sort by blast
    with None show ?thesis by (auto simp: find_enclosing_symbol_def cached Let_def)
  next
    case (Some e)
    then obtain ys zs where split: "sort_key span_key ?es = ys @ e # zs" "\<forall>y\<in>set ys. \<not> entry_encloses r y" "entry_encloses r e"
      by (auto dest: find_Some_split)
    have "sorted (map span_key (ys @ e # zs))" using sorted_sort_key [of span_key ?es] split(1) by simp
    then have "\<forall>e'\<in>set zs. span_key e \<le> span_key e'" by (simp add: sorted_append)
    moreover have "set ?es = set (ys @ e # zs)" using split(1) by (metis set_sort)
    ultimately have "\<forall>e'\<in>set ?es. entry_encloses r e' \<longrightarrow> span_key e \<le> span_key e'" "e \<in> set ?es" using split(2) by auto
    with Some split(3) show ?thesis by (auto simp: find_enclosing_symbol_def cached)
  qed
qed


section \<open>Concrete projects\<close>

text \<open>
  Three modules in a chain: \<open>a\<close> defines class \<open>A\<close>, with a method \<open>f\<close> when the flag is set;
  \<open>b\<close> imports \<open>A\<close> for its class \<open>B\<close>; \<open>c\<close> imports \<open>B\<close> for its class \<open>C\<close>, which defines
  \<open>f\<close>.
\<close>

definition at_line :: "u32 \<Rightarrow> u32 \<Rightarrow> range_dto" where
  "at_line a b = Range (Position a 1) (Position b 9)"

definition class_symbol :: "str \<Rightarrow> symbol_dto" where
  "class_symbol name = \<lparr>sy_name = name, sy_qualified_name = Some name, sy_kind = KClass, sy_path = [], sy_range = at_line 3 6,
     sy_selection_range = None, sy_container_name = None, sy_deprecated = False, sy_durable_id = Some name,
     sy_content_hash = Some ''h'', sy_content_hashes = []\<rparr>"

definition method_symbol :: "str \<Rightarrow> str \<Rightarrow> symbol_dto" where
  "method_symbol cls name = \<lparr>sy_name = name, sy_qualified_name = Some (cls @ ''.'' @ name), sy_kind = KMethod, sy_path = [],
     sy_range = at_line 4 5, sy_selection_range = None, sy_container_name = Some cls, sy_deprecated = False,
     sy_durable_id = Some (cls @ name), sy_content_hash = Some ''h'', sy_content_hashes = []\<rparr>"

definition import_of :: "str \<Rightarrow> str \<Rightarrow> occurrence" where
  "import_of f name = \<lparr>oc_range = at_line 1 1, oc_name = Some name, oc_target_file = Some f, oc_target_name = Some name,
     oc_target_qualified_name = None, oc_role = RoleImport\<rparr>"

definition chain_symbols :: "bool \<Rightarrow> str \<Rightarrow> (str, symbol_dto list) result" where
  "chain_symbols with_f p =
     (if p = ''/p/a'' then Inr (class_symbol ''A'' # (if with_f then [method_symbol ''A'' ''f''] else []))
      else if p = ''/p/b'' then Inr [class_symbol ''B'']
      else if p = ''/p/c'' then Inr [class_symbol ''C'', method_symbol ''C'' ''f'']
      else Inl ''no such file'')"

definition chain_occurrences :: "str \<Rightarrow> (str, occurrence list) result" where
  "chain_occurrences p =
     (if p = ''/p/b'' then Inr [import_of ''/p/a'' ''A'']
      else if p = ''/p/c'' then Inr [import_of ''/p/b'' ''B'']
      else Inr [])"

definition chain_supertypes :: "str \<Rightarrow> u32 \<Rightarrow> u32 \<Rightarrow> (str, hierarchy_item list) result" where
  "chain_supertypes p l c =
     (if p = ''/p/b'' then Inr [\<lparr>hi_name = ''A'', hi_path = ''/p/a''\<rparr>]
      else if p = ''/p/c'' then Inr [\<lparr>hi_name = ''B'', hi_path = ''/p/b''\<rparr>]
      else Inr [])"

definition chain_engine :: "bool \<Rightarrow> engine" where
  "chain_engine with_f = \<lparr>en_root = ''/p'', en_files = [''/p/a'', ''/p/b'', ''/p/c''],
     en_symbols = chain_symbols with_f, en_occurrences = chain_occurrences, en_supertypes = chain_supertypes,
     en_goto = (\<lambda>_ _ _. Inl ''none'')\<rparr>"

definition chain_layer :: code_layer where
  "chain_layer = fst (produce_code_delta (chain_engine True) code_layer_new 1 True)"

lemma chain_produced: "produced chain_layer"
  by (simp add: chain_layer_def produced_full)

lemma chain_names: "\<forall>p ss s. en_symbols (chain_engine b) p = Inr ss \<and> s \<in> set ss \<longrightarrow> symbol_qn s \<noteq> module_qualified_name"
  by (auto simp: chain_engine_def chain_symbols_def symbol_qn_def class_symbol_def method_symbol_def
      module_qualified_name_def split: if_splits)


text \<open>The layer of the full build with the method, written out.\<close>

definition chain_graph :: code_layer where
  "chain_graph =
     \<lparr>nodes = [(''<module>a'', module_node ''a''), (''<module>b'', module_node ''b''), (''<module>c'', module_node ''c''),
        (''A'', symbol_node ''a'' (class_symbol ''A'')), (''Af'', symbol_node ''a'' (method_symbol ''A'' ''f'')),
        (''B'', symbol_node ''b'' (class_symbol ''B'')), (''C'', symbol_node ''c'' (class_symbol ''C'')),
        (''Cf'', symbol_node ''c'' (method_symbol ''C'' ''f''))],
      edges = [Edge ''<module>a'' ''A'' Defines None None None,
        Edge ''<module>b'' ''<module>a'' Imports None (Some ''b'') (Some (1, 1, 1, 9)),
        Edge ''<module>b'' ''B'' Defines None None None,
        Edge ''<module>c'' ''<module>b'' Imports None (Some ''c'') (Some (1, 1, 1, 9)),
        Edge ''<module>c'' ''C'' Defines None None None, Edge ''A'' ''Af'' Contains None None None,
        Edge ''B'' ''A'' Inherits None None None, Edge ''C'' ''B'' Inherits None None None,
        Edge ''C'' ''Cf'' Contains None None None, Edge ''Cf'' ''Af'' Overrides None None None],
      reverse_deps = [(''<module>a'', [''<module>b'']), (''<module>b'', [''<module>c'']),
        (''A'', [''B'']), (''Af'', [''Cf'']), (''B'', [''C''])],
      layer_files = [(''a'', [''<module>a'', ''A'', ''Af'']), (''b'', [''<module>b'', ''B'']),
        (''c'', [''<module>c'', ''C'', ''Cf''])]\<rparr>"

lemma full_layer: "fst (produce_code_delta en prev rv rescan) = b_layer (build en)"
  by (simp add: produce_code_delta_def Let_def)

lemma scoped_layer_eq: "fst (produce_code_delta_scoped en prev seeds rv) = b_layer (build_scoped en seeds (seeded prev))"
  by (simp add: produce_code_delta_scoped_def Let_def)

lemma chain_layer_eq: "chain_layer = chain_graph"
  unfolding chain_layer_def full_layer by code_simp

text \<open>The scoped build after the method was deleted, step by step: \<open>b\<close> is dirty as an importer, \<open>c\<close> is not.\<close>

definition chain_current :: "str \<rightharpoonup> str" where
  "chain_current = [''a'' \<mapsto> ''/p/a'', ''b'' \<mapsto> ''/p/b'', ''c'' \<mapsto> ''/p/c'']"

definition chain_dirty :: "file_symbols list" where
  "chain_dirty = [\<lparr>fs_graph_path = ''a'', fs_native_path = ''/p/a'', fs_symbols = [class_symbol ''A'']\<rparr>,
     \<lparr>fs_graph_path = ''b'', fs_native_path = ''/p/b'', fs_symbols = [class_symbol ''B'']\<rparr>]"

definition chain_evicted :: builder where
  "chain_evicted = fold evict_file [''b'', ''a''] ((seeded chain_graph)\<lparr>project_files := {''a'', ''b'', ''c''}\<rparr>)"

lemma chain_listed:
  "fold (list_file (chain_engine False)) (en_files (chain_engine False)) (b, Map.empty) =
     (b\<lparr>project_files := {''c'', ''b'', ''a''} \<union> project_files b\<rparr>, chain_current)"
  by (simp add: chain_engine_def list_file_def to_graph_path_def strip_prefix_def chain_current_def Let_def insert_commute)

lemma seeded_project_files: "project_files (seeded prev) = {}"
proof -
  have "project_files (fold (replay_name f) ids b) = project_files b" for f ids b
    by (induction ids arbitrary: b) (auto simp: replay_name_def split: option.splits)
  then have "project_files (fold (\<lambda>(f, ids) b. build_range_cache f (fold (replay_name f) ids b)) fs b) = project_files b" for fs b
    by (induction fs arbitrary: b) auto
  then show ?thesis by (simp add: seeded_def)
qed

lemma chain_scoped_eq:
  "build_scoped (chain_engine False) [''a''] (seeded chain_graph) =
     sync_file_to_nodes (gc_external_stubs (run_passes (chain_engine False) chain_dirty chain_evicted))"
proof -
  have dirty: "expand_dirty chain_graph [''a''] = [''b'', ''a'']" by code_simp
  have files: "collect_dirty (chain_engine False) chain_current [''b'', ''a''] = chain_dirty"
    unfolding chain_current_def chain_dirty_def by code_simp
  show ?thesis
    unfolding build_scoped_def chain_listed
    by (simp add: rebuild_dirty_def seeded_fields dirty files chain_evicted_def seeded_project_files insert_commute)
qed

lemma chain_scoped_open:
  "\<not> edges_closed (b_layer (sync_file_to_nodes (gc_external_stubs (run_passes (chain_engine False) chain_dirty chain_evicted))))"
  by code_simp


theorem produced_layer_exact_witness:
  "produced chain_layer \<and> reverse_deps chain_layer = derived_reverse_deps chain_layer
   \<and> layer_ids chain_layer ''c'' = [''<module>c'', ''C'', ''Cf'']"
proof (intro conjI)
  show "produced chain_layer" by (rule chain_produced)
  show "reverse_deps chain_layer = derived_reverse_deps chain_layer"
    using produced_layer_exact [OF chain_produced] by (rule conjunct1)
  show "layer_ids chain_layer ''c'' = [''<module>c'', ''C'', ''Cf'']"
    unfolding chain_layer_eq by code_simp
qed

theorem producer_promises_witness:
  "edges_closed (fst (produce_code_delta (chain_engine False) chain_layer 2 False))
   \<and> no_dead_stub (fst (produce_code_delta_scoped (chain_engine False) chain_layer [''a''] 2))
   \<and> new_targets_present chain_layer (fst (produce_code_delta_scoped (chain_engine False) chain_layer [''a''] 2))"
  by (rule producer_promises) (rule chain_produced)

theorem seeding_restores_lookups_witness:
  "find_symbol_in_file (seeded chain_layer) = find_symbol_in_file (build (chain_engine True))
   \<and> find_symbol_in_file (seeded chain_layer) ''c'' ''f'' = Some ''Cf''"
proof
  have l: "chain_layer = b_layer (build (chain_engine True))" by (simp add: chain_layer_def full_layer)
  show "find_symbol_in_file (seeded chain_layer) = find_symbol_in_file (build (chain_engine True))"
    unfolding l using seeding_restores_lookups [OF chain_names] by blast
  show "find_symbol_in_file (seeded chain_layer) ''c'' ''f'' = Some ''Cf''"
    unfolding chain_layer_eq by code_simp
qed

theorem enclosing_symbol_innermost_witness:
  "case find_enclosing_symbol (build (chain_engine True)) ''c'' (at_line 5 5) of
      None \<Rightarrow> \<not> has_node (build (chain_engine True)) (make_module_durable_id ''c'')
              \<and> (\<forall>e\<in>set (range_entries (build (chain_engine True)) ''c''). \<not> entry_encloses (at_line 5 5) e)
    | Some i \<Rightarrow>
        (\<exists>e\<in>set (range_entries (build (chain_engine True)) ''c''). entry_id e = i \<and> entry_encloses (at_line 5 5) e
           \<and> (\<forall>e'\<in>set (range_entries (build (chain_engine True)) ''c''). entry_encloses (at_line 5 5) e' \<longrightarrow> span_key e \<le> span_key e'))
        \<or> (i = make_module_durable_id ''c'' \<and> (\<forall>e\<in>set (range_entries (build (chain_engine True)) ''c''). \<not> entry_encloses (at_line 5 5) e))"
  by (rule enclosing_symbol_innermost) (rule chain_names)

text \<open>
  A scoped build can leave a dangling edge.  A method \<open>C.f\<close> overrides \<open>A.f\<close> two
  inheritance steps away, and the module of \<open>C\<close> imports only the module in between.  When
  \<open>A.f\<close> is deleted, the dirty scope is the module of \<open>A\<close> and its importer, the override edge is
  carried over, and its target is gone; a full build over the same content has no such edge.
\<close>

theorem scoped_build_can_dangle:
  "edges_closed chain_layer
   \<and> \<not> edges_closed (fst (produce_code_delta_scoped (chain_engine False) chain_layer [''a''] 2))
   \<and> edges_closed (fst (produce_code_delta (chain_engine False) chain_layer 2 False))"
proof (intro conjI)
  show "edges_closed chain_layer" using build_layer by (simp add: chain_layer_def full_layer)
  show "\<not> edges_closed (fst (produce_code_delta_scoped (chain_engine False) chain_layer [''a''] 2))"
    unfolding scoped_layer_eq chain_layer_eq chain_scoped_eq by (rule chain_scoped_open)
  show "edges_closed (fst (produce_code_delta (chain_engine False) chain_layer 2 False))"
    using build_layer by (simp add: full_layer)
qed

text \<open>
  The project root is stripped as a string: a file of a sibling directory whose name extends the
  root's is taken for a file of the project.
\<close>

lemma sibling_directory_in_project: "to_graph_path ''/work/app'' ''/work/app-lib/m.py'' = ''-lib/m.py''"
  by code_simp

text \<open>A single module that imports one name of the standard library.\<close>

definition stub_engine :: engine where
  "stub_engine = \<lparr>en_root = ''/p'', en_files = [''/p/m''], en_symbols = (\<lambda>_. Inr []),
     en_occurrences = (\<lambda>_. Inr [import_of ''/typeshed/os.pyi'' ''path'']),
     en_supertypes = (\<lambda>_ _ _. Inr []), en_goto = (\<lambda>_ _ _. Inr [])\<rparr>"

definition stub_layer :: code_layer where
  "stub_layer = b_layer (build stub_engine)"

text \<open>
  A full build can leave an external stub that no edge refers to: for \<open>from os import path\<close>
  the stub of the name is created, but only the edge between the modules is added.  The next
  scoped build, even one with nothing dirty, drops the stub, so the two builds differ on the
  same content.
\<close>

theorem full_build_leaves_dead_stub:
  "map_of (nodes (fst (produce_code_delta stub_engine code_layer_new 1 True))) ''stdlib::path'' \<noteq> None
   \<and> ''stdlib::path'' \<notin> eg_target ` set (edges (fst (produce_code_delta stub_engine code_layer_new 1 True)))
   \<and> map_of (nodes (fst (produce_code_delta_scoped stub_engine
        (fst (produce_code_delta stub_engine code_layer_new 1 True)) [] 2))) ''stdlib::path'' = None"
  unfolding full_layer scoped_layer_eq stub_layer_def [symmetric]
proof (intro conjI)
  show "map_of (nodes stub_layer) ''stdlib::path'' \<noteq> None" by code_simp
  show dead: "''stdlib::path'' \<notin> eg_target ` set (edges stub_layer)" by code_simp
  show "map_of (nodes (b_layer (build_scoped stub_engine [] (seeded stub_layer)))) ''stdlib::path'' = None"
    by code_simp
qed

end
