(* ===== verification/Coordinates.thy ===== *)
theory Coordinates
  imports CodeLayer Paths
begin

text \<open>
  Conversion between the 1-based line and column positions of the Python side and byte
  offsets (\<open>rust/src/coordinates.rs\<close>).  The line index of the source text is ruff's
  \<open>LineIndex\<close>, a parameter: the record \<open>line_index\<close> holds the three calls the source makes on
  it.  Lines and columns are 32-bit words where the code has \<open>u32\<close>, so subtraction is checked
  and the length cast wraps.
\<close>

section \<open>Definitions\<close>

type_synonym text_size = nat

record line_index =
  li_line_count :: nat
  li_offset :: "nat \<Rightarrow> nat \<Rightarrow> text_size"
  li_source_location :: "text_size \<Rightarrow> nat \<times> nat"

datatype position_error =
    LineMustBePositive
  | ColumnMustBePositive
  | LineExceedsFile u32 nat
  | ColumnExceedsLine u32 nat nat

definition checked_sub :: "u32 \<Rightarrow> u32 \<Rightarrow> u32 option" where
  "checked_sub a b = (if b \<le> a then Some (a - b) else None)"

definition strip_cr :: "str \<Rightarrow> str" where
  "strip_cr s = (if s \<noteq> [] \<and> last s = CHR 0x0D then butlast s else s)"

text \<open>\<open>source.split('\n').nth(idx).unwrap_or("")\<close> without a trailing carriage return.\<close>

definition line_text :: "str \<Rightarrow> nat \<Rightarrow> str" where
  "line_text source idx =
     (let rows = split_char (CHR 0x0A) source
      in strip_cr (if idx < length rows then rows ! idx else []))"

definition position_to_offset_with_index ::
  "str \<Rightarrow> line_index \<Rightarrow> u32 \<Rightarrow> u32 \<Rightarrow> (position_error, text_size) result" where
  "position_to_offset_with_index source li line column =
     rbind (ok_or (checked_sub line 1) LineMustBePositive) (\<lambda>line0.
     rbind (ok_or (checked_sub column 1) ColumnMustBePositive) (\<lambda>col0.
       let line_idx = unat line0; col = unat col0; total = li_line_count li in
       if total \<le> line_idx then Inl (LineExceedsFile line total)
       else
         let chars = length (line_text source line_idx) in
         if chars < col then Inl (ColumnExceedsLine column (line_idx + 1) chars)
         else Inr (li_offset li line_idx col)))"

definition position_to_offset_clamped_line_end_with_index ::
  "str \<Rightarrow> line_index \<Rightarrow> u32 \<Rightarrow> u32 \<Rightarrow> (position_error, text_size) result" where
  "position_to_offset_clamped_line_end_with_index source li line column =
     (case position_to_offset_with_index source li line column of
        Inr offset \<Rightarrow> Inr offset
      | Inl _ \<Rightarrow>
          rbind (ok_or (checked_sub line 1) LineMustBePositive) (\<lambda>line0.
            let line_idx = unat line0 in
            if li_line_count li \<le> line_idx then Inl (LineExceedsFile line (li_line_count li))
            else position_to_offset_with_index source li line (of_nat (length (line_text source line_idx)) + 1)))"

text \<open>\<open>OneIndexed\<close> counts from one; \<open>as u32\<close> keeps the low 32 bits.\<close>

definition location_to_dto :: "nat \<times> nat \<Rightarrow> position_dto" where
  "location_to_dto loc = (case loc of (line, character) \<Rightarrow> Position (of_nat line) (of_nat (character - 1 + 1)))"

definition range_to_dto_with_index :: "line_index \<Rightarrow> text_size \<times> text_size \<Rightarrow> range_dto" where
  "range_to_dto_with_index li r =
     Range (location_to_dto (li_source_location li (fst r))) (location_to_dto (li_source_location li (snd r)))"

section \<open>Accepted positions\<close>

text \<open>A position inside the file: an existing line, a column at most one past its last character.\<close>

definition position_valid :: "str \<Rightarrow> line_index \<Rightarrow> u32 \<Rightarrow> u32 \<Rightarrow> bool" where
  "position_valid source li line column \<longleftrightarrow>
     1 \<le> line \<and> 1 \<le> column \<and> unat line \<le> li_line_count li
     \<and> unat column \<le> length (line_text source (unat line - 1)) + 1"

lemma checked_sub_one: "checked_sub a 1 = (if a = 0 then None else Some (a - 1))"
  using word_le_sub1 [of a] word_gt_0 [of a] by (auto simp: checked_sub_def word_le_nat_alt unat_eq_0 le_Suc_eq Suc_le_eq)

lemma one_le_word: "1 \<le> (a :: u32) \<longleftrightarrow> a \<noteq> 0"
  using word_gt_0 [of a] by (simp add: word_le_nat_alt word_less_nat_alt Suc_le_eq)

lemmas position_simps = position_to_offset_with_index_def checked_sub_one ok_or_def rbind_def Let_def unat_minus_one
  position_valid_def one_le_word

lemma position_ok_iff:
  "position_to_offset_with_index source li line column = Inr off \<longleftrightarrow>
     position_valid source li line column \<and> off = li_offset li (unat line - 1) (unat column - 1)"
proof (cases "line = 0 \<or> column = 0")
  case False
  then have "0 < unat line" "0 < unat column" by (simp_all add: unat_gt_0)
  with False show ?thesis by (auto simp: position_simps)
qed (auto simp: position_simps)

lemma line_end_column:
  assumes "n + 1 < 2 ^ 32"
  shows "unat (of_nat n + 1 :: u32) = n + 1"
proof -
  have "unat (of_nat (n + 1) :: u32) = n + 1" using assms by (simp add: unat_of_nat del: of_nat_add of_nat_Suc)
  then show ?thesis by (simp add: ac_simps)
qed

lemma clamped_ok_iff:
  assumes "length (line_text source (unat line - 1)) + 1 < 2 ^ 32"
  shows "position_to_offset_clamped_line_end_with_index source li line column = Inr off \<longleftrightarrow>
     1 \<le> line \<and> unat line \<le> li_line_count li
     \<and> off = li_offset li (unat line - 1)
          (if column = 0 then length (line_text source (unat line - 1))
           else min (unat column - 1) (length (line_text source (unat line - 1))))"
proof (cases "position_valid source li line column")
  case True
  then have "position_to_offset_with_index source li line column = Inr (li_offset li (unat line - 1) (unat column - 1))"
    by (simp add: position_ok_iff)
  with True show ?thesis
    by (auto simp: position_to_offset_clamped_line_end_with_index_def position_valid_def one_le_word min_def)
next
  case False
  let ?n = "length (line_text source (unat line - 1))"
  obtain e where e: "position_to_offset_with_index source li line column = Inl e"
    using False position_ok_iff by (cases "position_to_offset_with_index source li line column") auto
  have n: "unat (of_nat ?n + 1 :: u32) = ?n + 1" "(of_nat ?n + 1 :: u32) \<noteq> 0"
    using line_end_column [OF assms] by auto
  show ?thesis
  proof (cases "1 \<le> line \<and> unat line \<le> li_line_count li")
    case True
    then have l: "line \<noteq> 0" "0 < unat line" by (auto simp: one_le_word unat_gt_0)
    have "position_valid source li line (of_nat ?n + 1)" using True n by (simp add: position_valid_def one_le_word)
    then have "position_to_offset_with_index source li line (of_nat ?n + 1) = Inr (li_offset li (unat line - 1) ?n)"
      using n by (simp add: position_ok_iff)
    moreover have "column = 0 \<or> ?n + 1 < unat column" using False True by (auto simp: position_valid_def one_le_word)
    ultimately show ?thesis using True e l
      by (auto simp: position_to_offset_clamped_line_end_with_index_def position_simps)
  next
    case False
    then show ?thesis using e
      by (auto simp: position_to_offset_clamped_line_end_with_index_def position_simps unat_gt_0)
  qed
qed

section \<open>Properties\<close>

text \<open>
  C24.  Positions are checked exactly.  A position is accepted iff its line exists and its
  column is at most one past the last character of that line, and then it is the offset of
  that character.  The clamped form, used for the end of a range, accepts every position on
  an existing line and moves a column outside the line to the line's end.
\<close>

theorem position_bounds:
  assumes "length (line_text source (unat line - 1)) + 1 < 2 ^ 32"
  shows "(position_to_offset_with_index source li line column = Inr off \<longleftrightarrow>
      1 \<le> line \<and> 1 \<le> column \<and> unat line \<le> li_line_count li
      \<and> unat column \<le> length (line_text source (unat line - 1)) + 1
      \<and> off = li_offset li (unat line - 1) (unat column - 1))
    \<and> (position_to_offset_clamped_line_end_with_index source li line column = Inr off \<longleftrightarrow>
      1 \<le> line \<and> unat line \<le> li_line_count li
      \<and> off = li_offset li (unat line - 1)
          (if column = 0 then length (line_text source (unat line - 1))
           else min (unat column - 1) (length (line_text source (unat line - 1)))))"
  using position_ok_iff [of source li line column off] clamped_ok_iff [OF assms, of li column off]
  by (auto simp: position_valid_def)

text \<open>The index of the two lines \<open>ab\<close> and \<open>c\<close>.\<close>

definition sample_source :: str where
  "sample_source = ''ab'' @ [CHR 0x0A] @ ''c''"

definition sample_index :: line_index where
  "sample_index = \<lparr>li_line_count = 2, li_offset = \<lambda>l c. 3 * l + c,
     li_source_location = \<lambda>off. if off \<le> 2 then (1, off + 1) else (2, off - 2)\<rparr>"

theorem position_bounds_witness:
  "position_to_offset_with_index sample_source sample_index 1 3 = Inr 2
   \<and> position_to_offset_clamped_line_end_with_index sample_source sample_index 2 9 = Inr 4"
  using position_bounds [of sample_source 1 sample_index 3 2] position_bounds [of sample_source 2 sample_index 9 4]
  by (simp add: sample_source_def sample_index_def line_text_def strip_cr_def)

text \<open>
  C25.  Positions survive the round trip through offsets: when the line index takes the offset
  of a character back to its line and column, converting two accepted positions to offsets
  and the range between them back gives the positions.
\<close>

theorem position_roundtrip:
  assumes "\<forall>l c. l < li_line_count li \<and> c \<le> length (line_text source l) \<longrightarrow>
      li_source_location li (li_offset li l c) = (l + 1, c + 1)"
    and "position_to_offset_with_index source li l1 c1 = Inr from" "position_to_offset_with_index source li l2 c2 = Inr to"
  shows "range_to_dto_with_index li (from, to) = Range (Position l1 c1) (Position l2 c2)"
proof -
  have "location_to_dto (li_source_location li off) = Position l c"
    if ok: "position_to_offset_with_index source li l c = Inr off" for l c off
  proof -
    have v: "position_valid source li l c" and off: "off = li_offset li (unat l - 1) (unat c - 1)"
      using ok by (simp_all add: position_ok_iff)
    have "0 < unat l" "0 < unat c" using v by (simp_all add: position_valid_def one_le_word unat_gt_0)
    moreover have "unat l - 1 < li_line_count li" "unat c - 1 \<le> length (line_text source (unat l - 1))"
      using v calculation unfolding position_valid_def by linarith+
    ultimately have "li_source_location li off = (unat l, unat c)" using assms(1) off by simp
    with \<open>0 < unat c\<close> show ?thesis by (simp add: location_to_dto_def)
  qed
  with assms(2,3) show ?thesis by (simp add: range_to_dto_with_index_def)
qed

theorem position_roundtrip_witness:
  "range_to_dto_with_index sample_index (1, 4) = Range (Position 1 2) (Position 2 2)"
proof (rule position_roundtrip [of sample_index sample_source 1 2 1 2 2 4])
  show "\<forall>l c. l < li_line_count sample_index \<and> c \<le> length (line_text sample_source l) \<longrightarrow>
      li_source_location sample_index (li_offset sample_index l c) = (l + 1, c + 1)"
    by (auto simp: sample_index_def sample_source_def line_text_def strip_cr_def less_Suc_eq numeral_2_eq_2)
qed (simp_all add: position_ok_iff position_valid_def sample_index_def sample_source_def line_text_def strip_cr_def)

text \<open>
  Lines are split at line feeds only, while the line index also ends a line at a lone carriage
  return: of a source with such a line end, positions inside the later lines are rejected.
\<close>

lemma lone_carriage_return:
  "li_line_count li = 2 \<Longrightarrow>
   position_to_offset_with_index (''ab'' @ [CHR 0x0D] @ ''cd'') li 2 2 = Inl (ColumnExceedsLine 2 2 0)"
  by (simp add: position_simps line_text_def strip_cr_def)

end
