(* ===== verification/Edit_Distance.thy ===== *)
theory Edit_Distance
  imports Prelude
begin

text \<open>
  The two-row edit distance of \<open>rust/src/identity.rs\<close> (\<open>edit_distance\<close>), with the array
  writes and the row swap of the code, and its specification: the least number of
  single-character insertions, deletions and substitutions between the two texts.
\<close>

definition edit_cell :: "'a list \<Rightarrow> 'a list \<Rightarrow> nat \<Rightarrow> nat list \<Rightarrow> nat \<Rightarrow> nat list \<Rightarrow> nat list" where
  "edit_cell a b i prev j cur =
     (let cost = (if a ! (i - 1) = b ! (j - 1) then 0 else 1)
      in cur[j := min (min (prev ! j + 1) (cur ! (j - 1) + 1)) (prev ! (j - 1) + cost)])"

definition edit_row :: "'a list \<Rightarrow> 'a list \<Rightarrow> nat \<Rightarrow> nat list \<times> nat list \<Rightarrow> nat list \<times> nat list" where
  "edit_row a b i rows =
     (case rows of (prev, cur) \<Rightarrow>
        let cur = fold (edit_cell a b i prev) [1..<length b + 1] (cur[0 := i])
        in (cur, prev))"

definition edit_distance :: "'a list \<Rightarrow> 'a list \<Rightarrow> nat" where
  "edit_distance a b =
     fst (fold (edit_row a b) [1..<length a + 1] ([0..<length b + 1], replicate (length b + 1) 0))
       ! length b"

section \<open>Specification\<close>

inductive edit_step :: "'a list \<Rightarrow> 'a list \<Rightarrow> bool" where
  ins_char: "edit_step ys (c # ys)"
| del_char: "edit_step (c # ys) ys"
| sub_char: "edit_step (c # ys) (d # ys)"
| later: "edit_step ys zs \<Longrightarrow> edit_step (c # ys) (c # zs)"

inductive_cases edit_step_ConsE: "edit_step (c # ys) zs"
inductive_cases edit_step_NilE: "edit_step [] zs"

lemma edit_step_Cons_cases:
  assumes "edit_step (x # ys) zs"
  obtains (ins) c where "zs = c # x # ys" | (del) "zs = ys" | (sub) d where "zs = d # ys"
    | (tail) zs' where "zs = x # zs'" "edit_step ys zs'"
  using assms by (auto elim: edit_step_ConsE)

text \<open>The recursive distance, and the cost of an alignment of two texts.\<close>

fun lev :: "'a list \<Rightarrow> 'a list \<Rightarrow> nat" where
  "lev [] ys = length ys"
| "lev (x # xs) [] = Suc (length xs)"
| "lev (x # xs) (y # ys) =
     min (min (lev xs (y # ys) + 1) (lev (x # xs) ys + 1)) (lev xs ys + (if x = y then 0 else 1))"

inductive align :: "'a list \<Rightarrow> 'a list \<Rightarrow> nat \<Rightarrow> bool" where
  align_Nil: "align [] [] 0"
| align_same: "align xs ys n \<Longrightarrow> align (x # xs) (x # ys) n"
| align_sub: "align xs ys n \<Longrightarrow> align (x # xs) (y # ys) (Suc n)"
| align_del: "align xs ys n \<Longrightarrow> align (x # xs) ys (Suc n)"
| align_ins: "align xs ys n \<Longrightarrow> align xs (y # ys) (Suc n)"

lemma align_from_Nil: "align [] ys (length ys)"
  by (induction ys) (auto intro: align.intros)

lemma align_to_Nil: "align xs [] (length xs)"
  by (induction xs) (auto intro: align.intros)

lemma align_refl: "align xs xs 0"
  by (induction xs) (auto intro: align.intros)

lemma align_lev: "align xs ys (lev xs ys)"
proof (induction xs ys rule: lev.induct)
  case (1 ys)
  then show ?case by (simp add: align_from_Nil)
next
  case (2 x xs)
  then show ?case using align_to_Nil [of "x # xs"] by simp
next
  case (3 x xs y ys)
  have "align (x # xs) (y # ys) (lev xs (y # ys) + 1)"
    "align (x # xs) (y # ys) (lev (x # xs) ys + 1)"
    "align (x # xs) (y # ys) (lev xs ys + (if x = y then 0 else 1))"
    using 3 by (auto intro: align.intros)
  then show ?case by (simp only: lev.simps min_def split: if_split) blast
qed

lemma lev_to_Nil [simp]: "lev xs [] = length xs"
  by (cases xs) auto

lemma lev_Cons_le: "lev (x # xs) ys \<le> Suc (lev xs ys)"
proof (cases ys)
  case Nil
  then show ?thesis by simp
next
  case (Cons y zs)
  then show ?thesis by (simp add: min_le_iff_disj)
qed

lemma lev_le_Cons: "lev xs (y # ys) \<le> Suc (lev xs ys)"
  by (cases xs) (auto simp: min_le_iff_disj)

lemma lev_le_align: "align xs ys n \<Longrightarrow> lev xs ys \<le> n"
proof (induction rule: align.induct)
  case (align_del xs ys n x)
  then show ?case using lev_Cons_le [of x xs ys] by simp
next
  case (align_ins xs ys n y)
  then show ?case using lev_le_Cons [of xs y ys] by simp
qed (auto simp: min_le_iff_disj)

text \<open>One more edit costs at most one more in the alignment.\<close>

lemma align_edit_step:
  "align xs ys n \<Longrightarrow> edit_step ys zs \<Longrightarrow> \<exists>m. m \<le> Suc n \<and> align xs zs m"
proof (induction arbitrary: zs rule: align.induct)
  case align_Nil
  then obtain c where "zs = [c]" by (auto elim: edit_step_NilE)
  then show ?case using align_ins [OF align.align_Nil, of c] by auto
next
  case (align_same xs ys n x)
  from align_same.prems show ?case
  proof (cases rule: edit_step_Cons_cases)
    case (tail zs')
    with align_same.IH obtain m where "m \<le> Suc n" "align xs zs' m" by blast
    with tail show ?thesis by (auto intro: align.intros)
  qed (use align_same.hyps in \<open>auto intro: align.intros\<close>)
next
  case (align_sub xs ys n x y)
  from align_sub.prems show ?case
  proof (cases rule: edit_step_Cons_cases)
    case del
    with align_sub.hyps show ?thesis by (intro exI [of _ "Suc n"]) (auto intro: align.intros)
  next
    case (sub d)
    with align_sub.hyps show ?thesis by (intro exI [of _ "Suc n"]) (auto intro: align.intros)
  next
    case (tail zs')
    with align_sub.IH obtain m where "m \<le> Suc n" "align xs zs' m" by blast
    with tail show ?thesis by (intro exI [of _ "Suc m"]) (auto intro: align.intros)
  qed (use align_sub.hyps in \<open>auto intro: align.intros\<close>)
next
  case (align_del xs ys n x)
  then obtain m where "m \<le> Suc n" "align xs zs m" by blast
  then show ?case by (intro exI [of _ "Suc m"]) (auto intro: align.intros)
next
  case (align_ins xs ys n y)
  from align_ins.prems show ?case
  proof (cases rule: edit_step_Cons_cases)
    case del
    with align_ins.hyps show ?thesis by (intro exI [of _ n]) simp
  next
    case (sub d)
    with align_ins.hyps show ?thesis by (intro exI [of _ "Suc n"]) (auto intro: align.intros)
  next
    case (tail zs')
    with align_ins.IH obtain m where "m \<le> Suc n" "align xs zs' m" by blast
    with tail show ?thesis by (intro exI [of _ "Suc m"]) (auto intro: align.intros)
  qed (use align_ins.hyps in \<open>auto intro: align.intros\<close>)
qed

lemma lev_lower: "(edit_step ^^ n) xs ys \<Longrightarrow> lev xs ys \<le> n"
proof -
  have "(edit_step ^^ n) xs ys \<Longrightarrow> \<exists>m \<le> n. align xs ys m" for ys
  proof (induction n arbitrary: ys)
    case 0
    then show ?case using align_refl by auto
  next
    case (Suc n)
    then obtain zs where "edit_step zs ys" "(edit_step ^^ n) xs zs" by auto
    moreover from this Suc.IH obtain m where "m \<le> n" "align xs zs m" by blast
    ultimately show ?case using align_edit_step [of xs zs m ys] by (auto intro: le_trans)
  qed
  then show "(edit_step ^^ n) xs ys \<Longrightarrow> lev xs ys \<le> n"
    using lev_le_align le_trans by blast
qed

lemma steps_later: "(edit_step ^^ n) xs ys \<Longrightarrow> (edit_step ^^ n) (c # xs) (c # ys)"
  by (induction n arbitrary: ys) (auto intro: later)

lemma align_steps: "align xs ys n \<Longrightarrow> (edit_step ^^ n) xs ys"
proof (induction rule: align.induct)
  case (align_sub xs ys n x y)
  then have "(edit_step ^^ n) (x # xs) (x # ys)" by (simp add: steps_later)
  then show ?case by (auto intro: sub_char)
next
  case (align_del xs ys n x)
  then show ?case by (intro relpowp_Suc_I2 [of edit_step "x # xs" xs n ys] del_char)
next
  case (align_ins xs ys n y)
  then show ?case by (auto intro: ins_char)
qed (simp_all add: steps_later)

section \<open>The table\<close>

text \<open>The entry for the first \<open>i\<close> characters of one text and the first \<open>j\<close> of the other.\<close>

definition lev_prefix :: "'a list \<Rightarrow> 'a list \<Rightarrow> nat \<Rightarrow> nat \<Rightarrow> nat" where
  "lev_prefix a b i j = lev (rev (take i a)) (rev (take j b))"

lemma lev_prefix_0: "j \<le> length b \<Longrightarrow> lev_prefix a b 0 j = j"
  "i \<le> length a \<Longrightarrow> lev_prefix a b i 0 = i"
  by (simp_all add: lev_prefix_def)

lemma lev_prefix_Suc:
  assumes "i < length a" "j < length b"
  shows "lev_prefix a b (Suc i) (Suc j) =
    min (min (lev_prefix a b i (Suc j) + 1) (lev_prefix a b (Suc i) j + 1))
      (lev_prefix a b i j + (if a ! i = b ! j then 0 else 1))"
  using assms by (simp add: lev_prefix_def take_Suc_conv_app_nth)

lemma edit_row_inner:
  assumes "i < length a" "length prev = length b + 1" "length cur = length b + 1" "k \<le> length b"
    "\<forall>j\<le>length b. prev ! j = lev_prefix a b i j"
  shows "length (fold (edit_cell a b (Suc i) prev) [1..<k + 1] (cur[0 := Suc i])) = length b + 1 \<and>
    (\<forall>j\<le>k. fold (edit_cell a b (Suc i) prev) [1..<k + 1] (cur[0 := Suc i]) ! j =
       lev_prefix a b (Suc i) j)"
  using assms(4)
proof (induction k)
  case 0
  then show ?case using assms(1,3) by (simp add: lev_prefix_0)
next
  case (Suc k)
  let ?c = "fold (edit_cell a b (Suc i) prev) [1..<k + 1] (cur[0 := Suc i])"
  have IH: "length ?c = length b + 1" "\<And>j. j \<le> k \<Longrightarrow> ?c ! j = lev_prefix a b (Suc i) j"
    using Suc by auto
  define c where "c = ?c"
  note IH = IH [folded c_def]
  have "prev ! Suc k = lev_prefix a b i (Suc k)" "prev ! k = lev_prefix a b i k"
    using assms(5) Suc.prems by simp_all
  then have "edit_cell a b (Suc i) prev (Suc k) c = c[Suc k := lev_prefix a b (Suc i) (Suc k)]"
    using IH(2) [of k] Suc.prems by (simp add: edit_cell_def lev_prefix_Suc [OF assms(1)])
  moreover have "fold (edit_cell a b (Suc i) prev) [1..<Suc k + 1] (cur[0 := Suc i]) =
      edit_cell a b (Suc i) prev (Suc k) c"
    by (simp add: c_def)
  moreover have "c[Suc k := v] ! j = (if j = Suc k then v else lev_prefix a b (Suc i) j)" if "j \<le> Suc k" for j v
    using that IH Suc.prems by (auto simp: nth_list_update le_Suc_eq)
  ultimately show ?case using IH(1) by simp
qed

lemma edit_rows:
  assumes "n \<le> length a"
    "fold (edit_row a b) [1..<n + 1] ([0..<length b + 1], replicate (length b + 1) 0) = (prev, cur)"
  shows "length prev = length b + 1 \<and> length cur = length b + 1 \<and>
    (\<forall>j\<le>length b. prev ! j = lev_prefix a b n j)"
  using assms
proof (induction n arbitrary: prev cur)
  case 0
  have "[0..<length b + 1] ! j = j" if "j \<le> length b" for j
    using that by (metis add.left_neutral le_imp_less_Suc nth_upt Suc_eq_plus1)
  with 0 show ?case by (auto simp: lev_prefix_0 simp del: upt_Suc)
next
  case (Suc n)
  obtain p c where f: "fold (edit_row a b) [1..<n + 1] ([0..<length b + 1], replicate (length b + 1) 0) = (p, c)"
    by fastforce
  with Suc.IH Suc.prems(1) have IH: "length p = length b + 1" "length c = length b + 1"
    "\<forall>j\<le>length b. p ! j = lev_prefix a b n j" by auto
  have "[1..<Suc n + 1] = [1..<n + 1] @ [Suc n]" by simp
  with Suc.prems(2) f have "edit_row a b (Suc n) (p, c) = (prev, cur)"
    by (simp del: upt_Suc)
  then have "prev = fold (edit_cell a b (Suc n) p) [1..<length b + 1] (c[0 := Suc n])" "cur = p"
    by (auto simp: edit_row_def Let_def simp del: upt_Suc)
  with edit_row_inner [of n a p b c "length b"] IH Suc.prems(1) show ?case by auto
qed

lemma edit_distance_lev: "edit_distance a b = lev (rev a) (rev b)"
proof -
  obtain p c where "fold (edit_row a b) [1..<length a + 1] ([0..<length b + 1], replicate (length b + 1) 0) = (p, c)"
    by fastforce
  with edit_rows [OF order_refl this] show ?thesis
    by (simp add: edit_distance_def lev_prefix_def del: upt_Suc)
qed

lemma edit_step_append: "edit_step xs ys \<Longrightarrow> edit_step (xs @ w) (ys @ w)"
  by (induction rule: edit_step.induct) (auto intro: edit_step.intros)

lemma edit_step_last: "edit_step w (w @ [c])" "edit_step (w @ [c]) w" "edit_step (w @ [c]) (w @ [d])"
  by (induction w) (auto intro: edit_step.intros)

lemma edit_step_rev: "edit_step xs ys \<Longrightarrow> edit_step (rev xs) (rev ys)"
  by (induction rule: edit_step.induct) (auto intro: edit_step_append edit_step_last)

lemma steps_rev: "(edit_step ^^ n) xs ys \<Longrightarrow> (edit_step ^^ n) (rev xs) (rev ys)"
  by (induction n arbitrary: ys) (auto intro: edit_step_rev)

lemma edit_distance_0_iff: "edit_distance a b = 0 \<longleftrightarrow> a = b"
proof
  assume "edit_distance a b = 0"
  with align_steps [OF align_lev, of "rev a" "rev b"] show "a = b" by (simp add: edit_distance_lev)
next
  assume "a = b"
  with lev_le_align [OF align_refl, of "rev a"] show "edit_distance a b = 0"
    by (simp add: edit_distance_lev)
qed

section \<open>Properties\<close>

text \<open>
  C28. The two-row table computes the Levenshtein distance: \<open>edit_distance a b\<close> is the number
  of edits of a shortest sequence of single-character insertions, deletions and
  substitutions from \<open>a\<close> to \<open>b\<close>.
\<close>

theorem edit_distance_least:
  "(edit_step ^^ edit_distance a b) a b \<and> (\<forall>n. (edit_step ^^ n) a b \<longrightarrow> edit_distance a b \<le> n)"
proof
  have "(edit_step ^^ lev (rev a) (rev b)) (rev (rev a)) (rev (rev b))"
    by (intro steps_rev align_steps align_lev)
  then show "(edit_step ^^ edit_distance a b) a b" by (simp add: edit_distance_lev)
  show "\<forall>n. (edit_step ^^ n) a b \<longrightarrow> edit_distance a b \<le> n"
    by (auto simp: edit_distance_lev intro!: lev_lower steps_rev)
qed

theorem edit_distance_least_witness: "edit_distance ''save'' ''saved'' \<le> 1"
proof -
  have "edit_step ''save'' ''saved''" using edit_step_last(1) [of "''save''" "CHR ''d''"] by simp
  then have "(edit_step ^^ 1) ''save'' ''saved''" by (simp only: relpowp_1)
  then show ?thesis using edit_distance_least [of "''save''" "''saved''"] by blast
qed

end
