(* ===== verification/Reconcile.thy ===== *)
theory Reconcile
  imports Registry Edit_Distance "HOL-Library.Multiset"
begin

text \<open>
  The reconciliation of \<open>rust/src/identity.rs\<close>: matching the entities of a new revision
  against the registry in four passes (exact path, content hash, structure, mint), applying
  the bindings, retiring what vanished, and classifying the outcome for the commit delta.

  \<open>mint\<close> stands for the ULID generator, a source of fresh ids: \<open>mint n\<close> is the id of its
  \<open>n\<close>-th call, and the number of calls so far is threaded through.  The one \<open>expect\<close> of the
  code is the value \<open>None\<close>.
\<close>

section \<open>Data\<close>

type_synonym text_range = "nat \<times> nat"

record entity =
  e_qualified_path :: str
  e_kind :: symbol_kind
  e_content_hash :: content_hash
  e_container :: "str option"
  e_name :: str
  e_file :: str
  e_full_range :: text_range
  e_name_range :: text_range
  e_qualified_name :: str

datatype confidence = Low

datatype binding =
    Exact durable_id content_hash
  | Moved durable_id str content_hash
  | Struct durable_id confidence content_hash
  | Minted durable_id

record reconciliation =
  bindings :: "(str \<times> binding) list"
  retired :: "durable_id list"
  needs_review :: "durable_id list"

record moved_binding =
  mv_id :: durable_id
  old_qualified_path :: str
  new_qualified_path :: str
  old_file :: str
  new_file :: str

record reconcile_classes =
  created :: "durable_id list"
  changed :: "durable_id list"
  deleted :: "durable_id list"
  moved :: "moved_binding list"

definition file_of_qualified_path :: "str \<Rightarrow> str" where
  "file_of_qualified_path p = (case split_once ''::'' p of Some (f, _) \<Rightarrow> f | None \<Rightarrow> p)"

definition entity_at :: "entity list \<Rightarrow> str \<Rightarrow> entity option" where
  "entity_at entities = map_of (rev (map (\<lambda>e. (e_qualified_path e, e)) entities))"

fun classify_binding ::
  "(str \<Rightarrow> entity option) \<Rightarrow> str \<times> binding \<Rightarrow> reconcile_classes \<Rightarrow> reconcile_classes" where
  "classify_binding at (path, Minted i) c = c\<lparr>created := created c @ [i]\<rparr>"
| "classify_binding at (path, Exact i old_hash) c =
     (if map_option e_content_hash (at path) \<noteq> Some old_hash then c\<lparr>changed := changed c @ [i]\<rparr> else c)"
| "classify_binding at (path, Struct i _ old_hash) c =
     (if map_option e_content_hash (at path) \<noteq> Some old_hash then c\<lparr>changed := changed c @ [i]\<rparr> else c)"
| "classify_binding at (path, Moved i old_path _) c =
     c\<lparr>moved := moved c @
         [\<lparr>mv_id = i, old_qualified_path = old_path, new_qualified_path = path,
           old_file = file_of_qualified_path old_path,
           new_file = (case at path of Some e \<Rightarrow> e_file e | None \<Rightarrow> file_of_qualified_path path)\<rparr>]\<rparr>"

definition classify :: "reconciliation \<Rightarrow> entity list \<Rightarrow> reconcile_classes" where
  "classify rc entities =
     (fold (classify_binding (entity_at entities)) (bindings rc)
        \<lparr>created = [], changed = [], deleted = [], moved = []\<rparr>)\<lparr>deleted := retired rc\<rparr>"

section \<open>Helpers\<close>

definition anchor_file :: "str \<Rightarrow> str option" where
  "anchor_file p = map_option fst (split_once ''::'' p)"

definition anchor_in_scope :: "identity_registry \<Rightarrow> durable_id \<Rightarrow> str set option \<Rightarrow> bool" where
  "anchor_in_scope r i scope =
     (case scope of
        None \<Rightarrow> True
      | Some files \<Rightarrow>
          (case registry_get r i of
             None \<Rightarrow> False
           | Some a \<Rightarrow> (case anchor_file (a_qualified_path a) of None \<Rightarrow> False | Some f \<Rightarrow> f \<in> files)))"

definition anchor_name :: "anchor \<Rightarrow> str" where
  "anchor_name a =
     (case rfind_sub ''::'' (a_qualified_path a) of
        None \<Rightarrow> a_qualified_path a
      | Some i \<Rightarrow> drop (i + 2) (a_qualified_path a))"

definition anchor_container :: "anchor \<Rightarrow> str option" where
  "anchor_container a =
     (case rfind_sub ''::'' (a_qualified_path a) of
        None \<Rightarrow> None
      | Some i \<Rightarrow> if i = 0 then None else Some (take i (a_qualified_path a)))"

section \<open>The passes\<close>

record match_state =
  bound_ids :: "durable_id set"
  matched_entities :: "nat set"
  ms_bindings :: "(str \<times> binding) list"
  bindings_by_path :: "str \<rightharpoonup> binding"
  ms_needs_review :: "durable_id list"
  mint_calls :: nat

fun binding_id :: "binding \<Rightarrow> durable_id" where
  "binding_id (Exact i _) = i"
| "binding_id (Moved i _ _) = i"
| "binding_id (Struct i _ _) = i"
| "binding_id (Minted i) = i"

text \<open>The tail every pass shares: consume the id and the entity, and record the binding.\<close>

definition record_binding :: "nat \<Rightarrow> entity \<Rightarrow> binding \<Rightarrow> bool \<Rightarrow> match_state \<Rightarrow> match_state" where
  "record_binding idx e b review st =
     st\<lparr>ms_needs_review := ms_needs_review st @ (if review then [binding_id b] else []),
        bound_ids := insert (binding_id b) (bound_ids st),
        matched_entities := insert idx (matched_entities st),
        bindings_by_path := (bindings_by_path st)(e_qualified_path e \<mapsto> b),
        ms_bindings := ms_bindings st @ [(e_qualified_path e, b)]\<rparr>"

definition old_hash_of :: "identity_registry \<Rightarrow> durable_id \<Rightarrow> entity \<Rightarrow> content_hash" where
  "old_hash_of r i e =
     (case registry_get r i of Some a \<Rightarrow> a_content_hash a | None \<Rightarrow> e_content_hash e)"

definition pass_a :: "identity_registry \<Rightarrow> nat \<times> entity \<Rightarrow> match_state \<Rightarrow> match_state" where
  "pass_a r ie st =
     (case ie of (idx, e) \<Rightarrow>
      if idx \<in> matched_entities st then st
      else
        (case by_path r (e_qualified_path e) of
           None \<Rightarrow> st
         | Some i \<Rightarrow>
             if i \<in> bound_ids st then st
             else
               let old_hash = old_hash_of r i e
               in record_binding idx e (Exact i old_hash) (old_hash \<noteq> e_content_hash e) st))"

definition hash_candidates ::
  "identity_registry \<Rightarrow> str set option \<Rightarrow> entity \<Rightarrow> match_state \<Rightarrow> durable_id list" where
  "hash_candidates r scope e st =
     filter (\<lambda>c. case registry_get r c of
                  None \<Rightarrow> False
                | Some a \<Rightarrow> a_qualified_path a \<noteq> e_qualified_path e \<or> by_path r (a_qualified_path a) = None)
       (filter (\<lambda>c. c \<notin> bound_ids st \<and> anchor_in_scope r c scope) (ids_by_hash r (e_content_hash e)))"

definition pass_b ::
  "identity_registry \<Rightarrow> str set option \<Rightarrow> nat \<times> entity \<Rightarrow> match_state \<Rightarrow> match_state" where
  "pass_b r scope ie st =
     (case ie of (idx, e) \<Rightarrow>
      if idx \<in> matched_entities st then st
      else
        (case min_opt (hash_candidates r scope e st) of
           None \<Rightarrow> st
         | Some i \<Rightarrow>
             let (old_path, old_hash) =
               (case registry_get r i of
                  Some a \<Rightarrow> (a_qualified_path a, a_content_hash a)
                | None \<Rightarrow> ([], e_content_hash e))
             in record_binding idx e (Moved i old_path old_hash) False st))"

definition struct_candidates ::
  "identity_registry \<Rightarrow> str set option \<Rightarrow> entity \<Rightarrow> match_state \<Rightarrow> (durable_id \<times> nat) list" where
  "struct_candidates r scope e st =
     map (\<lambda>(i, a). (i, edit_distance (a_qualified_path a) (e_qualified_path e)))
       (filter (\<lambda>(i, a). i \<notin> bound_ids st \<and> anchor_in_scope r i scope \<and> anchor_name a = e_name e
            \<and> a_kind a = e_kind e \<and> anchor_container a = e_container e) (by_id r))"

definition pass_c ::
  "identity_registry \<Rightarrow> str set option \<Rightarrow> nat \<times> entity \<Rightarrow> match_state \<Rightarrow> match_state" where
  "pass_c r scope ie st =
     (case ie of (idx, e) \<Rightarrow>
      if idx \<in> matched_entities st then st
      else
        (case sort_key (\<lambda>(i, d). (d, i)) (struct_candidates r scope e st) of
           [] \<Rightarrow> st
         | (i, _) # _ \<Rightarrow> record_binding idx e (Struct i Low (old_hash_of r i e)) True st))"

definition pass_d :: "(nat \<Rightarrow> durable_id) \<Rightarrow> nat \<times> entity \<Rightarrow> match_state \<Rightarrow> match_state" where
  "pass_d mint ie st =
     (case ie of (idx, e) \<Rightarrow>
      if idx \<in> matched_entities st then st
      else (record_binding idx e (Minted (mint (mint_calls st))) False st)\<lparr>mint_calls := mint_calls st + 1\<rparr>)"

definition sort_entities :: "entity list \<Rightarrow> entity list" where
  "sort_entities = sort_key (\<lambda>e. (e_qualified_path e, e_content_hash e))"

definition match_init :: "nat \<Rightarrow> match_state" where
  "match_init n = \<lparr>bound_ids = {}, matched_entities = {}, ms_bindings = [], bindings_by_path = Map.empty,
     ms_needs_review = [], mint_calls = n\<rparr>"

definition match_entities ::
  "(nat \<Rightarrow> durable_id) \<Rightarrow> identity_registry \<Rightarrow> str set option \<Rightarrow> entity list \<Rightarrow> nat \<Rightarrow> match_state" where
  "match_entities mint r scope es n =
     (let ies = List.enumerate 0 es
      in fold (pass_d mint) ies (fold (pass_c r scope) ies (fold (pass_b r scope) ies
           (fold (pass_a r) ies (match_init n)))))"

section \<open>Applying the bindings\<close>

definition new_anchor :: "durable_id \<Rightarrow> entity \<Rightarrow> revision \<Rightarrow> anchor" where
  "new_anchor i e rv =
     \<lparr>a_id = i, a_qualified_path = e_qualified_path e, a_content_hash = e_content_hash e, a_kind = e_kind e,
      a_first_seen_rev = rv, a_last_seen_rev = rv, a_status = Active\<rparr>"

definition rebind_entity ::
  "durable_id list \<Rightarrow> revision \<Rightarrow> entity \<Rightarrow> durable_id \<Rightarrow> identity_registry \<Rightarrow> identity_registry" where
  "rebind_entity review rv e i r =
     (let r1 = rebind i (e_qualified_path e) (e_content_hash e) rv r
      in if i \<notin> set review then set_status i Active r1 else r1)"

fun apply_binding ::
  "durable_id list \<Rightarrow> revision \<Rightarrow> entity \<Rightarrow> binding \<Rightarrow> identity_registry \<Rightarrow> identity_registry" where
  "apply_binding review rv e (Minted i) r = registry_insert (new_anchor i e rv) r"
| "apply_binding review rv e (Exact i _) r = rebind_entity review rv e i r"
| "apply_binding review rv e (Moved i _ _) r = rebind_entity review rv e i r"
| "apply_binding review rv e (Struct i _ _) r = rebind_entity review rv e i r"

definition apply_entity ::
  "match_state \<Rightarrow> revision \<Rightarrow> entity \<Rightarrow> identity_registry \<Rightarrow> identity_registry option" where
  "apply_entity st rv e r =
     (case bindings_by_path st (e_qualified_path e) of
        None \<Rightarrow> None
      | Some b \<Rightarrow> Some (apply_binding (ms_needs_review st) rv e b r))"

definition retire_vanished ::
  "durable_id set \<Rightarrow> str set option \<Rightarrow> revision \<Rightarrow> durable_id \<Rightarrow> identity_registry \<times> durable_id list
   \<Rightarrow> identity_registry \<times> durable_id list" where
  "retire_vanished bound scope rv i acc =
     (case acc of (r, out) \<Rightarrow>
      if i \<in> bound then (r, out)
      else if \<not> anchor_in_scope r i scope then (r, out)
      else if (case registry_get r i of Some a \<Rightarrow> a_status a = Orphaned | None \<Rightarrow> False) then (r, out)
      else (retire i rv r, out @ [i]))"

definition reconcile_impl ::
  "(nat \<Rightarrow> durable_id) \<Rightarrow> identity_registry \<Rightarrow> entity list \<Rightarrow> revision \<Rightarrow> str set option \<Rightarrow> nat
   \<Rightarrow> (identity_registry \<times> reconciliation \<times> nat) option" where
  "reconcile_impl mint r entities rv scope n =
     (let sorted_es = sort_entities entities;
          st = match_entities mint r scope sorted_es n
      in Option.bind (fold_option (apply_entity st rv) sorted_es r) (\<lambda>r1.
         let r2 = fold (\<lambda>i. set_status i NeedsReview) (ms_needs_review st) r1;
             (r3, out) = fold (retire_vanished (bound_ids st) scope rv) (map fst (by_id r2)) (r2, [])
         in Some (r3, \<lparr>bindings = ms_bindings st, retired = out, needs_review = ms_needs_review st\<rparr>,
                  mint_calls st)))"

definition reconcile ::
  "(nat \<Rightarrow> durable_id) \<Rightarrow> identity_registry \<Rightarrow> entity list \<Rightarrow> revision \<Rightarrow> nat
   \<Rightarrow> (identity_registry \<times> reconciliation \<times> nat) option" where
  "reconcile mint r entities rv n = reconcile_impl mint r entities rv None n"

definition reconcile_scoped ::
  "(nat \<Rightarrow> durable_id) \<Rightarrow> identity_registry \<Rightarrow> entity list \<Rightarrow> revision \<Rightarrow> str set \<Rightarrow> nat
   \<Rightarrow> (identity_registry \<times> reconciliation \<times> nat) option" where
  "reconcile_scoped mint r entities rv scope n = reconcile_impl mint r entities rv (Some scope) n"

section \<open>What a match means\<close>

text \<open>
  \<open>justified\<close> says why an entity may carry a binding; \<open>review_flag\<close> which bindings ask for
  human review; \<open>fresh_mint\<close> what the code relies on of the id generator.
\<close>

fun review_flag :: "entity \<Rightarrow> binding \<Rightarrow> bool" where
  "review_flag e (Exact _ old_hash) = (old_hash \<noteq> e_content_hash e)"
| "review_flag e (Struct _ _ _) = True"
| "review_flag e _ = False"

fun justified :: "identity_registry \<Rightarrow> str set option \<Rightarrow> entity \<Rightarrow> binding \<Rightarrow> bool" where
  "justified r scope e (Exact i old_hash) =
     (by_path r (e_qualified_path e) = Some i \<and> old_hash = old_hash_of r i e)"
| "justified r scope e (Moved i old_path old_hash) =
     (\<exists>a. registry_get r i = Some a \<and> i \<in> set (ids_by_hash r (e_content_hash e)) \<and>
        anchor_in_scope r i scope \<and> old_path = a_qualified_path a \<and> old_hash = a_content_hash a)"
| "justified r scope e (Struct i _ old_hash) =
     (\<exists>a. registry_get r i = Some a \<and> anchor_in_scope r i scope \<and> anchor_name a = e_name e \<and>
        a_kind a = e_kind e \<and> anchor_container a = e_container e \<and> old_hash = old_hash_of r i e)"
| "justified r scope e (Minted i) = (registry_get r i = None)"

definition fresh_mint :: "(nat \<Rightarrow> durable_id) \<Rightarrow> identity_registry \<Rightarrow> nat \<Rightarrow> bool" where
  "fresh_mint mint r n \<longleftrightarrow> inj mint \<and> (\<forall>k\<ge>n. registry_get r (mint k) = None)"

definition known_ids :: "(nat \<Rightarrow> durable_id) \<Rightarrow> identity_registry \<Rightarrow> nat \<Rightarrow> nat \<Rightarrow> durable_id set" where
  "known_ids mint r n k = {i. registry_get r i \<noteq> None} \<union> mint ` {n..<k}"

definition match_known :: "(nat \<Rightarrow> durable_id) \<Rightarrow> identity_registry \<Rightarrow> nat \<Rightarrow> match_state \<Rightarrow> bool" where
  "match_known mint r n st \<longleftrightarrow> n \<le> mint_calls st \<and> bound_ids st \<subseteq> known_ids mint r n (mint_calls st)"

definition match_inv ::
  "(nat \<Rightarrow> durable_id) \<Rightarrow> identity_registry \<Rightarrow> str set option \<Rightarrow> entity list \<Rightarrow> nat \<Rightarrow> match_state \<Rightarrow> bool" where
  "match_inv mint r scope es n st \<longleftrightarrow>
     match_known mint r n st \<and>
     matched_entities st \<subseteq> {..<length es} \<and>
     bindings_by_path st = map_of (rev (ms_bindings st)) \<and>
     distinct (map (binding_id \<circ> snd) (ms_bindings st)) \<and>
     bound_ids st = set (map (binding_id \<circ> snd) (ms_bindings st)) \<and>
     set (ms_needs_review st) \<subseteq> bound_ids st \<and>
     mset (map fst (ms_bindings st)) =
       image_mset (\<lambda>idx. e_qualified_path (es ! idx)) (mset_set (matched_entities st)) \<and>
     (\<forall>(p, b)\<in>set (ms_bindings st). \<exists>idx\<in>matched_entities st. p = e_qualified_path (es ! idx) \<and>
        justified r scope (es ! idx) b \<and>
        (binding_id b \<in> set (ms_needs_review st) \<longleftrightarrow> review_flag (es ! idx) b))"

lemma record_binding_fields [simp]:
  "bound_ids (record_binding idx e b v st) = insert (binding_id b) (bound_ids st)"
  "matched_entities (record_binding idx e b v st) = insert idx (matched_entities st)"
  "ms_bindings (record_binding idx e b v st) = ms_bindings st @ [(e_qualified_path e, b)]"
  "bindings_by_path (record_binding idx e b v st) = (bindings_by_path st)(e_qualified_path e \<mapsto> b)"
  "ms_needs_review (record_binding idx e b v st) = ms_needs_review st @ (if v then [binding_id b] else [])"
  "mint_calls (record_binding idx e b v st) = mint_calls st"
  by (simp_all add: record_binding_def)

lemma match_invD:
  assumes "match_inv mint r scope es n st"
  shows "match_known mint r n st" "matched_entities st \<subseteq> {..<length es}"
    "bindings_by_path st = map_of (rev (ms_bindings st))"
    "distinct (map (binding_id \<circ> snd) (ms_bindings st))"
    "bound_ids st = set (map (binding_id \<circ> snd) (ms_bindings st))"
    "set (ms_needs_review st) \<subseteq> bound_ids st"
    "mset (map fst (ms_bindings st)) =
       image_mset (\<lambda>idx. e_qualified_path (es ! idx)) (mset_set (matched_entities st))"
    "(p, b) \<in> set (ms_bindings st) \<Longrightarrow> \<exists>idx\<in>matched_entities st. p = e_qualified_path (es ! idx) \<and>
        justified r scope (es ! idx) b \<and>
        (binding_id b \<in> set (ms_needs_review st) \<longleftrightarrow> review_flag (es ! idx) b)"
  using assms unfolding match_inv_def by blast+

lemma match_inv_record_justified:
  assumes inv: "match_inv mint r scope es n st"
    and b: "binding_id b \<notin> bound_ids st" "justified r scope (es ! idx) b"
    and st': "st' = (record_binding idx (es ! idx) b (review_flag (es ! idx) b) st)\<lparr>mint_calls := k\<rparr>"
    and pc: "(p, c) \<in> set (ms_bindings st')"
  shows "\<exists>j\<in>matched_entities st'. p = e_qualified_path (es ! j) \<and> justified r scope (es ! j) c \<and>
      (binding_id c \<in> set (ms_needs_review st') \<longleftrightarrow> review_flag (es ! j) c)"
proof -
  consider "(p, c) \<in> set (ms_bindings st)" | "p = e_qualified_path (es ! idx)" "c = b"
    using pc st' by auto
  then show ?thesis
  proof cases
    case 1
    from match_invD(5) [OF inv] 1 have "binding_id c \<in> bound_ids st" by force
    then have ne: "binding_id c \<noteq> binding_id b" using b(1) by auto
    from match_invD(8) [OF inv 1] obtain j where "j \<in> matched_entities st" "p = e_qualified_path (es ! j)"
      "justified r scope (es ! j) c" "binding_id c \<in> set (ms_needs_review st) \<longleftrightarrow> review_flag (es ! j) c"
      by blast
    with ne show ?thesis by (intro bexI [of _ j]) (simp_all add: st')
  next
    case 2
    have "binding_id b \<notin> set (ms_needs_review st)" using match_invD(6) [OF inv] b(1) by blast
    with 2 b(2) show ?thesis by (intro bexI [of _ idx]) (simp_all add: st')
  qed
qed

lemma match_inv_record:
  assumes inv: "match_inv mint r scope es n st" and idx: "idx < length es" "idx \<notin> matched_entities st"
    and b: "binding_id b \<notin> bound_ids st" "justified r scope (es ! idx) b"
    and k: "mint_calls st \<le> k" "binding_id b \<in> known_ids mint r n k"
  shows "match_inv mint r scope es n
    ((record_binding idx (es ! idx) b (review_flag (es ! idx) b) st)\<lparr>mint_calls := k\<rparr>)"
    (is "match_inv _ _ _ _ _ ?st")
proof -
  note i = match_invD [OF inv]
  have fin: "finite (matched_entities st)" using i(2) finite_subset by blast
  have "known_ids mint r n (mint_calls st) \<subseteq> known_ids mint r n k"
    using k(1) by (auto simp: known_ids_def)
  then have 1: "match_known mint r n ?st"
    using i(1) k by (auto simp: match_known_def)
  have 2: "matched_entities ?st \<subseteq> {..<length es}" using i(2) idx(1) by simp
  have 3: "bindings_by_path ?st = map_of (rev (ms_bindings ?st))" using i(3) by simp
  have 4: "distinct (map (binding_id \<circ> snd) (ms_bindings ?st))" using i(4,5) b(1) by simp
  have 5: "bound_ids ?st = set (map (binding_id \<circ> snd) (ms_bindings ?st))" using i(5) by simp
  have 6: "set (ms_needs_review ?st) \<subseteq> bound_ids ?st" using i(6) by auto
  have 7: "mset (map fst (ms_bindings ?st)) =
      image_mset (\<lambda>idx. e_qualified_path (es ! idx)) (mset_set (matched_entities ?st))"
    using i(7) fin idx(2) by simp
  have 8: "\<forall>(p, c)\<in>set (ms_bindings ?st). \<exists>j\<in>matched_entities ?st. p = e_qualified_path (es ! j) \<and>
      justified r scope (es ! j) c \<and> (binding_id c \<in> set (ms_needs_review ?st) \<longleftrightarrow> review_flag (es ! j) c)"
    using match_inv_record_justified [OF inv b refl] by blast
  show ?thesis
    unfolding match_inv_def by (intro conjI 1 2 3 4 5 6 7 8)
qed

text \<open>The contract of a pass: what one iteration may do to the matching.\<close>

locale matching_pass =
  fixes step :: "(nat \<Rightarrow> durable_id) \<Rightarrow> identity_registry \<Rightarrow> str set option \<Rightarrow> nat \<times> entity
    \<Rightarrow> match_state \<Rightarrow> match_state"
  assumes step_shape: "step mint r scope (idx, e) st = st \<or>
      (\<exists>b k. step mint r scope (idx, e) st = (record_binding idx e b (review_flag e b) st)\<lparr>mint_calls := k\<rparr>)"
    and step_justified: "index_sound r \<Longrightarrow> fresh_mint mint r n \<Longrightarrow> match_known mint r n st \<Longrightarrow>
      step mint r scope (idx, e) st = st \<or>
      (\<exists>b k. step mint r scope (idx, e) st = (record_binding idx e b (review_flag e b) st)\<lparr>mint_calls := k\<rparr> \<and>
         idx \<notin> matched_entities st \<and> binding_id b \<notin> bound_ids st \<and> justified r scope e b \<and>
         mint_calls st \<le> k \<and> binding_id b \<in> known_ids mint r n k)"
begin

lemma step_inv:
  assumes "index_sound r" "fresh_mint mint r n" "match_inv mint r scope es n st" "idx < length es"
  shows "match_inv mint r scope es n (step mint r scope (idx, es ! idx) st)"
  using step_justified [OF assms(1,2), of st scope idx "es ! idx"] match_inv_record [OF assms(3,4)] assms(3)
  by (auto simp: match_inv_def [of mint r scope es n st])

lemma fold_inv:
  assumes "index_sound r" "fresh_mint mint r n" "\<forall>(idx, e)\<in>set ies. idx < length es \<and> e = es ! idx"
    "match_inv mint r scope es n st"
  shows "match_inv mint r scope es n (fold (step mint r scope) ies st)"
  using assms(3,4) by (induction ies arbitrary: st) (auto intro: step_inv [OF assms(1,2)])

lemma step_keeps:
  "matched_entities st \<subseteq> matched_entities (step mint r scope (idx, e) st) \<and>
   set (ms_bindings st) \<subseteq> set (ms_bindings (step mint r scope (idx, e) st)) \<and>
   dom (bindings_by_path st) \<subseteq> dom (bindings_by_path (step mint r scope (idx, e) st))"
  using step_shape [of mint r scope idx e st] by (elim disjE exE) auto

lemma fold_keeps:
  "matched_entities st \<subseteq> matched_entities (fold (step mint r scope) ies st) \<and>
   set (ms_bindings st) \<subseteq> set (ms_bindings (fold (step mint r scope) ies st)) \<and>
   dom (bindings_by_path st) \<subseteq> dom (bindings_by_path (fold (step mint r scope) ies st))"
proof (induction ies arbitrary: st)
  case (Cons ie ies)
  obtain idx e where "ie = (idx, e)" by (cases ie)
  with Cons [of "step mint r scope ie st"] step_keeps [of st mint r scope idx e] show ?case by simp blast
qed simp

text \<open>A consumed entity always has a binding under its path, whatever the registry holds.\<close>

lemma fold_bound:
  assumes "\<forall>(idx, e)\<in>set ies. e = es ! idx"
    "\<forall>idx\<in>matched_entities st. e_qualified_path (es ! idx) \<in> dom (bindings_by_path st)"
  shows "\<forall>idx\<in>matched_entities (fold (step mint r scope) ies st).
    e_qualified_path (es ! idx) \<in> dom (bindings_by_path (fold (step mint r scope) ies st))"
  using assms
proof (induction ies arbitrary: st)
  case (Cons ie ies)
  obtain idx where ie: "ie = (idx, es ! idx)" using Cons.prems(1) by (cases ie) auto
  have "\<forall>j\<in>matched_entities (step mint r scope ie st).
      e_qualified_path (es ! j) \<in> dom (bindings_by_path (step mint r scope ie st))"
    using step_shape [of mint r scope idx "es ! idx" st] Cons.prems(2) unfolding ie by (elim disjE exE) auto
  with Cons show ?case by simp
qed simp

end

lemma record_review_eq:
  "v = review_flag e b \<Longrightarrow> record_binding idx e b v st =
     (record_binding idx e b (review_flag e b) st)\<lparr>mint_calls := mint_calls st\<rparr>"
  by (simp add: record_binding_def)

lemma pass_a_step:
  "pass_a r (idx, e) st = st \<or> (\<exists>i. idx \<notin> matched_entities st \<and> i \<notin> bound_ids st \<and>
     by_path r (e_qualified_path e) = Some i \<and>
     pass_a r (idx, e) st = (record_binding idx e (Exact i (old_hash_of r i e))
       (review_flag e (Exact i (old_hash_of r i e))) st)\<lparr>mint_calls := mint_calls st\<rparr>)"
  by (auto simp: pass_a_def Let_def record_binding_def split: option.splits)

interpretation pa: matching_pass "\<lambda>mint r scope. pass_a r"
proof (unfold_locales, goal_cases)
  case (1 mint r scope idx e st)
  then show ?case using pass_a_step [of r idx e st] by blast
next
  case (2 r mint n st scope idx e)
  show ?case using pass_a_step [of r idx e st]
  proof (elim disjE exE conjE)
    fix i assume i: "idx \<notin> matched_entities st" "i \<notin> bound_ids st" "by_path r (e_qualified_path e) = Some i"
      and eq: "pass_a r (idx, e) st = (record_binding idx e (Exact i (old_hash_of r i e))
       (review_flag e (Exact i (old_hash_of r i e))) st)\<lparr>mint_calls := mint_calls st\<rparr>"
    have "registry_get r i \<noteq> None" using index_soundD(3) [OF 2(1) i(3)] by auto
    with i eq show ?case
      by (intro disjI2 exI [of _ "Exact i (old_hash_of r i e)"] exI [of _ "mint_calls st"])
        (simp add: known_ids_def)
  qed simp
qed

lemma pass_b_step:
  "pass_b r scope (idx, e) st = st \<or> (\<exists>i a. idx \<notin> matched_entities st \<and>
     min_opt (hash_candidates r scope e st) = Some i \<and> registry_get r i = Some a \<and>
     pass_b r scope (idx, e) st = (record_binding idx e (Moved i (a_qualified_path a) (a_content_hash a))
       (review_flag e (Moved i (a_qualified_path a) (a_content_hash a))) st)\<lparr>mint_calls := mint_calls st\<rparr>)"
proof (cases "idx \<in> matched_entities st \<or> min_opt (hash_candidates r scope e st) = None")
  case True
  then have "pass_b r scope (idx, e) st = st" by (auto simp: pass_b_def simp del: min_opt_None)
  then show ?thesis by blast
next
  case False
  then obtain i where i: "min_opt (hash_candidates r scope e st) = Some i" by (auto simp del: min_opt_None)
  from min_opt_in [OF i] obtain a where "registry_get r i = Some a"
    by (auto simp: hash_candidates_def split: option.splits)
  with i False show ?thesis
    by (intro disjI2 exI [of _ i] exI [of _ a]) (auto simp: pass_b_def record_binding_def)
qed

interpretation pb: matching_pass "\<lambda>mint. pass_b"
proof (unfold_locales, goal_cases)
  case (1 mint r scope idx e st)
  then show ?case using pass_b_step [of r scope idx e st] by blast
next
  case (2 r mint n st scope idx e)
  show ?case using pass_b_step [of r scope idx e st]
  proof (elim disjE exE conjE)
    fix i a assume i: "idx \<notin> matched_entities st" "min_opt (hash_candidates r scope e st) = Some i"
      "registry_get r i = Some a"
      and eq: "pass_b r scope (idx, e) st = (record_binding idx e (Moved i (a_qualified_path a) (a_content_hash a))
       (review_flag e (Moved i (a_qualified_path a) (a_content_hash a))) st)\<lparr>mint_calls := mint_calls st\<rparr>"
    have "i \<in> set (hash_candidates r scope e st)" using min_opt_in [OF i(2)] .
    then have "i \<notin> bound_ids st" "anchor_in_scope r i scope" "i \<in> set (ids_by_hash r (e_content_hash e))"
      by (auto simp: hash_candidates_def)
    with i(1,3) eq show ?case
      by (intro disjI2 exI [of _ "Moved i (a_qualified_path a) (a_content_hash a)"] exI [of _ "mint_calls st"])
        (simp add: known_ids_def)
  qed simp
qed

lemma pass_c_step:
  "pass_c r scope (idx, e) st = st \<or> (\<exists>i d. idx \<notin> matched_entities st \<and>
     (i, d) \<in> set (struct_candidates r scope e st) \<and>
     pass_c r scope (idx, e) st = (record_binding idx e (Struct i Low (old_hash_of r i e))
       (review_flag e (Struct i Low (old_hash_of r i e))) st)\<lparr>mint_calls := mint_calls st\<rparr>)"
proof (cases "sort_key (\<lambda>(i, d). (d, i)) (struct_candidates r scope e st)")
  case Nil
  then show ?thesis by (simp add: pass_c_def)
next
  case (Cons x xs)
  obtain i d where x: "x = (i, d)" by (cases x)
  from Cons have "x \<in> set (struct_candidates r scope e st)" by (metis list.set_intros(1) set_sort)
  moreover have "idx \<notin> matched_entities st \<Longrightarrow> pass_c r scope (idx, e) st =
      record_binding idx e (Struct i Low (old_hash_of r i e)) True st"
    using Cons x by (simp add: pass_c_def)
  moreover have "idx \<in> matched_entities st \<Longrightarrow> pass_c r scope (idx, e) st = st" by (simp add: pass_c_def)
  ultimately show ?thesis
    using record_review_eq [of True e "Struct i Low (old_hash_of r i e)" idx st] x by (metis review_flag.simps(2))
qed

interpretation pc: matching_pass "\<lambda>mint. pass_c"
proof (unfold_locales, goal_cases)
  case (1 mint r scope idx e st)
  then show ?case using pass_c_step [of r scope idx e st] by blast
next
  case (2 r mint n st scope idx e)
  show ?case using pass_c_step [of r scope idx e st]
  proof (elim disjE exE conjE)
    fix i d assume i: "idx \<notin> matched_entities st" "(i, d) \<in> set (struct_candidates r scope e st)"
      and eq: "pass_c r scope (idx, e) st = (record_binding idx e (Struct i Low (old_hash_of r i e))
       (review_flag e (Struct i Low (old_hash_of r i e))) st)\<lparr>mint_calls := mint_calls st\<rparr>"
    from i(2) obtain a where a: "(i, a) \<in> set (by_id r)" "i \<notin> bound_ids st" "anchor_in_scope r i scope"
      "anchor_name a = e_name e" "a_kind a = e_kind e" "anchor_container a = e_container e"
      by (auto simp: struct_candidates_def)
    have "registry_get r i = Some a"
      using a(1) index_soundD(1) [OF 2(1)] by (simp add: registry_get_def hm_inv_def)
    with a i(1) eq show ?case
      by (intro disjI2 exI [of _ "Struct i Low (old_hash_of r i e)"] exI [of _ "mint_calls st"])
        (simp add: known_ids_def)
  qed simp
qed

lemma mint_not_bound:
  assumes "fresh_mint mint r n" "match_known mint r n st"
  shows "mint (mint_calls st) \<notin> bound_ids st" "registry_get r (mint (mint_calls st)) = None"
proof -
  have n: "n \<le> mint_calls st" and sub: "bound_ids st \<subseteq> known_ids mint r n (mint_calls st)"
    using assms(2) by (auto simp: match_known_def)
  show new: "registry_get r (mint (mint_calls st)) = None" using assms(1) n by (simp add: fresh_mint_def)
  have "mint (mint_calls st) \<notin> mint ` {n..<mint_calls st}"
    using assms(1) by (auto simp: fresh_mint_def dest: injD)
  with new sub show "mint (mint_calls st) \<notin> bound_ids st" by (auto simp: known_ids_def)
qed

interpretation pd: matching_pass "\<lambda>mint r scope. pass_d mint"
proof (unfold_locales, goal_cases)
  case (1 mint r scope idx e st)
  then show ?case
    by (cases "idx \<in> matched_entities st")
      (auto simp: pass_d_def intro!: exI [of _ "Minted (mint (mint_calls st))"] exI [of _ "mint_calls st + 1"])
next
  case (2 r mint n st scope idx e)
  note m = mint_not_bound [OF 2(2,3)]
  have "n \<le> mint_calls st" using 2(3) by (simp add: match_known_def)
  with m show ?case
    by (cases "idx \<in> matched_entities st")
      (auto simp: pass_d_def known_ids_def intro!: exI [of _ "Minted (mint (mint_calls st))"]
        exI [of _ "mint_calls st + 1"])
qed

section \<open>The complete matching\<close>

lemma enumerate_index: "\<forall>(idx, e)\<in>set (List.enumerate 0 es). idx < length es \<and> e = es ! idx"
  by (auto simp: in_set_enumerate_eq)

lemma match_inv_init: "match_inv mint r scope es n (match_init n)"
  by (simp add: match_inv_def match_init_def match_known_def)

lemma pass_d_matches: "fst ` set ies \<subseteq> matched_entities (fold (pass_d mint) ies st)"
proof (induction ies arbitrary: st)
  case (Cons ie ies)
  have "fst ie \<in> matched_entities (pass_d mint ie st)" by (cases ie) (simp add: pass_d_def)
  then have "fst ie \<in> matched_entities (fold (pass_d mint) ies (pass_d mint ie st))"
    using pd.fold_keeps by blast
  with Cons show ?case by simp
qed simp

lemma match_entities_all: "{..<length es} \<subseteq> matched_entities (match_entities mint r scope es n)"
proof -
  have "fst ` set (List.enumerate 0 es) = {..<length es}"
    by (metis atLeastLessThan_upt lessThan_atLeast0 list.set_map map_fst_enumerate add_0)
  then show ?thesis
    unfolding match_entities_def Let_def using pass_d_matches [of "List.enumerate 0 es"] by metis
qed

lemma match_entities_bound: "e \<in> set es \<Longrightarrow> e_qualified_path e \<in> dom (bindings_by_path (match_entities mint r scope es n))"
proof -
  assume "e \<in> set es"
  then obtain idx where idx: "idx < length es" "e = es ! idx" by (auto simp: in_set_conv_nth)
  let ?ies = "List.enumerate 0 es"
  have ies: "\<forall>(idx, e)\<in>set ?ies. e = es ! idx" using enumerate_index by fastforce
  have "\<forall>idx\<in>matched_entities (match_entities mint r scope es n).
      e_qualified_path (es ! idx) \<in> dom (bindings_by_path (match_entities mint r scope es n))"
    unfolding match_entities_def Let_def
    by (intro pd.fold_bound pc.fold_bound pb.fold_bound pa.fold_bound ies) (simp add: match_init_def)
  with match_entities_all [of es] idx show ?thesis by blast
qed

lemma match_entities_inv:
  assumes "index_sound r" "fresh_mint mint r n"
  shows "match_inv mint r scope es n (match_entities mint r scope es n)"
  unfolding match_entities_def Let_def
  by (intro pd.fold_inv pc.fold_inv pb.fold_inv pa.fold_inv enumerate_index match_inv_init assms)

lemma match_entities_matched:
  assumes "index_sound r" "fresh_mint mint r n"
  shows "matched_entities (match_entities mint r scope es n) = {..<length es}"
  using match_invD(2) [OF match_entities_inv [OF assms]] match_entities_all by blast

lemma match_entities_paths:
  assumes "index_sound r" "fresh_mint mint r n"
  shows "mset (map fst (ms_bindings (match_entities mint r scope es n))) = mset (map e_qualified_path es)"
proof -
  have "mset (map fst (ms_bindings (match_entities mint r scope es n))) =
      image_mset (\<lambda>idx. e_qualified_path (es ! idx)) (mset_set {..<length es})"
    using match_invD(7) [OF match_entities_inv [OF assms]] by (simp add: match_entities_matched [OF assms])
  also have "\<dots> = mset (map (\<lambda>idx. e_qualified_path (es ! idx)) [0..<length es])"
    by (simp only: mset_map mset_upt atLeast0LessThan)
  also have "map (\<lambda>idx. e_qualified_path (es ! idx)) [0..<length es] = map e_qualified_path es"
    by (rule nth_equalityI) simp_all
  finally show ?thesis .
qed

text \<open>With distinct paths, the binding of a path is the binding of its entity.\<close>

lemma binding_of_entity:
  assumes "index_sound r" "fresh_mint mint r n" "distinct (map e_qualified_path es)" "e \<in> set es"
    and st_def: "st = match_entities mint r scope es n"
  shows "\<exists>b. bindings_by_path st (e_qualified_path e) = Some b \<and>
    (e_qualified_path e, b) \<in> set (ms_bindings st) \<and> justified r scope e b \<and>
    (binding_id b \<in> set (ms_needs_review st) \<longleftrightarrow> review_flag e b)"
proof -
  have inv: "match_inv mint r scope es n st"
    unfolding st_def by (rule match_entities_inv [OF assms(1,2)])
  from match_entities_bound [OF assms(4)] obtain b where
    b: "bindings_by_path st (e_qualified_path e) = Some b" unfolding st_def by blast
  then have mem: "(e_qualified_path e, b) \<in> set (ms_bindings st)"
    using match_invD(3) [OF inv] by (auto dest: map_of_SomeD)
  from match_invD(8) [OF inv mem] obtain idx where idx: "idx \<in> matched_entities st"
    "e_qualified_path e = e_qualified_path (es ! idx)" "justified r scope (es ! idx) b"
    "binding_id b \<in> set (ms_needs_review st) \<longleftrightarrow> review_flag (es ! idx) b" by blast
  have "idx < length es" using idx(1) match_invD(2) [OF inv] by blast
  then have "es ! idx = e"
    using assms(3,4) idx(2) by (metis distinct_map inj_onD nth_mem)
  with b mem idx show ?thesis by blast
qed

lemma binding_ids_inj:
  assumes "match_inv mint r scope es n st" "(p, b) \<in> set (ms_bindings st)" "(q, c) \<in> set (ms_bindings st)"
    "binding_id b = binding_id c"
  shows "p = q \<and> b = c"
proof -
  have "inj_on (binding_id \<circ> snd) (set (ms_bindings st))"
    using match_invD(4) [OF assms(1)] by (simp add: distinct_map)
  from inj_onD [OF this _ assms(2,3)] assms(4) show ?thesis by simp
qed

text \<open>An entity whose path is indexed is bound to that id in the first pass.\<close>

lemma by_path_inj: "index_sound r \<Longrightarrow> by_path r p = Some i \<Longrightarrow> by_path r q = Some i \<Longrightarrow> p = q"
  using index_soundD(3) [of r p i] index_soundD(3) [of r q i] by auto

lemma pass_a_exact:
  assumes "index_sound r" "distinct (map e_qualified_path es)" "k \<le> length es"
    and st_def: "st = fold (pass_a r) (take k (List.enumerate 0 es)) (match_init n)"
  shows "matched_entities st \<subseteq> {..<k} \<and>
    (\<forall>i\<in>bound_ids st. \<exists>idx<k. by_path r (e_qualified_path (es ! idx)) = Some i) \<and>
    (\<forall>idx<k. \<forall>i. by_path r (e_qualified_path (es ! idx)) = Some i \<longrightarrow>
       (e_qualified_path (es ! idx), Exact i (old_hash_of r i (es ! idx))) \<in> set (ms_bindings st))"
  unfolding st_def using assms(3)
proof (induction k)
  case 0
  then show ?case by (simp add: match_init_def)
next
  case (Suc k)
  define st where "st = fold (pass_a r) (take k (List.enumerate 0 es)) (match_init n)"
  have IH: "matched_entities st \<subseteq> {..<k}"
    "\<And>i. i \<in> bound_ids st \<Longrightarrow> \<exists>idx<k. by_path r (e_qualified_path (es ! idx)) = Some i"
    "\<And>idx i. idx < k \<Longrightarrow> by_path r (e_qualified_path (es ! idx)) = Some i \<Longrightarrow>
       (e_qualified_path (es ! idx), Exact i (old_hash_of r i (es ! idx))) \<in> set (ms_bindings st)"
    using Suc unfolding st_def by auto
  have fld: "fold (pass_a r) (take (Suc k) (List.enumerate 0 es)) (match_init n) = pass_a r (k, es ! k) st"
    using Suc.prems by (simp add: take_Suc_conv_app_nth nth_enumerate_eq st_def)
  show ?case
  proof (cases "by_path r (e_qualified_path (es ! k))")
    case None
    then have same: "pass_a r (k, es ! k) st = st" by (simp add: pass_a_def)
    show ?thesis unfolding fld same
      using IH None by (auto simp: less_Suc_eq dest!: IH(2))
  next
    case (Some i)
    have "i \<notin> bound_ids st"
    proof
      assume "i \<in> bound_ids st"
      then obtain idx where "idx < k" "by_path r (e_qualified_path (es ! idx)) = Some i" using IH(2) by blast
      with by_path_inj [OF assms(1) _ Some] have "e_qualified_path (es ! idx) = e_qualified_path (es ! k)" by blast
      with \<open>idx < k\<close> assms(2) Suc.prems show False by (simp add: distinct_conv_nth)
    qed
    moreover have "k \<notin> matched_entities st" using IH(1) by auto
    ultimately have new: "pass_a r (k, es ! k) st = record_binding k (es ! k) (Exact i (old_hash_of r i (es ! k)))
        (old_hash_of r i (es ! k) \<noteq> e_content_hash (es ! k)) st"
      using Some by (simp add: pass_a_def Let_def)
    have "\<forall>j\<in>insert i (bound_ids st). \<exists>idx<Suc k. by_path r (e_qualified_path (es ! idx)) = Some j"
      using Some IH(2) less_SucI by blast
    then show ?thesis unfolding fld new
      using IH(1,3) Some by (auto simp: less_Suc_eq)
  qed
qed

lemma exact_match:
  assumes "index_sound r" "distinct (map e_qualified_path es)" "e \<in> set es"
    "by_path r (e_qualified_path e) = Some i"
  shows "(e_qualified_path e, Exact i (old_hash_of r i e)) \<in> set (ms_bindings (match_entities mint r scope es n))"
proof -
  from assms(3) obtain idx where "idx < length es" "e = es ! idx" by (auto simp: in_set_conv_nth)
  with pass_a_exact [OF assms(1,2) order_refl refl, of n] assms(4)
  have "(e_qualified_path e, Exact i (old_hash_of r i e)) \<in>
      set (ms_bindings (fold (pass_a r) (List.enumerate 0 es) (match_init n)))" by simp
  then show ?thesis
    unfolding match_entities_def Let_def using pb.fold_keeps pc.fold_keeps pd.fold_keeps by blast
qed

section \<open>Applying and retiring\<close>

text \<open>The anchor a binding leaves behind, before and after the review flags are set.\<close>

definition applied_anchor ::
  "durable_id list \<Rightarrow> identity_registry \<Rightarrow> revision \<Rightarrow> entity \<Rightarrow> binding \<Rightarrow> anchor" where
  "applied_anchor review r rv e b =
     (case registry_get r (binding_id b) of
        None \<Rightarrow> new_anchor (binding_id b) e rv
      | Some a \<Rightarrow> a\<lparr>a_qualified_path := e_qualified_path e, a_content_hash := e_content_hash e,
          a_last_seen_rev := rv, a_status := (if binding_id b \<in> set review then a_status a else Active)\<rparr>)"

definition bound_anchor :: "identity_registry \<Rightarrow> revision \<Rightarrow> entity \<Rightarrow> binding \<Rightarrow> anchor" where
  "bound_anchor r rv e b =
     (case registry_get r (binding_id b) of
        None \<Rightarrow> new_anchor (binding_id b) e rv
      | Some a \<Rightarrow> a\<lparr>a_qualified_path := e_qualified_path e, a_content_hash := e_content_hash e,
          a_last_seen_rev := rv, a_status := (if review_flag e b then NeedsReview else Active)\<rparr>)"

lemma justified_known:
  "index_sound r \<Longrightarrow> justified r scope e b \<Longrightarrow> registry_get r (binding_id b) = None \<longleftrightarrow> b = Minted (binding_id b)"
  by (cases b) (auto dest: index_soundD(3))

lemma rebind_entity_get:
  "registry_get r i = Some a \<Longrightarrow>
   registry_get (rebind_entity review rv e i r) = (registry_get r)(i \<mapsto>
     a\<lparr>a_qualified_path := e_qualified_path e, a_content_hash := e_content_hash e,
       a_last_seen_rev := rv, a_status := (if i \<in> set review then a_status a else Active)\<rparr>)"
  by (simp add: rebind_entity_def Let_def registry_get_rebind registry_get_set_status)

lemma apply_binding_get:
  assumes "index_sound r0" "justified r0 scope e b" "registry_get r (binding_id b) = registry_get r0 (binding_id b)"
  shows "registry_get (apply_binding review rv e b r) =
    (registry_get r)(binding_id b \<mapsto> applied_anchor review r0 rv e b)"
proof (cases "registry_get r0 (binding_id b)")
  case None
  with justified_known [OF assms(1,2)] obtain i where "b = Minted i" by blast
  with None show ?thesis by (simp add: registry_get_insert new_anchor_def applied_anchor_def)
next
  case (Some a)
  with justified_known [OF assms(1,2)] have "b \<noteq> Minted (binding_id b)" by auto
  then have "apply_binding review rv e b r = rebind_entity review rv e (binding_id b) r" by (cases b) auto
  with Some assms(3) show ?thesis by (simp add: rebind_entity_get applied_anchor_def)
qed

lemma apply_binding_sound: "index_sound r \<Longrightarrow> index_sound (apply_binding review rv e b r)"
  by (cases b) (simp_all add: index_sound_insert index_sound_rebind index_sound_set_status rebind_entity_def Let_def)

text \<open>The apply loop, as a plain fold over the entities and their bindings.\<close>

definition binding_for :: "match_state \<Rightarrow> entity \<Rightarrow> binding" where
  "binding_for st e = the (bindings_by_path st (e_qualified_path e))"

definition apply_all :: "match_state \<Rightarrow> revision \<Rightarrow> entity list \<Rightarrow> identity_registry \<Rightarrow> identity_registry" where
  "apply_all st rv es r = fold (\<lambda>e. apply_binding (ms_needs_review st) rv e (binding_for st e)) es r"

lemma fold_apply_entity:
  assumes "st = match_entities mint r scope es n"
  shows "fold_option (apply_entity st rv) es r' = Some (apply_all st rv es r')"
  unfolding apply_all_def
proof (rule fold_option_Some)
  fix e and acc :: identity_registry assume "e \<in> set es"
  then obtain b where "bindings_by_path st (e_qualified_path e) = Some b"
    using match_entities_bound [of e es] assms by blast
  then show "apply_entity st rv e acc =
      Some (apply_binding (ms_needs_review st) rv e (binding_for st e) acc)"
    by (simp add: apply_entity_def binding_for_def)
qed

lemma apply_all_sound: "index_sound r \<Longrightarrow> index_sound (apply_all st rv es r)"
  unfolding apply_all_def by (induction es arbitrary: r) (simp_all add: apply_binding_sound)

lemma entity_bindings:
  assumes "index_sound r" "fresh_mint mint r n" "distinct (map e_qualified_path es)"
    and st: "st = match_entities mint r scope es n"
  shows "e \<in> set es \<Longrightarrow> bindings_by_path st (e_qualified_path e) = Some (binding_for st e)"
    and "e \<in> set es \<Longrightarrow> (e_qualified_path e, binding_for st e) \<in> set (ms_bindings st)"
    and "e \<in> set es \<Longrightarrow> justified r scope e (binding_for st e)"
    and "e \<in> set es \<Longrightarrow> binding_id (binding_for st e) \<in> set (ms_needs_review st) \<longleftrightarrow> review_flag e (binding_for st e)"
    and "distinct (map (\<lambda>e. binding_id (binding_for st e)) es)"
proof -
  have bd: "bindings_by_path st (e_qualified_path e) = Some (binding_for st e) \<and>
      (e_qualified_path e, binding_for st e) \<in> set (ms_bindings st) \<and> justified r scope e (binding_for st e) \<and>
      (binding_id (binding_for st e) \<in> set (ms_needs_review st) \<longleftrightarrow> review_flag e (binding_for st e))"
    if "e \<in> set es" for e
    using binding_of_entity [OF assms(1-3) that st] by (auto simp: binding_for_def)
  then show "e \<in> set es \<Longrightarrow> bindings_by_path st (e_qualified_path e) = Some (binding_for st e)"
    "e \<in> set es \<Longrightarrow> (e_qualified_path e, binding_for st e) \<in> set (ms_bindings st)"
    "e \<in> set es \<Longrightarrow> justified r scope e (binding_for st e)"
    "e \<in> set es \<Longrightarrow> binding_id (binding_for st e) \<in> set (ms_needs_review st) \<longleftrightarrow> review_flag e (binding_for st e)"
    by blast+
  have inv: "match_inv mint r scope es n st" using match_entities_inv [OF assms(1,2)] st by blast
  have "inj_on (\<lambda>e. binding_id (binding_for st e)) (set es)"
  proof (rule inj_onI)
    fix x y assume xy: "x \<in> set es" "y \<in> set es" "binding_id (binding_for st x) = binding_id (binding_for st y)"
    have "e_qualified_path x = e_qualified_path y"
      using binding_ids_inj [OF inv _ _ xy(3)] bd [OF xy(1)] bd [OF xy(2)] by blast
    with xy assms(3) show "x = y" by (meson distinct_map inj_onD)
  qed
  with assms(3) show "distinct (map (\<lambda>e. binding_id (binding_for st e)) es)" by (simp add: distinct_map)
qed

lemma apply_all_get:
  assumes "index_sound r" "\<And>e. e \<in> set xs \<Longrightarrow> justified r scope e (binding_for st e)"
    "distinct (map (\<lambda>e. binding_id (binding_for st e)) xs)"
  shows "registry_get (apply_all st rv xs r) i =
    (case find (\<lambda>e. binding_id (binding_for st e) = i) xs of
       Some e \<Rightarrow> Some (applied_anchor (ms_needs_review st) r rv e (binding_for st e))
     | None \<Rightarrow> registry_get r i)"
  unfolding apply_all_def
proof (rule fold_distinct_update [OF _ assms(3)])
  fix e s assume "e \<in> set xs" "registry_get s (binding_id (binding_for st e)) = registry_get r (binding_id (binding_for st e))"
  then show "registry_get (apply_binding (ms_needs_review st) rv e (binding_for st e) s) =
      (registry_get s)(binding_id (binding_for st e) \<mapsto> applied_anchor (ms_needs_review st) r rv e (binding_for st e))"
    using apply_binding_get [OF assms(1)] assms(2) by blast
qed

lemma fold_needs_review_get:
  "registry_get (fold (\<lambda>i. set_status i NeedsReview) ids r) i =
     (if i \<in> set ids then map_option (\<lambda>a. a\<lparr>a_status := NeedsReview\<rparr>) (registry_get r i) else registry_get r i)"
  by (induction ids arbitrary: r) (auto simp: registry_get_set_status option.map_comp comp_def split: option.splits)

lemma fold_needs_review_sound: "index_sound r \<Longrightarrow> index_sound (fold (\<lambda>i. set_status i NeedsReview) ids r)"
  by (induction ids arbitrary: r) (simp_all add: index_sound_set_status)

text \<open>Which anchors the last loop retires.\<close>

definition vanishes :: "durable_id set \<Rightarrow> str set option \<Rightarrow> identity_registry \<Rightarrow> durable_id \<Rightarrow> bool" where
  "vanishes bound scope r i \<longleftrightarrow>
     i \<notin> bound \<and> anchor_in_scope r i scope \<and>
     (case registry_get r i of Some a \<Rightarrow> a_status a \<noteq> Orphaned | None \<Rightarrow> True)"

lemma anchor_in_scope_cong:
  "registry_get r i = registry_get r' i \<Longrightarrow> anchor_in_scope r i scope = anchor_in_scope r' i scope"
  by (auto simp: anchor_in_scope_def split: option.splits)

lemma retire_vanished_step:
  "retire_vanished bound scope rv i (r, out) =
     (if vanishes bound scope r i then (retire i rv r, out @ [i]) else (r, out))"
  by (auto simp: retire_vanished_def vanishes_def split: option.splits)

lemma retire_fold:
  assumes "distinct ids" "fold (retire_vanished bound scope rv) ids (r, out0) = (r', out)"
  shows "out = out0 @ filter (vanishes bound scope r) ids \<and>
    (\<forall>i. registry_get r' i =
       (if i \<in> set ids \<and> vanishes bound scope r i
        then map_option (\<lambda>a. a\<lparr>a_last_seen_rev := rv, a_status := Orphaned\<rparr>) (registry_get r i)
        else registry_get r i)) \<and>
    (index_sound r \<longrightarrow> index_sound r')"
  using assms
proof (induction ids arbitrary: r out0)
  case (Cons i ids)
  define r1 where "r1 = (if vanishes bound scope r i then retire i rv r else r)"
  have f: "fold (retire_vanished bound scope rv) ids (r1, out0 @ (if vanishes bound scope r i then [i] else [])) = (r', out)"
    using Cons.prems(2) by (auto simp: r1_def retire_vanished_step split: if_splits)
  have get: "registry_get r1 j = (if j = i \<and> vanishes bound scope r i
      then map_option (\<lambda>a. a\<lparr>a_last_seen_rev := rv, a_status := Orphaned\<rparr>) (registry_get r i)
      else registry_get r j)" for j
    by (auto simp: r1_def registry_get_retire vanishes_def split: option.splits)
  have same: "vanishes bound scope r1 j = vanishes bound scope r j" if "j \<in> set ids" for j
  proof -
    have "registry_get r1 j = registry_get r j" using that Cons.prems(1) get by auto
    then show ?thesis by (simp add: vanishes_def anchor_in_scope_cong [of r1 j r])
  qed
  have "distinct ids" using Cons.prems(1) by simp
  note IH = Cons.IH [OF this f]
  have "filter (vanishes bound scope r1) ids = filter (vanishes bound scope r) ids"
    using same by (intro filter_cong) auto
  moreover have "index_sound r \<Longrightarrow> index_sound r1" by (simp add: r1_def index_sound_retire)
  ultimately show ?case using IH same Cons.prems(1) by (auto simp: get)
qed simp

section \<open>The whole reconciliation\<close>

lemma sort_entities_perm: "mset (sort_entities es) = mset es" "set (sort_entities es) = set es"
  by (simp_all add: sort_entities_def)

lemma sort_entities_distinct:
  "distinct (map e_qualified_path es) \<Longrightarrow> distinct (map e_qualified_path (sort_entities es))"
  by (metis mset_eq_imp_distinct_iff mset_map sort_entities_perm(1))

lemma reconcile_parts:
  assumes "reconcile_impl mint r entities rv scope n = Some (r', rc, n')"
    and "es = sort_entities entities" "st = match_entities mint r scope es n"
  defines "r2 \<equiv> fold (\<lambda>i. set_status i NeedsReview) (ms_needs_review st) (apply_all st rv es r)"
  shows "fold (retire_vanished (bound_ids st) scope rv) (map fst (by_id r2)) (r2, []) = (r', retired rc)"
    "bindings rc = ms_bindings st" "needs_review rc = ms_needs_review st" "n' = mint_calls st"
  using assms(1) fold_apply_entity [OF assms(3), of rv r]
  by (auto simp: reconcile_impl_def assms(2) [symmetric] assms(3) [symmetric] r2_def Let_def split: prod.splits)

lemma reconcile_total: "\<exists>res. reconcile_impl mint r entities rv scope n = Some res"
  using fold_apply_entity [OF refl, of mint r scope "sort_entities entities" n rv r]
  by (simp add: reconcile_impl_def Let_def split: prod.splits)

lemma reconcile_sound:
  assumes "reconcile_impl mint r entities rv scope n = Some (r', rc, n')" "index_sound r"
  shows "index_sound r'"
proof -
  define es where "es = sort_entities entities"
  define st where "st = match_entities mint r scope es n"
  define r2 where "r2 = fold (\<lambda>i. set_status i NeedsReview) (ms_needs_review st) (apply_all st rv es r)"
  note p = reconcile_parts [OF assms(1) es_def st_def, folded r2_def]
  have s2: "index_sound r2" unfolding r2_def by (intro fold_needs_review_sound apply_all_sound assms(2))
  then have "distinct (map fst (by_id r2))" using index_soundD(1) by (auto simp: hm_inv_def)
  from retire_fold [OF this p(1)] s2 show ?thesis by blast
qed

text \<open>The registry after the apply and review loops: first outside the bound ids, for any entities.\<close>

lemma apply_binding_other:
  "i \<noteq> binding_id b \<Longrightarrow> registry_get (apply_binding review rv e b r) i = registry_get r i"
  by (cases b) (auto simp: rebind_entity_def Let_def new_anchor_def registry_get_insert registry_get_rebind
      registry_get_set_status split: option.splits)

lemma apply_all_other:
  assumes "\<And>e. e \<in> set es \<Longrightarrow> binding_id (binding_for st e) \<noteq> i"
  shows "registry_get (apply_all st rv es r) i = registry_get r i"
  using assms unfolding apply_all_def
  by (induction es arbitrary: r) (simp_all add: apply_binding_other [OF not_sym])

lemma binding_for_bound:
  assumes "index_sound r" "fresh_mint mint r n" "e \<in> set es" and st: "st = match_entities mint r scope es n"
  shows "binding_id (binding_for st e) \<in> bound_ids st"
proof -
  have inv: "match_inv mint r scope es n st" unfolding st by (rule match_entities_inv [OF assms(1,2)])
  from match_entities_bound [OF assms(3)] obtain b where
    b: "bindings_by_path st (e_qualified_path e) = Some b" unfolding st by blast
  then have "(e_qualified_path e, b) \<in> set (ms_bindings st)"
    using match_invD(3) [OF inv] by (auto dest: map_of_SomeD)
  with b match_invD(5) [OF inv] show ?thesis by (force simp: binding_for_def)
qed

lemma reviewed_other:
  assumes "index_sound r" "fresh_mint mint r n" and st: "st = match_entities mint r scope es n"
    and i: "i \<notin> bound_ids st"
  shows "registry_get (fold (\<lambda>i. set_status i NeedsReview) (ms_needs_review st) (apply_all st rv es r)) i = registry_get r i"
proof -
  have "i \<notin> set (ms_needs_review st)"
    using i match_invD(6) [OF match_entities_inv [OF assms(1,2), of scope es, folded st]] by blast
  moreover have "registry_get (apply_all st rv es r) i = registry_get r i"
    using binding_for_bound [OF assms(1,2) _ st] i by (intro apply_all_other) blast
  ultimately show ?thesis by (simp add: fold_needs_review_get)
qed

lemma reviewed_get:
  assumes "index_sound r" "fresh_mint mint r n" "distinct (map e_qualified_path es)"
    and st: "st = match_entities mint r scope es n"
    and r2_def: "r2 = fold (\<lambda>i. set_status i NeedsReview) (ms_needs_review st) (apply_all st rv es r)"
    and e: "e \<in> set es"
  shows "registry_get r2 (binding_id (binding_for st e)) = Some (bound_anchor r rv e (binding_for st e))"
proof -
  note bd = entity_bindings [OF assms(1-3) st]
  note get = apply_all_get [OF assms(1) bd(3,5), of rv]
  define b where "b = binding_for st e"
  have "find (\<lambda>e. binding_id (binding_for st e) = binding_id b) es = Some e"
  proof (cases "find (\<lambda>e. binding_id (binding_for st e) = binding_id b) es")
    case None
    with e show ?thesis by (auto simp: find_None_iff b_def)
  next
    case (Some x)
    with find_SomeD_mem [OF Some] e bd(5) have "x = e" by (auto simp: b_def distinct_map inj_on_def)
    with Some show ?thesis by simp
  qed
  with get [of "binding_id b"]
  have g: "registry_get (apply_all st rv es r) (binding_id b) = Some (applied_anchor (ms_needs_review st) r rv e b)"
    by (simp add: b_def)
  have rf: "binding_id b \<in> set (ms_needs_review st) \<longleftrightarrow> review_flag e b" and js: "justified r scope e b"
    using bd(3,4) [OF e] by (simp_all add: b_def)
  have "registry_get r (binding_id b) = None \<Longrightarrow> \<not> review_flag e b"
    using justified_known [OF assms(1) js] by (metis review_flag.simps(4))
  with g rf have "registry_get r2 (binding_id b) = Some (bound_anchor r rv e b)"
    by (cases "registry_get r (binding_id b)")
      (simp_all add: r2_def fold_needs_review_get applied_anchor_def bound_anchor_def)
  then show ?thesis by (simp add: b_def)
qed

text \<open>
  The complete effect of a reconciliation on the anchors: the ids it binds to no entity, for
  any entities, and the ids it binds, for entities with distinct paths.
\<close>

lemma reconcile_unbound:
  assumes rc: "reconcile_impl mint r entities rv scope n = Some (r', rc, n')"
    and "index_sound r" "fresh_mint mint r n"
  shows "i \<notin> binding_id ` snd ` set (bindings rc) \<Longrightarrow> registry_get r' i =
      (if vanishes {} scope r i
       then map_option (\<lambda>a. a\<lparr>a_last_seen_rev := rv, a_status := Orphaned\<rparr>) (registry_get r i)
       else registry_get r i)"
    and "i \<in> set (retired rc) \<longleftrightarrow>
      i \<notin> binding_id ` snd ` set (bindings rc) \<and> registry_get r i \<noteq> None \<and> vanishes {} scope r i"
    and "st = match_entities mint r scope (sort_entities entities) n \<Longrightarrow> i \<in> bound_ids st \<Longrightarrow>
      registry_get r' i = registry_get (fold (\<lambda>i. set_status i NeedsReview) (ms_needs_review st)
        (apply_all st rv (sort_entities entities) r)) i"
proof -
  define es where "es = sort_entities entities"
  define st where "st = match_entities mint r scope es n"
  define r2 where "r2 = fold (\<lambda>i. set_status i NeedsReview) (ms_needs_review st) (apply_all st rv es r)"
  note p = reconcile_parts [OF rc es_def st_def, folded r2_def]
  have bound: "bound_ids st = binding_id ` snd ` set (bindings rc)"
    using match_invD(5) [OF match_entities_inv [OF assms(2,3), of scope es, folded st_def]] p(2)
    by (simp add: image_image)
  have "index_sound r2" unfolding r2_def by (intro fold_needs_review_sound apply_all_sound assms(2))
  then have dist: "distinct (map fst (by_id r2))" using index_soundD(1) by (auto simp: hm_inv_def)
  note ret = retire_fold [OF dist p(1)]
  have ids: "i \<in> set (map fst (by_id r2)) \<longleftrightarrow> registry_get r2 i \<noteq> None" for i
    using dist by (auto simp: registry_get_def map_of_eq_None_iff)
  have other: "i \<notin> bound_ids st \<Longrightarrow> registry_get r2 i = registry_get r i" for i
    unfolding r2_def by (rule reviewed_other [OF assms(2,3) st_def])
  have van: "vanishes (bound_ids st) scope r2 i \<longleftrightarrow> i \<notin> bound_ids st \<and> vanishes {} scope r i" for i
    using other [of i] anchor_in_scope_cong [of r2 i r scope]
    by (cases "i \<in> bound_ids st") (simp_all add: vanishes_def)
  show "i \<notin> binding_id ` snd ` set (bindings rc) \<Longrightarrow> registry_get r' i =
      (if vanishes {} scope r i
       then map_option (\<lambda>a. a\<lparr>a_last_seen_rev := rv, a_status := Orphaned\<rparr>) (registry_get r i)
       else registry_get r i)"
    using other [of i] ret van [of i] ids [of i] by (auto simp: bound)
  have "i \<in> set (retired rc) \<longleftrightarrow> registry_get r2 i \<noteq> None \<and> vanishes (bound_ids st) scope r2 i"
    using ret ids [of i] by auto
  also have "\<dots> \<longleftrightarrow> i \<notin> bound_ids st \<and> registry_get r i \<noteq> None \<and> vanishes {} scope r i"
    using van [of i] other [of i] by (cases "i \<in> bound_ids st") simp_all
  finally show "i \<in> set (retired rc) \<longleftrightarrow>
      i \<notin> binding_id ` snd ` set (bindings rc) \<and> registry_get r i \<noteq> None \<and> vanishes {} scope r i"
    by (simp add: bound)
  show "registry_get r' i = registry_get (fold (\<lambda>i. set_status i NeedsReview) (ms_needs_review st')
        (apply_all st' rv (sort_entities entities) r)) i"
    if "st' = match_entities mint r scope (sort_entities entities) n" "i \<in> bound_ids st'" for st'
  proof -
    have "st' = st" using that(1) by (simp add: st_def es_def)
    with that(2) ret van [of i] show ?thesis by (simp add: r2_def es_def)
  qed
qed

lemma reconcile_get:
  assumes rc: "reconcile_impl mint r entities rv scope n = Some (r', rc, n')"
    and "index_sound r" "fresh_mint mint r n" "distinct (map e_qualified_path entities)" "e \<in> set entities"
  shows "\<exists>b. (e_qualified_path e, b) \<in> set (bindings rc) \<and> justified r scope e b \<and>
      registry_get r' (binding_id b) = Some (bound_anchor r rv e b) \<and>
      (binding_id b \<in> set (needs_review rc) \<longleftrightarrow> review_flag e b)"
proof -
  define es where "es = sort_entities entities"
  define st where "st = match_entities mint r scope es n"
  note p = reconcile_parts [OF rc es_def st_def]
  have d: "distinct (map e_qualified_path es)" using assms(4) by (simp add: es_def sort_entities_distinct)
  have e: "e \<in> set es" using assms(5) by (simp add: es_def sort_entities_perm)
  note bd = entity_bindings [OF assms(2,3) d st_def]
  note r2 = reviewed_get [OF assms(2,3) d st_def refl e, of rv]
  have "registry_get r' (binding_id (binding_for st e)) = Some (bound_anchor r rv e (binding_for st e))"
    using reconcile_unbound(3) [OF rc assms(2,3) st_def [unfolded es_def] binding_for_bound [OF assms(2,3) e st_def]] r2
    by (simp add: es_def)
  with bd(2-4) [OF e] p(2,3) show ?thesis by auto
qed

section \<open>The path index after a reconciliation\<close>

lemma apply_binding_by_path:
  assumes "index_sound r0" "justified r0 scope e b" "registry_get r (binding_id b) = registry_get r0 (binding_id b)"
  shows "by_path (apply_binding review rv e b r) (e_qualified_path e) = Some (binding_id b)"
    and "q \<noteq> e_qualified_path e \<Longrightarrow> (\<And>a. registry_get r0 (binding_id b) = Some a \<Longrightarrow> a_qualified_path a \<noteq> q) \<Longrightarrow>
      by_path (apply_binding review rv e b r) q = by_path r q"
proof -
  have re: "by_path (rebind_entity review rv e i r) =
      ((by_path r)(a_qualified_path a := None, e_qualified_path e \<mapsto> i))" if "registry_get r i = Some a" for i a
    using that by (simp add: rebind_entity_def rebind_def Let_def set_status_def fun_eq_iff split: option.splits)
  have ins: "by_path (registry_insert (new_anchor i e rv) r) = (by_path r)(e_qualified_path e \<mapsto> i)"
    if "registry_get r i = None" for i
    using insert_new_by_path [of r "new_anchor i e rv"] that by (simp add: new_anchor_def)
  note known = justified_known [OF assms(1,2)]
  show "by_path (apply_binding review rv e b r) (e_qualified_path e) = Some (binding_id b)"
    using known assms(3) re ins by (cases b) auto
  show "q \<noteq> e_qualified_path e \<Longrightarrow> (\<And>a. registry_get r0 (binding_id b) = Some a \<Longrightarrow> a_qualified_path a \<noteq> q) \<Longrightarrow>
      by_path (apply_binding review rv e b r) q = by_path r q"
    using known assms(3) re ins by (cases b) auto
qed

lemma apply_keeps_path:
  assumes "index_sound r" "\<And>y. y \<in> set ys \<Longrightarrow> justified r scope y (bd y)" "distinct (map (binding_id \<circ> bd) ys)"
    "\<And>y. y \<in> set ys \<Longrightarrow> registry_get s (binding_id (bd y)) = registry_get r (binding_id (bd y))"
    "\<And>y. y \<in> set ys \<Longrightarrow> e_qualified_path y \<noteq> q"
    "\<And>y a. y \<in> set ys \<Longrightarrow> registry_get r (binding_id (bd y)) = Some a \<Longrightarrow> a_qualified_path a \<noteq> q"
  shows "by_path (fold (\<lambda>e. apply_binding review rv e (bd e)) ys s) q = by_path s q"
  using assms(2-)
proof (induction ys arbitrary: s)
  case (Cons y ys)
  let ?s = "apply_binding review rv y (bd y) s"
  have y: "justified r scope y (bd y)" "registry_get s (binding_id (bd y)) = registry_get r (binding_id (bd y))"
    using Cons.prems by auto
  have others: "registry_get ?s (binding_id (bd z)) = registry_get r (binding_id (bd z))" if "z \<in> set ys" for z
  proof -
    have "binding_id (bd z) \<noteq> binding_id (bd y)" using that Cons.prems(2) by (auto simp: image_iff)
    then show ?thesis using apply_binding_get [OF assms(1) y] Cons.prems(3) that by simp
  qed
  have "by_path ?s q = by_path s q"
    using apply_binding_by_path(2) [OF assms(1) y] Cons.prems(4,5) by (metis list.set_intros(1))
  moreover have "by_path (fold (\<lambda>e. apply_binding review rv e (bd e)) ys ?s) q = by_path ?s q"
  proof (rule Cons.IH)
    show "distinct (map (binding_id \<circ> bd) ys)" using Cons.prems(2) by (simp add: comp_def)
    fix z assume z: "z \<in> set ys"
    then show "justified r scope z (bd z)" "e_qualified_path z \<noteq> q" using Cons.prems(1,4) by auto
    show "registry_get ?s (binding_id (bd z)) = registry_get r (binding_id (bd z))" by (rule others [OF z])
    show "registry_get r (binding_id (bd z)) = Some a \<Longrightarrow> a_qualified_path a \<noteq> q" for a
      using z Cons.prems(5) [of z a] by simp
  qed
  ultimately show ?case by simp
qed simp

text \<open>
  After the apply loop an entity's path is indexed to its id, if no other bound id held the
  path before.
\<close>

lemma apply_all_by_path:
  assumes "index_sound r" "\<And>y. y \<in> set es \<Longrightarrow> justified r scope y (binding_for st y)"
    "distinct (map (\<lambda>e. binding_id (binding_for st e)) es)" "distinct (map e_qualified_path es)" "e \<in> set es"
    and alone: "\<And>y a. y \<in> set es \<Longrightarrow> y \<noteq> e \<Longrightarrow> registry_get r (binding_id (binding_for st y)) = Some a \<Longrightarrow>
      a_qualified_path a \<noteq> e_qualified_path e"
  shows "by_path (apply_all st rv es r) (e_qualified_path e) = Some (binding_id (binding_for st e))"
proof -
  from assms(5) obtain xs ys where es: "es = xs @ e # ys" by (meson split_list)
  define s where "s = apply_all st rv xs r"
  let ?s = "apply_binding (ms_needs_review st) rv e (binding_for st e) s"
  have gets: "registry_get s (binding_id (binding_for st y)) = registry_get r (binding_id (binding_for st y))"
    if "y \<in> set (e # ys)" for y
  proof -
    have "find (\<lambda>x. binding_id (binding_for st x) = binding_id (binding_for st y)) xs = None"
      using assms(3) that by (auto simp: es find_None_iff image_iff)
    then show ?thesis
      unfolding s_def using assms(2,3) by (subst apply_all_get [OF assms(1), of xs scope]) (auto simp: es)
  qed
  have je: "justified r scope e (binding_for st e)" using assms(2,5) by blast
  have ge: "registry_get s (binding_id (binding_for st e)) = registry_get r (binding_id (binding_for st e))"
    by (rule gets) simp
  have "by_path (apply_all st rv es r) (e_qualified_path e) = by_path ?s (e_qualified_path e)"
    unfolding apply_all_def es fold_append comp_apply fold_simps s_def [unfolded apply_all_def, symmetric]
  proof (rule apply_keeps_path [OF assms(1)])
    show "distinct (map (binding_id \<circ> binding_for st) ys)" using assms(3) by (simp add: es comp_def)
    fix y assume y: "y \<in> set ys"
    then show "justified r scope y (binding_for st y)" using assms(2) by (simp add: es)
    show ne: "e_qualified_path y \<noteq> e_qualified_path e" using assms(4) y by (auto simp: es image_iff)
    have "binding_id (binding_for st y) \<noteq> binding_id (binding_for st e)" using assms(3) y by (auto simp: es image_iff)
    then show "registry_get ?s (binding_id (binding_for st y)) = registry_get r (binding_id (binding_for st y))"
      using apply_binding_get [OF assms(1) je ge] gets [of y] y by simp
    show "registry_get r (binding_id (binding_for st y)) = Some a \<Longrightarrow> a_qualified_path a \<noteq> e_qualified_path e" for a
      using alone [of y a] y ne by (auto simp: es)
  qed
  then show ?thesis using apply_binding_by_path(1) [OF assms(1) je ge] by simp
qed

lemma retire_fold_by_path:
  assumes "distinct ids" "fold (retire_vanished bound scope rv) ids (r, out0) = (r', out)"
    "\<And>i a. i \<in> set ids \<Longrightarrow> vanishes bound scope r i \<Longrightarrow> registry_get r i = Some a \<Longrightarrow> a_qualified_path a \<noteq> q"
  shows "by_path r' q = by_path r q"
  using assms
proof (induction ids arbitrary: r out0)
  case (Cons i ids)
  define r1 where "r1 = (if vanishes bound scope r i then retire i rv r else r)"
  have f: "fold (retire_vanished bound scope rv) ids (r1, out0 @ (if vanishes bound scope r i then [i] else [])) = (r', out)"
    using Cons.prems(2) by (auto simp: r1_def retire_vanished_step split: if_splits)
  have same: "registry_get r1 j = registry_get r j" if "j \<in> set ids" for j
    using that Cons.prems(1) by (auto simp: r1_def registry_get_retire split: option.splits)
  have "by_path r1 q = by_path r q"
    using Cons.prems(3) [of i] by (auto simp: r1_def retire_def Let_def split: option.splits)
  moreover have "by_path r' q = by_path r1 q"
  proof (rule Cons.IH [OF _ f])
    show "distinct ids" using Cons.prems(1) by simp
    fix j a assume j: "j \<in> set ids" "vanishes bound scope r1 j" "registry_get r1 j = Some a"
    then have "vanishes bound scope r j"
      using same [OF j(1)] by (simp add: vanishes_def anchor_in_scope_cong [of r1 j r])
    with j same [OF j(1)] Cons.prems(3) [of j a] show "a_qualified_path a \<noteq> q" by simp
  qed
  ultimately show ?case by simp
qed simp

lemma fold_needs_review_by_path:
  "by_path (fold (\<lambda>i. set_status i NeedsReview) ids r) = by_path r"
proof (induction ids arbitrary: r)
  case (Cons i ids)
  have "by_path (set_status i NeedsReview r) = by_path r"
    by (simp add: set_status_def split: option.splits)
  with Cons show ?case by simp
qed simp

lemma reconcile_by_path:
  assumes rc: "reconcile_impl mint r entities rv scope n = Some (r', rc, n')"
    and "index_sound r" "fresh_mint mint r n" "distinct (map e_qualified_path entities)"
    and e: "e \<in> set entities" "(e_qualified_path e, b) \<in> set (bindings rc)"
    and alone: "\<And>j a. registry_get r j = Some a \<Longrightarrow> j \<noteq> binding_id b \<Longrightarrow> a_qualified_path a = e_qualified_path e \<Longrightarrow>
      a_status a = Orphaned \<and> j \<notin> binding_id ` snd ` set (bindings rc)"
  shows "by_path r' (e_qualified_path e) = Some (binding_id b)"
proof -
  define es where "es = sort_entities entities"
  define st where "st = match_entities mint r scope es n"
  define r2 where "r2 = fold (\<lambda>i. set_status i NeedsReview) (ms_needs_review st) (apply_all st rv es r)"
  note p = reconcile_parts [OF rc es_def st_def, folded r2_def]
  have d: "distinct (map e_qualified_path es)" using assms(4) by (simp add: es_def sort_entities_distinct)
  have ees: "e \<in> set es" using e(1) by (simp add: es_def sort_entities_perm)
  note inv = match_entities_inv [OF assms(2,3), of scope es, folded st_def]
  note bd = entity_bindings [OF assms(2,3) d st_def]
  have bound: "bound_ids st = binding_id ` snd ` set (bindings rc)"
    using match_invD(5) [OF inv] p(2) by (simp add: image_image)
  have "mset (map fst (ms_bindings st)) = mset (map e_qualified_path es)"
    using match_entities_paths [OF assms(2,3)] by (simp add: st_def)
  with d have "distinct (map fst (ms_bindings st))" by (metis mset_eq_imp_distinct_iff)
  from eq_key_imp_eq_value [OF this _ e(2) [unfolded p(2)]] bd(2) [OF ees] have be: "binding_for st e = b" by simp
  have "by_path (apply_all st rv es r) (e_qualified_path e) = Some (binding_id b)"
    unfolding be [symmetric]
  proof (rule apply_all_by_path [OF assms(2) bd(3,5) d ees])
    fix y a assume y: "y \<in> set es" "y \<noteq> e" "registry_get r (binding_id (binding_for st y)) = Some a"
    have "binding_id (binding_for st y) \<noteq> binding_id b"
      using bd(5) y(1,2) ees be by (auto simp: distinct_map inj_on_def)
    moreover have "binding_id (binding_for st y) \<in> binding_id ` snd ` set (bindings rc)"
      using bd(2) [OF y(1)] p(2) by force
    ultimately show "a_qualified_path a \<noteq> e_qualified_path e" using alone [OF y(3)] by blast
  qed
  then have "by_path r2 (e_qualified_path e) = Some (binding_id b)"
    by (simp add: r2_def fold_needs_review_by_path)
  moreover have "by_path r' (e_qualified_path e) = by_path r2 (e_qualified_path e)"
  proof (rule retire_fold_by_path [OF _ p(1)])
    have "index_sound r2" unfolding r2_def by (intro fold_needs_review_sound apply_all_sound assms(2))
    then show "distinct (map fst (by_id r2))" using index_soundD(1) by (auto simp: hm_inv_def)
    fix i a assume i: "vanishes (bound_ids st) scope r2 i" "registry_get r2 i = Some a"
    then have nb: "i \<notin> bound_ids st" by (simp add: vanishes_def)
    with reviewed_other [OF assms(2,3) st_def, of i rv] i have ri: "registry_get r i = Some a" by (simp add: r2_def)
    have "i \<noteq> binding_id b" using nb e(2) bound by force
    with alone [OF ri] i show "a_qualified_path a \<noteq> e_qualified_path e" by (auto simp: vanishes_def)
  qed
  ultimately show ?thesis by simp
qed

section \<open>Classification\<close>

text \<open>The delta lists as filters over the bindings.\<close>

lemma fold_classify:
  "fold (classify_binding at) bs c =
     c\<lparr>created := created c @ List.map_filter (\<lambda>(p, b). case b of Minted i \<Rightarrow> Some i | _ \<Rightarrow> None) bs,
       changed := changed c @ List.map_filter (\<lambda>(p, b). case b of
           Exact i h \<Rightarrow> if map_option e_content_hash (at p) \<noteq> Some h then Some i else None
         | Struct i _ h \<Rightarrow> if map_option e_content_hash (at p) \<noteq> Some h then Some i else None
         | _ \<Rightarrow> None) bs,
       moved := moved c @ List.map_filter (\<lambda>(p, b). case b of
           Moved i old _ \<Rightarrow> Some \<lparr>mv_id = i, old_qualified_path = old, new_qualified_path = p,
             old_file = file_of_qualified_path old,
             new_file = (case at p of Some e \<Rightarrow> e_file e | None \<Rightarrow> file_of_qualified_path p)\<rparr>
         | _ \<Rightarrow> None) bs\<rparr>"
proof (induction bs arbitrary: c)
  case (Cons pb bs)
  obtain p b where pb: "pb = (p, b)" by (cases pb)
  show ?case unfolding pb using Cons by (cases b) (auto simp: List.map_filter_simps)
qed (simp add: List.map_filter_simps)

lemma classify_fields:
  "created (classify rc es) = List.map_filter (\<lambda>(p, b). case b of Minted i \<Rightarrow> Some i | _ \<Rightarrow> None) (bindings rc)"
  "changed (classify rc es) = List.map_filter (\<lambda>(p, b). case b of
           Exact i h \<Rightarrow> if map_option e_content_hash (entity_at es p) \<noteq> Some h then Some i else None
         | Struct i _ h \<Rightarrow> if map_option e_content_hash (entity_at es p) \<noteq> Some h then Some i else None
         | _ \<Rightarrow> None) (bindings rc)"
  "deleted (classify rc es) = retired rc"
  "moved (classify rc es) = List.map_filter (\<lambda>(p, b). case b of
           Moved i old _ \<Rightarrow> Some \<lparr>mv_id = i, old_qualified_path = old, new_qualified_path = p,
             old_file = file_of_qualified_path old,
             new_file = (case entity_at es p of Some e \<Rightarrow> e_file e | None \<Rightarrow> file_of_qualified_path p)\<rparr>
         | _ \<Rightarrow> None) (bindings rc)"
  unfolding classify_def fold_classify
  by (simp_all only: reconcile_classes.select_convs reconcile_classes.update_convs append_Nil)

lemma set_map_filter_iff: "y \<in> set (List.map_filter f xs) \<longleftrightarrow> (\<exists>x\<in>set xs. f x = Some y)"
  by (auto simp: List.map_filter_def image_iff)

lemma entity_at_Some:
  assumes "distinct (map e_qualified_path es)" "e \<in> set es"
  shows "entity_at es (e_qualified_path e) = Some e"
proof -
  have "distinct (map fst (rev (map (\<lambda>e. (e_qualified_path e, e)) es)))"
    using assms(1) by (simp add: rev_map [symmetric] comp_def)
  then show ?thesis using assms(2) by (auto simp: entity_at_def intro!: map_of_is_SomeI)
qed

lemma reconcile_bindings:
  assumes "reconcile_impl mint r entities rv scope n = Some (r', rc, n')" "index_sound r" "fresh_mint mint r n"
  shows "mset (map fst (bindings rc)) = mset (map e_qualified_path entities)"
    and "distinct (map (binding_id \<circ> snd) (bindings rc))"
proof -
  define es where "es = sort_entities entities"
  define st where "st = match_entities mint r scope es n"
  note p = reconcile_parts [OF assms(1) es_def st_def]
  show "mset (map fst (bindings rc)) = mset (map e_qualified_path entities)"
    using match_entities_paths [OF assms(2,3), of scope es] p(2)
    by (simp add: st_def es_def) (metis mset_map sort_entities_perm(1))
  show "distinct (map (binding_id \<circ> snd) (bindings rc))"
    using match_invD(4) [OF match_entities_inv [OF assms(2,3), of scope es]] p(2) by (simp add: st_def)
qed

lemma reconcile_justified:
  assumes "reconcile_impl mint r entities rv scope n = Some (r', rc, n')" "index_sound r" "fresh_mint mint r n"
    "(p, b) \<in> set (bindings rc)"
  shows "\<exists>e\<in>set entities. p = e_qualified_path e \<and> justified r scope e b"
proof -
  define es where "es = sort_entities entities"
  define st where "st = match_entities mint r scope es n"
  have inv: "match_inv mint r scope es n st" unfolding st_def by (rule match_entities_inv [OF assms(2,3)])
  have "(p, b) \<in> set (ms_bindings st)" using assms(4) reconcile_parts(2) [OF assms(1) es_def st_def] by simp
  from match_invD(8) [OF inv this] obtain idx where idx: "idx \<in> matched_entities st"
    "p = e_qualified_path (es ! idx)" "justified r scope (es ! idx) b" by blast
  have "idx < length es" using idx(1) match_invD(2) [OF inv] by blast
  then have "es ! idx \<in> set entities" using nth_mem by (metis es_def sort_entities_perm(2))
  with idx show ?thesis by blast
qed

lemma reconcile_binding:
  assumes "reconcile_impl mint r entities rv scope n = Some (r', rc, n')" "index_sound r" "fresh_mint mint r n"
    "distinct (map e_qualified_path entities)" "(p, b) \<in> set (bindings rc)"
  obtains e where "e \<in> set entities" "p = e_qualified_path e" "entity_at entities p = Some e"
    "justified r scope e b" "registry_get r' (binding_id b) = Some (bound_anchor r rv e b)"
proof -
  note ms = reconcile_bindings(1) [OF assms(1-3)]
  have "p \<in> set (map fst (bindings rc))" using assms(5) by force
  with ms obtain e where e: "e \<in> set entities" "p = e_qualified_path e"
    by (metis (no_types, lifting) image_iff list.set_map set_mset_mset)
  from reconcile_get [OF assms(1-4) e(1)] obtain b' where
    b': "(e_qualified_path e, b') \<in> set (bindings rc)" "justified r scope e b'"
      "registry_get r' (binding_id b') = Some (bound_anchor r rv e b')" by blast
  have "distinct (map fst (bindings rc))" using assms(4) ms by (metis mset_eq_imp_distinct_iff)
  from eq_key_imp_eq_value [OF this] b'(1) assms(5) e(2) have "b' = b" by blast
  with that e b' entity_at_Some [OF assms(4) e(1)] show ?thesis by blast
qed

lemma justified_old_hash:
  assumes "index_sound r" "justified r scope e b" "registry_get r (binding_id b) = Some a"
  shows "b = Exact (binding_id b) (a_content_hash a) \<or> b = Struct (binding_id b) Low (a_content_hash a) \<or>
    (b = Moved (binding_id b) (a_qualified_path a) (a_content_hash a) \<and> a_content_hash a = e_content_hash e)"
proof (cases b)
  case (Struct i c h)
  with assms show ?thesis by (cases c) (auto simp: old_hash_of_def)
qed (use assms index_soundD(4) [OF assms(1)] in \<open>auto simp: old_hash_of_def\<close>)

lemma bound_anchor_fields:
  "a_content_hash (bound_anchor r rv e b) = e_content_hash e"
  "a_qualified_path (bound_anchor r rv e b) = e_qualified_path e"
  "a_status (bound_anchor r rv e b) \<noteq> Orphaned"
  by (auto simp: bound_anchor_def new_anchor_def split: option.splits)

lemma created_iff: "i \<in> set (created (classify rc es)) \<longleftrightarrow> (\<exists>p. (p, Minted i) \<in> set (bindings rc))"
  unfolding classify_fields set_map_filter_iff by (force split: binding.splits)

lemma changed_iff:
  "i \<in> set (changed (classify rc es)) \<longleftrightarrow>
     (\<exists>p b h. (p, b) \<in> set (bindings rc) \<and> (b = Exact i h \<or> (\<exists>c. b = Struct i c h)) \<and>
        map_option e_content_hash (entity_at es p) \<noteq> Some h)" (is "?l \<longleftrightarrow> ?r")
proof
  show "?l \<Longrightarrow> ?r" unfolding classify_fields set_map_filter_iff
    by (clarsimp split: binding.splits if_splits) blast+
  show "?r \<Longrightarrow> ?l" unfolding classify_fields set_map_filter_iff
    by (elim exE conjE disjE) (rule rev_bexI, assumption, simp)+
qed

lemma moved_D:
  "m \<in> set (moved (classify rc es)) \<Longrightarrow>
     \<exists>h. (new_qualified_path m, Moved (mv_id m) (old_qualified_path m) h) \<in> set (bindings rc)"
  unfolding classify_fields set_map_filter_iff by (clarsimp split: binding.splits) blast

lemma reconcile_id_cases:
  assumes "reconcile_impl mint r entities rv scope n = Some (r', rc, n')"
    and "index_sound r" "fresh_mint mint r n" "distinct (map e_qualified_path entities)"
  obtains (bound) p b e where "(p, b) \<in> set (bindings rc)" "binding_id b = i" "entity_at entities p = Some e"
      "justified r scope e b" "registry_get r' i = Some (bound_anchor r rv e b)"
      "\<And>q c. (q, c) \<in> set (bindings rc) \<Longrightarrow> binding_id c = i \<Longrightarrow> q = p \<and> c = b"
  | (unbound) "\<And>q c. (q, c) \<in> set (bindings rc) \<Longrightarrow> binding_id c \<noteq> i"
      "registry_get r' i =
        (if vanishes {} scope r i
         then map_option (\<lambda>a. a\<lparr>a_last_seen_rev := rv, a_status := Orphaned\<rparr>) (registry_get r i)
         else registry_get r i)"
proof (cases "i \<in> binding_id ` snd ` set (bindings rc)")
  case True
  then obtain p b where pb: "(p, b) \<in> set (bindings rc)" "binding_id b = i" by force
  have inj: "inj_on (binding_id \<circ> snd) (set (bindings rc))"
    using reconcile_bindings(2) [OF assms(1-3)] by (simp add: distinct_map)
  have "q = p \<and> c = b" if "(q, c) \<in> set (bindings rc)" "binding_id c = i" for q c
    using inj_onD [OF inj _ that(1) pb(1)] that(2) pb(2) by simp
  with reconcile_binding [OF assms pb(1)] pb bound show ?thesis by metis
next
  case False
  then have "\<And>q c. (q, c) \<in> set (bindings rc) \<Longrightarrow> binding_id c \<noteq> i" by force
  with unbound reconcile_unbound(1) [OF assms(1-3) False] show ?thesis by blast
qed

lemma created_registry:
  assumes "reconcile_impl mint r entities rv scope n = Some (r', rc, n')"
    and "index_sound r" "fresh_mint mint r n" "distinct (map e_qualified_path entities)"
  shows "i \<in> set (created (classify rc entities)) \<longleftrightarrow> registry_get r i = None \<and> registry_get r' i \<noteq> None"
proof (rule reconcile_id_cases [OF assms, of i])
  fix p b e assume b: "(p, b) \<in> set (bindings rc)" "binding_id b = i" "justified r scope e b"
    "registry_get r' i = Some (bound_anchor r rv e b)"
    "\<And>q c. (q, c) \<in> set (bindings rc) \<Longrightarrow> binding_id c = i \<Longrightarrow> q = p \<and> c = b"
  have "(\<exists>q. (q, Minted i) \<in> set (bindings rc)) \<longleftrightarrow> b = Minted i" using b(1) b(5) [of _ "Minted i"] by auto
  then show ?thesis unfolding created_iff using justified_known [OF assms(2) b(3)] b(2,4) by auto
next
  assume u: "\<And>q c. (q, c) \<in> set (bindings rc) \<Longrightarrow> binding_id c \<noteq> i"
    "registry_get r' i = (if vanishes {} scope r i
         then map_option (\<lambda>a. a\<lparr>a_last_seen_rev := rv, a_status := Orphaned\<rparr>) (registry_get r i)
         else registry_get r i)"
  have "\<nexists>q. (q, Minted i) \<in> set (bindings rc)" using u(1) [of _ "Minted i"] by auto
  then show ?thesis unfolding created_iff using u(2) by auto
qed

lemma changed_registry:
  assumes "reconcile_impl mint r entities rv scope n = Some (r', rc, n')"
    and "index_sound r" "fresh_mint mint r n" "distinct (map e_qualified_path entities)"
  shows "i \<in> set (changed (classify rc entities)) \<longleftrightarrow>
    (\<exists>a a'. registry_get r i = Some a \<and> registry_get r' i = Some a' \<and> a_content_hash a \<noteq> a_content_hash a')"
proof (rule reconcile_id_cases [OF assms, of i])
  fix p b e assume b: "(p, b) \<in> set (bindings rc)" "binding_id b = i" "entity_at entities p = Some e"
    "justified r scope e b" "registry_get r' i = Some (bound_anchor r rv e b)"
    "\<And>q c. (q, c) \<in> set (bindings rc) \<Longrightarrow> binding_id c = i \<Longrightarrow> q = p \<and> c = b"
  have "i \<in> set (changed (classify rc entities)) \<longleftrightarrow>
      (\<exists>h. (b = Exact i h \<or> (\<exists>c. b = Struct i c h)) \<and> e_content_hash e \<noteq> h)"
  proof
    assume "i \<in> set (changed (classify rc entities))"
    then obtain q c h where c: "(q, c) \<in> set (bindings rc)" "c = Exact i h \<or> (\<exists>d. c = Struct i d h)"
      "map_option e_content_hash (entity_at entities q) \<noteq> Some h" unfolding changed_iff by blast
    then have "q = p \<and> c = b" using b(6) [OF c(1)] by auto
    with c b(3) show "\<exists>h. (b = Exact i h \<or> (\<exists>c. b = Struct i c h)) \<and> e_content_hash e \<noteq> h" by auto
  next
    assume "\<exists>h. (b = Exact i h \<or> (\<exists>c. b = Struct i c h)) \<and> e_content_hash e \<noteq> h"
    then obtain h where "b = Exact i h \<or> (\<exists>c. b = Struct i c h)"
      "map_option e_content_hash (entity_at entities p) \<noteq> Some h" using b(3) by auto
    with b(1) show "i \<in> set (changed (classify rc entities))" unfolding changed_iff by blast
  qed
  then show ?thesis
    using justified_old_hash [OF assms(2) b(4)] justified_known [OF assms(2) b(4)] b(2,5)
    by (cases b; cases "registry_get r i") (auto simp: bound_anchor_fields)
next
  assume u: "\<And>q c. (q, c) \<in> set (bindings rc) \<Longrightarrow> binding_id c \<noteq> i"
    "registry_get r' i = (if vanishes {} scope r i
         then map_option (\<lambda>a. a\<lparr>a_last_seen_rev := rv, a_status := Orphaned\<rparr>) (registry_get r i)
         else registry_get r i)"
  have "i \<notin> set (changed (classify rc entities))"
    unfolding changed_iff using u(1) [of _ "Exact i _"] u(1) [of _ "Struct i _ _"] by auto
  then show ?thesis using u(2) by (auto split: if_splits)
qed

lemma deleted_registry:
  assumes "reconcile_impl mint r entities rv scope n = Some (r', rc, n')"
    and "index_sound r" "fresh_mint mint r n" "distinct (map e_qualified_path entities)"
  shows "i \<in> set (deleted (classify rc entities)) \<longleftrightarrow>
    (\<exists>a a'. registry_get r i = Some a \<and> a_status a \<noteq> Orphaned \<and> registry_get r' i = Some a' \<and> a_status a' = Orphaned)"
proof (rule reconcile_id_cases [OF assms, of i])
  fix p b e assume b: "(p, b) \<in> set (bindings rc)" "binding_id b = i" "registry_get r' i = Some (bound_anchor r rv e b)"
  then have "i \<in> binding_id ` snd ` set (bindings rc)" by force
  with reconcile_unbound(2) [OF assms(1-3), of i] b(3) bound_anchor_fields(3) show ?thesis
    by (auto simp: classify_fields(3))
next
  assume u: "\<And>q c. (q, c) \<in> set (bindings rc) \<Longrightarrow> binding_id c \<noteq> i"
    "registry_get r' i = (if vanishes {} scope r i
         then map_option (\<lambda>a. a\<lparr>a_last_seen_rev := rv, a_status := Orphaned\<rparr>) (registry_get r i)
         else registry_get r i)"
  then have "i \<notin> binding_id ` snd ` set (bindings rc)" by force
  with reconcile_unbound(2) [OF assms(1-3), of i] u(2) show ?thesis
    by (cases "registry_get r i") (auto simp: classify_fields(3) vanishes_def split: if_splits)
qed

lemma moved_registry:
  assumes "reconcile_impl mint r entities rv scope n = Some (r', rc, n')"
    and "index_sound r" "fresh_mint mint r n" "distinct (map e_qualified_path entities)"
    and "m \<in> set (moved (classify rc entities))"
  shows "\<exists>a a'. registry_get r (mv_id m) = Some a \<and> registry_get r' (mv_id m) = Some a' \<and>
    a_content_hash a = a_content_hash a' \<and> old_qualified_path m = a_qualified_path a \<and>
    new_qualified_path m = a_qualified_path a'"
proof -
  from moved_D [OF assms(5)] obtain h where
    m: "(new_qualified_path m, Moved (mv_id m) (old_qualified_path m) h) \<in> set (bindings rc)" by blast
  obtain e where e: "new_qualified_path m = e_qualified_path e"
    "justified r scope e (Moved (mv_id m) (old_qualified_path m) h)"
    "registry_get r' (mv_id m) = Some (bound_anchor r rv e (Moved (mv_id m) (old_qualified_path m) h))"
    by (rule reconcile_binding [OF assms(1-4) m]) simp
  then obtain a where a: "registry_get r (mv_id m) = Some a" by auto
  with justified_old_hash [OF assms(2) e(2)]
  have "old_qualified_path m = a_qualified_path a" "a_content_hash a = e_content_hash e" by auto
  with e a show ?thesis by (auto simp: bound_anchor_fields)
qed

lemma anchor_container_name:
  "anchor_container a = Some c \<Longrightarrow> a_qualified_path a = c @ ''::'' @ anchor_name a"
  using rfind_sub_split [of "''::''" "a_qualified_path a"]
  by (auto simp: anchor_container_def anchor_name_def split: option.splits if_splits)

lemma anchor_container_nested:
  assumes "a_qualified_path a = f @ ''::'' @ q" "f \<noteq> []"
  shows "anchor_container a \<noteq> None"
proof -
  have "prefix ''::'' (drop (length f) (a_qualified_path a))" using assms(1) by simp
  from rfind_sub_ge [OF this] obtain k where "k \<ge> length f" "rfind_sub ''::'' (a_qualified_path a) = Some k"
    using assms(1) by auto
  with assms(2) show ?thesis by (cases k) (auto simp: anchor_container_def)
qed

lemma anchor_in_scope_Some:
  "anchor_in_scope r i (Some scope) \<longleftrightarrow>
     (\<exists>a f. registry_get r i = Some a \<and> anchor_file (a_qualified_path a) = Some f \<and> f \<in> scope)"
  by (auto simp: anchor_in_scope_def split: option.splits)

section \<open>Sample data\<close>

text \<open>A function entity of \<open>m.py\<close>, an anchor for it, and a generator that counts.\<close>

definition sample_entity :: "str \<Rightarrow> u128 \<Rightarrow> entity" where
  "sample_entity name h =
     \<lparr>e_qualified_path = ''m.py::'' @ name, e_kind = Function, e_content_hash = ContentHash h,
      e_container = None, e_name = name, e_file = ''m.py'', e_full_range = (0, 9), e_name_range = (4, 5),
      e_qualified_name = name\<rparr>"

definition sample_registry :: identity_registry where
  "sample_registry = registry_insert
     \<lparr>a_id = DurableId ''A'', a_qualified_path = ''m.py::f'', a_content_hash = ContentHash 1,
      a_kind = Function, a_first_seen_rev = 1, a_last_seen_rev = 1, a_status = Active\<rparr> registry_default"

definition mint_seq :: "nat \<Rightarrow> durable_id" where
  "mint_seq n = DurableId (nat_to_string n)"

fun reconcile_seq ::
  "(entity list \<times> revision) list \<Rightarrow> identity_registry \<Rightarrow> nat \<Rightarrow> (identity_registry \<times> reconciliation list) option" where
  "reconcile_seq [] r n = Some (r, [])"
| "reconcile_seq ((es, rv) # xs) r n =
     (case reconcile mint_seq r es rv n of
        None \<Rightarrow> None
      | Some (r', rc, n') \<Rightarrow> map_option (\<lambda>(r'', rcs). (r'', rc # rcs)) (reconcile_seq xs r' n'))"

lemma mint_seq_inj: "inj mint_seq"
proof (rule injI)
  fix m n assume "mint_seq m = mint_seq n"
  then have "nat_to_string m = nat_to_string n" by (simp add: mint_seq_def)
  moreover have "m < Suc (m + n)" "n < Suc (m + n)" by simp_all
  ultimately show "m = n" using parse_nat_to_string by (metis option.inject)
qed

lemma sample_registry_facts:
  "index_sound sample_registry" "fresh_mint mint_seq sample_registry 0"
  "by_path sample_registry ''m.py::f'' = Some (DurableId ''A'')"
  "registry_get sample_registry i = (if i = DurableId ''A'' then Some
     \<lparr>a_id = DurableId ''A'', a_qualified_path = ''m.py::f'', a_content_hash = ContentHash 1,
      a_kind = Function, a_first_seen_rev = 1, a_last_seen_rev = 1, a_status = Active\<rparr> else None)"
proof -
  show "index_sound sample_registry"
    unfolding sample_registry_def by (rule index_sound_insert [OF index_sound_default])
  show get: "registry_get sample_registry i = (if i = DurableId ''A'' then Some
     \<lparr>a_id = DurableId ''A'', a_qualified_path = ''m.py::f'', a_content_hash = ContentHash 1,
      a_kind = Function, a_first_seen_rev = 1, a_last_seen_rev = 1, a_status = Active\<rparr> else None)" for i
    by (simp add: sample_registry_def registry_get_insert) (simp add: registry_get_def registry_default_def)
  have "mint_seq k \<noteq> DurableId ''A''" for k
    using nat_to_string_digits [of "CHR ''A''" k] by (auto simp: mint_seq_def digit_value_def)
  with mint_seq_inj show "fresh_mint mint_seq sample_registry 0" by (simp add: fresh_mint_def get)
  show "by_path sample_registry ''m.py::f'' = Some (DurableId ''A'')"
    by (simp add: sample_registry_def registry_insert_def Let_def)
qed

lemma sample_entity_fields [simp]:
  "e_qualified_path (sample_entity nm h) = ''m.py::'' @ nm" "e_content_hash (sample_entity nm h) = ContentHash h"
  "e_container (sample_entity nm h) = None" "e_name (sample_entity nm h) = nm"
  by (simp_all add: sample_entity_def)

section \<open>Properties\<close>

text \<open>
  C6. Reconciliation always returns (its \<open>expect\<close> is never reached), and the matching is one
  to one: each entity occurrence gets exactly one binding, no id is bound twice, and the
  registry it leaves is index-sound.  No assumption is made on the entities.
\<close>

theorem reconcile_one_to_one:
  assumes "index_sound r" "fresh_mint mint r n"
  shows "\<exists>r' rc n'. reconcile_impl mint r entities rv scope n = Some (r', rc, n') \<and>
    mset (map fst (bindings rc)) = mset (map e_qualified_path entities) \<and>
    distinct (map (binding_id \<circ> snd) (bindings rc)) \<and> index_sound r'"
proof -
  obtain r' rc n' where "reconcile_impl mint r entities rv scope n = Some (r', rc, n')"
    using reconcile_total by (metis prod_cases3)
  with reconcile_bindings [OF this assms] reconcile_sound [OF this assms(1)] show ?thesis by blast
qed

theorem reconcile_one_to_one_witness:
  "\<exists>r' rc n'. reconcile_impl mint_seq sample_registry [sample_entity ''f'' 2, sample_entity ''f'' 2] 2 None 0 =
     Some (r', rc, n') \<and> length (bindings rc) = 2 \<and> distinct (map (binding_id \<circ> snd) (bindings rc))"
proof -
  from reconcile_one_to_one [OF sample_registry_facts(1,2), of "[sample_entity ''f'' 2, sample_entity ''f'' 2]" 2 None]
  obtain r' rc n' where
    "reconcile_impl mint_seq sample_registry [sample_entity ''f'' 2, sample_entity ''f'' 2] 2 None 0 = Some (r', rc, n')"
    "mset (map fst (bindings rc)) = mset (map e_qualified_path [sample_entity ''f'' 2, sample_entity ''f'' 2])"
    "distinct (map (binding_id \<circ> snd) (bindings rc))" by blast
  moreover from this(2) have "length (bindings rc) = 2" using mset_eq_length by fastforce
  ultimately show ?thesis by blast
qed

text \<open>An indexed entity is bound to the identity at its path.\<close>

lemma reconcile_exact_registry:
  assumes "reconcile_impl mint r entities rv scope n = Some (r', rc, n')"
    and "index_sound r" "fresh_mint mint r n" "distinct (map e_qualified_path entities)"
    and "e \<in> set entities" "by_path r (e_qualified_path e) = Some i" "registry_get r i = Some a"
  shows "(e_qualified_path e, Exact i (a_content_hash a)) \<in> set (bindings rc) \<and>
    registry_get r' i = Some (a\<lparr>a_content_hash := e_content_hash e, a_last_seen_rev := rv,
      a_status := (if a_content_hash a = e_content_hash e then Active else NeedsReview)\<rparr>)"
proof -
  let ?es = "sort_entities entities"
  have "(e_qualified_path e, Exact i (old_hash_of r i e)) \<in> set (bindings rc)"
    using exact_match [OF assms(2) sort_entities_distinct [OF assms(4)] _ assms(6)] assms(5)
      reconcile_parts(2) [OF assms(1) refl refl] by (simp add: sort_entities_perm)
  then have mem: "(e_qualified_path e, Exact i (a_content_hash a)) \<in> set (bindings rc)"
    using assms(7) by (simp add: old_hash_of_def)
  obtain e' where e': "e' \<in> set entities" "e_qualified_path e = e_qualified_path e'"
    "registry_get r' i = Some (bound_anchor r rv e' (Exact i (a_content_hash a)))"
    by (rule reconcile_binding [OF assms(1-4) mem]) simp
  then have "e' = e" using assms(4,5) by (metis distinct_map inj_onD)
  moreover have "a_qualified_path a = e_qualified_path e"
    using index_soundD(3) [OF assms(2,6)] assms(7) by simp
  ultimately show ?thesis using mem e'(3) assms(7) by (auto simp: bound_anchor_def)
qed

text \<open>
  C5. An entity keeps its id while it keeps its path: with distinct entity paths, an entity
  whose path is indexed is bound to that id, whatever its body; the anchor takes the new
  hash and revision, keeps its kind and first revision, and asks for review exactly when
  the body changed.
\<close>

theorem reconcile_exact_stability:
  assumes "reconcile_impl mint r entities rv scope n = Some (r', rc, n')"
    and "index_sound r" "fresh_mint mint r n" "distinct (map e_qualified_path entities)"
    and "e \<in> set entities" "by_path r (e_qualified_path e) = Some i" "registry_get r i = Some a"
  shows "(e_qualified_path e, Exact i (a_content_hash a)) \<in> set (bindings rc) \<and>
    registry_get r' i = Some (a\<lparr>a_content_hash := e_content_hash e, a_last_seen_rev := rv,
      a_status := (if a_content_hash a = e_content_hash e then Active else NeedsReview)\<rparr>)"
  by (rule reconcile_exact_registry [OF assms])

theorem reconcile_exact_stability_witness:
  "\<exists>r' rc n'. reconcile_impl mint_seq sample_registry [sample_entity ''f'' 2] 2 None 0 = Some (r', rc, n') \<and>
     status_of r' (DurableId ''A'') = Some NeedsReview"
proof -
  obtain r' rc n' where
    rc: "reconcile_impl mint_seq sample_registry [sample_entity ''f'' 2] 2 None 0 = Some (r', rc, n')"
    using reconcile_total by (metis prod_cases3)
  have "status_of r' (DurableId ''A'') = Some NeedsReview"
    using reconcile_exact_stability [OF rc sample_registry_facts(1,2), of "sample_entity ''f'' 2" "DurableId ''A''"]
    by (simp add: sample_registry_facts(3,4) status_of_def)
  with rc show ?thesis by blast
qed

text \<open>
  C31. For entities with distinct qualified paths, a sound path index and fresh minted ids,
  the commit delta is exactly what changed in the registry: an id is reported created when
  it is new, changed when its anchor's hash differs before and after (never for an unchanged
  body), deleted when it becomes orphaned; a reported move keeps the hash and names the old
  and the new path.
\<close>

theorem classify_is_registry_diff:
  assumes "reconcile_impl mint r entities rv scope n = Some (r', rc, n')"
    and "index_sound r" "fresh_mint mint r n" "distinct (map e_qualified_path entities)"
  shows "(i \<in> set (created (classify rc entities)) \<longleftrightarrow> registry_get r i = None \<and> registry_get r' i \<noteq> None) \<and>
    (i \<in> set (changed (classify rc entities)) \<longleftrightarrow>
       (\<exists>a a'. registry_get r i = Some a \<and> registry_get r' i = Some a' \<and> a_content_hash a \<noteq> a_content_hash a')) \<and>
    (i \<in> set (deleted (classify rc entities)) \<longleftrightarrow>
       (\<exists>a a'. registry_get r i = Some a \<and> a_status a \<noteq> Orphaned \<and> registry_get r' i = Some a' \<and> a_status a' = Orphaned)) \<and>
    (\<forall>m\<in>set (moved (classify rc entities)). \<exists>a a'. registry_get r (mv_id m) = Some a \<and>
       registry_get r' (mv_id m) = Some a' \<and> a_content_hash a = a_content_hash a' \<and>
       old_qualified_path m = a_qualified_path a \<and> new_qualified_path m = a_qualified_path a')"
  using created_registry [OF assms, of i] changed_registry [OF assms, of i] deleted_registry [OF assms, of i]
    moved_registry [OF assms] by blast

theorem classify_is_registry_diff_witness:
  "\<exists>r' rc n'. reconcile_impl mint_seq sample_registry [sample_entity ''f'' 2, sample_entity ''g'' 9] 2 None 0 = Some (r', rc, n') \<and>
     DurableId ''A'' \<in> set (changed (classify rc [sample_entity ''f'' 2, sample_entity ''g'' 9])) \<and>
     mint_seq 0 \<in> set (created (classify rc [sample_entity ''f'' 2, sample_entity ''g'' 9])) \<and>
     deleted (classify rc [sample_entity ''f'' 2, sample_entity ''g'' 9]) = []"
proof -
  let ?es = "[sample_entity ''f'' 2, sample_entity ''g'' 9]"
  obtain r' rc n' where rc: "reconcile_impl mint_seq sample_registry ?es 2 None 0 = Some (r', rc, n')"
    using reconcile_total by (metis prod_cases3)
  have "map_option (\<lambda>(r', rc, n'). (map_option (\<lambda>a. (a_content_hash a, a_status a)) (registry_get r' (DurableId ''A'')),
      map fst (by_id r'))) (reconcile_impl mint_seq sample_registry ?es 2 None 0) =
      Some (Some (ContentHash 2, NeedsReview), [DurableId ''A'', mint_seq 0])" by code_simp
  with rc obtain a' where A: "registry_get r' (DurableId ''A'') = Some a'" "a_content_hash a' = ContentHash 2" "a_status a' = NeedsReview"
    and ids: "map fst (by_id r') = [DurableId ''A'', mint_seq 0]" by auto
  have dom: "registry_get r' (mint_seq 0) \<noteq> None"
    using arg_cong [OF ids, of set] by (auto simp: registry_get_def map_of_eq_None_iff)
  have new: "mint_seq 0 \<noteq> DurableId ''A''" by code_simp
  note d = classify_is_registry_diff [OF rc sample_registry_facts(1,2)]
  have "DurableId ''A'' \<in> set (changed (classify rc ?es))"
    using d [of "DurableId ''A''"] A by (simp add: sample_registry_facts(4))
  moreover have "mint_seq 0 \<in> set (created (classify rc ?es))"
    using d [of "mint_seq 0"] dom new by (simp add: sample_registry_facts(4))
  moreover have "i \<notin> set (deleted (classify rc ?es))" for i
    using d [of i] A by (auto simp: sample_registry_facts(4) split: if_splits)
  then have "deleted (classify rc ?es) = []" by (metis list.set_intros(1) neq_Nil_conv)
  ultimately show ?thesis using rc by blast
qed

text \<open>
  A scoped reconciliation is local: when the entities belong to the scoped files, an anchor of
  any other file is left exactly as it was, is bound to no entity and is not retired.
\<close>

lemma scoped_reconcile_local:
  assumes "reconcile_scoped mint r entities rv scope n = Some (r', rc, n')"
    and "index_sound r" "fresh_mint mint r n"
    and "\<forall>e\<in>set entities. \<exists>f\<in>scope. anchor_file (e_qualified_path e) = Some f"
    and "registry_get r i = Some a" "\<forall>f\<in>scope. anchor_file (a_qualified_path a) \<noteq> Some f"
  shows "registry_get r' i = Some a \<and> i \<notin> set (retired rc) \<and> i \<notin> binding_id ` snd ` set (bindings rc)"
proof -
  note rc = assms(1) [unfolded reconcile_scoped_def]
  have out: "\<not> anchor_in_scope r i (Some scope)" using assms(5,6) by (auto simp: anchor_in_scope_Some)
  have free: "i \<notin> binding_id ` snd ` set (bindings rc)"
  proof
    assume "i \<in> binding_id ` snd ` set (bindings rc)"
    then obtain p b where b: "(p, b) \<in> set (bindings rc)" "binding_id b = i" by force
    obtain e where e: "e \<in> set entities" "justified r (Some scope) e b"
      using reconcile_justified [OF rc assms(2,3) b(1)] by blast
    have "a_qualified_path a \<noteq> e_qualified_path e" using assms(4,6) e(1) by fastforce
    then have "by_path r (e_qualified_path e) \<noteq> Some i"
      using index_soundD(3) [OF assms(2)] assms(5) by fastforce
    with e(2) b(2) out assms(5) show False by (cases b) auto
  qed
  have "\<not> vanishes {} (Some scope) r i" using out by (simp add: vanishes_def)
  with reconcile_unbound(1) [OF rc assms(2,3) free] reconcile_unbound(2) [OF rc assms(2,3), of i] assms(5) free
  show ?thesis by simp
qed

text \<open>The entity map of the classification does not depend on the order either.\<close>

lemma entity_at_perm:
  assumes "mset es = mset es'" "distinct (map e_qualified_path es)"
  shows "entity_at es = entity_at es'"
proof
  fix p
  have eq: "set es = set es'" and d': "distinct (map e_qualified_path es')"
    using assms by (metis set_mset_mset, metis mset_eq_imp_distinct_iff mset_map)
  show "entity_at es p = entity_at es' p"
  proof (cases "\<exists>e\<in>set es. p = e_qualified_path e")
    case True
    then show ?thesis using entity_at_Some [OF assms(2)] entity_at_Some [OF d'] eq by auto
  next
    case False
    then have "entity_at es p = None" "entity_at es' p = None"
      using eq by (auto simp: entity_at_def map_of_eq_None_iff)
    then show ?thesis by simp
  qed
qed

text \<open>
  C32. The outcome does not depend on the order in which the entities were extracted: for
  distinct paths, any permutation of the entities gives the same registry, bindings, retired
  and reviewed ids, and the delta classified from the permuted entities is the same too.
\<close>

theorem reconcile_order_independent:
  assumes "mset entities = mset entities'" "distinct (map e_qualified_path entities)"
  shows "reconcile_impl mint r entities rv scope n = reconcile_impl mint r entities' rv scope n \<and>
    (\<forall>rc. classify rc entities = classify rc entities')"
proof -
  have "inj_on (\<lambda>e. (e_qualified_path e, e_content_hash e)) (set entities)"
    using assms(2) by (auto simp: distinct_map inj_on_def)
  from sort_key_inj_key_eq [of entities "sort_entities entities'", OF _ this]
  have "sort_entities entities = sort_entities entities'"
    using assms(1) by (simp add: sort_entities_def)
  then show ?thesis by (simp add: reconcile_impl_def classify_def entity_at_perm [OF assms])
qed

theorem reconcile_order_independent_witness:
  "map_option (\<lambda>(r', rc, n'). classify rc [sample_entity ''f'' 2, sample_entity ''g'' 1])
     (reconcile_impl mint_seq sample_registry [sample_entity ''f'' 2, sample_entity ''g'' 1] 2 None 0) =
   map_option (\<lambda>(r', rc, n'). classify rc [sample_entity ''g'' 1, sample_entity ''f'' 2])
     (reconcile_impl mint_seq sample_registry [sample_entity ''g'' 1, sample_entity ''f'' 2] 2 None 0)"
  using reconcile_order_independent [of "[sample_entity ''f'' 2, sample_entity ''g'' 1]" "[sample_entity ''g'' 1, sample_entity ''f'' 2]"
    mint_seq sample_registry 2 None 0] by simp

text \<open>
  A reconciled entity is found by its path next time: the path of an entity is indexed
  to the id it was bound to, provided no other anchor held that path before, or only
  orphans that this reconciliation does not re-bind.
\<close>

theorem reconcile_reindexes:
  assumes "reconcile_impl mint r entities rv scope n = Some (r', rc, n')"
    and "index_sound r" "fresh_mint mint r n" "distinct (map e_qualified_path entities)"
    and "e \<in> set entities" "(e_qualified_path e, b) \<in> set (bindings rc)"
    and "\<forall>j a. registry_get r j = Some a \<and> j \<noteq> binding_id b \<and> a_qualified_path a = e_qualified_path e \<longrightarrow>
      a_status a = Orphaned \<and> j \<notin> binding_id ` snd ` set (bindings rc)"
  shows "by_path r' (e_qualified_path e) = Some (binding_id b)"
  using reconcile_by_path [OF assms(1-6)] assms(7) by blast

theorem reconcile_reindexes_witness:
  "\<exists>r' rc n' b. reconcile_impl mint_seq sample_registry [sample_entity ''g'' 9] 2 None 0 = Some (r', rc, n') \<and>
     by_path r' ''m.py::g'' = Some (binding_id b) \<and> (''m.py::g'', b) \<in> set (bindings rc)"
proof -
  obtain r' rc n' where
    rc: "reconcile_impl mint_seq sample_registry [sample_entity ''g'' 9] 2 None 0 = Some (r', rc, n')"
    using reconcile_total by (metis prod_cases3)
  have "mset (map fst (bindings rc)) = {#''m.py::g''#}"
    using reconcile_bindings(1) [OF rc sample_registry_facts(1,2)] by simp
  then have "''m.py::g'' \<in> fst ` set (bindings rc)"
    by (metis list.set_map multi_member_last set_mset_mset)
  then obtain b where b: "(''m.py::g'', b) \<in> set (bindings rc)" by force
  have "by_path r' ''m.py::g'' = Some (binding_id b)"
    using reconcile_reindexes [OF rc sample_registry_facts(1,2), of "sample_entity ''g'' 9" b] b
    by (simp add: sample_registry_facts(4))
  with rc b show ?thesis by blast
qed

text \<open>
  The structural pass is a path match: when entity paths are their container and name
  joined by \<open>::\<close> and every anchor path has a file part, a structural candidate always
  carries the entity's own path (so its edit distance is 0 and never decides anything), and
  an entity without a container has no candidate at all.
\<close>

theorem struct_pass_is_path_match:
  assumes "index_sound r"
    and "\<forall>i a. registry_get r i = Some a \<longrightarrow> (\<exists>f q. a_qualified_path a = f @ ''::'' @ q \<and> f \<noteq> [])"
    and "\<forall>c. e_container e = Some c \<longrightarrow> e_qualified_path e = c @ ''::'' @ e_name e"
    and "(i, d) \<in> set (struct_candidates r scope e st)"
  shows "d = 0 \<and> e_container e \<noteq> None \<and> (\<exists>a. registry_get r i = Some a \<and> a_qualified_path a = e_qualified_path e)"
proof -
  from assms(4) obtain a where a: "(i, a) \<in> set (by_id r)" "anchor_name a = e_name e"
    "anchor_container a = e_container e" "d = edit_distance (a_qualified_path a) (e_qualified_path e)"
    by (auto simp: struct_candidates_def)
  have get: "registry_get r i = Some a"
    using a(1) index_soundD(1) [OF assms(1)] by (simp add: registry_get_def hm_inv_def)
  then have "anchor_container a \<noteq> None" using assms(2) anchor_container_nested by blast
  then obtain c where c: "e_container e = Some c" "anchor_container a = Some c" using a(3) by auto
  then have "a_qualified_path a = e_qualified_path e"
    using anchor_container_name [of a c] assms(3) a(2) by simp
  with get c a(4) show ?thesis by (simp add: edit_distance_0_iff)
qed

theorem struct_pass_is_path_match_witness:
  "struct_candidates sample_registry None (sample_entity ''f'' 2) (match_init 0) = []"
proof -
  have paths: "\<forall>i a. registry_get sample_registry i = Some a \<longrightarrow> (\<exists>f q. a_qualified_path a = f @ ''::'' @ q \<and> f \<noteq> [])"
  proof (intro allI impI)
    fix i a assume "registry_get sample_registry i = Some a"
    then have "a_qualified_path a = ''m.py'' @ ''::'' @ ''f''"
      by (auto simp: sample_registry_facts(4) split: if_splits)
    then show "\<exists>f q. a_qualified_path a = f @ ''::'' @ q \<and> f \<noteq> []" by blast
  qed
  have "(i, d) \<notin> set (struct_candidates sample_registry None (sample_entity ''f'' 2) (match_init 0))" for i d
    using struct_pass_is_path_match [OF sample_registry_facts(1) paths, of "sample_entity ''f'' 2" i d None "match_init 0"]
    by auto
  then show ?thesis by (metis list.set_intros(1) neq_Nil_conv surj_pair)
qed

text \<open>
  Identity can be lost at an unchanged path: delete \<open>f\<close>, add a new \<open>f\<close>, then add \<open>g\<close>
  with the body of the deleted one.  Re-binding the orphan to \<open>g\<close> drops the path entry of
  the live \<open>f\<close>, and the next edit of \<open>f\<close>'s body mints a new id for it and retires the id it
  had, although its path never changed.
\<close>

theorem identity_lost_after_orphan_move:
  "map_option (\<lambda>(r, rcs). (map bindings (drop 3 rcs), mint_seq 1 \<in> set (retired (last rcs))))
     (reconcile_seq
       [([sample_entity ''f'' 1], 1), ([], 2), ([sample_entity ''f'' 2], 3),
        ([sample_entity ''f'' 2, sample_entity ''g'' 1], 4), ([sample_entity ''f'' 3], 5)] registry_default 0) =
   Some ([[(''m.py::f'', Exact (mint_seq 1) (ContentHash 2)), (''m.py::g'', Moved (mint_seq 0) ''m.py::f'' (ContentHash 1))],
          [(''m.py::f'', Minted (mint_seq 2))]], True)"
  by code_simp

end
