(* ===== verification/Rendering.thy ===== *)
theory Rendering
  imports Config Coordinates Reconcile
begin

text \<open>
  Canonical rendering of Python statements (\<open>rust/src/hash.rs\<close>): the token stream whose hash
  identifies the meaning of an entity, the index from source ranges to statements, and the
  normal form of an entity.

  The syntax tree comes from ruff's parser and is walked by ruff's source-order visitor.  The
  datatype \<open>ast\<close> is that tree as a visitor meets it: one constructor per kind of call the
  visitors of the source override, one (\<open>Node\<close>) for every other node, each with the nodes its
  walk visits, in order.  A walk enters a node, which the renderer answers with the debug name
  of its kind (\<open>enter_node\<close>), and then visits the children.  Of a node's own data the
  constructors keep what the source reads; operators, numbers, bytes and kinds are kept as
  their debug text.
\<close>

section \<open>The syntax tree\<close>

datatype expr_context = Load | Store | Del | Invalid

record alias_node =
  al_name :: str
  al_name_range :: text_range
  al_asname_range :: "text_range option"

datatype stmt_data =
    FunctionDef str text_range bool
  | ClassDef str text_range
  | ForStmt bool
  | WithStmt bool
  | ImportStmt "alias_node list"
  | ImportFrom "alias_node list"
  | ExprStmt
  | OtherStmt

datatype expr_data =
    NameExpr str expr_context
  | BinOp str
  | BoolOp str
  | UnaryOp str
  | Compare "str list"
  | NumberLiteral str
  | BooleanLiteral bool
  | StringLiteralExpr
  | Attribute str text_range expr_context
  | OtherExpr

datatype ast =
    Stmt stmt_data text_range str "ast list"
  | Expr expr_data text_range str "ast list"
  | Body "ast list"
  | StringLiteral str str "ast list"
  | BytesLiteral str str "ast list"
  | InterpolatedElement "str option" str "ast list"
  | Identifier str
  | Node str "ast list"

fun sub_nodes :: "ast \<Rightarrow> ast list" where
  "sub_nodes (Stmt _ _ _ cs) = cs"
| "sub_nodes (Expr _ _ _ cs) = cs"
| "sub_nodes (Body cs) = cs"
| "sub_nodes (StringLiteral _ _ cs) = cs"
| "sub_nodes (BytesLiteral _ _ cs) = cs"
| "sub_nodes (InterpolatedElement _ _ cs) = cs"
| "sub_nodes (Identifier _) = []"
| "sub_nodes (Node _ cs) = cs"

section \<open>The renderer\<close>

definition sep :: char where
  "sep = CHR 0x1F"

record renderer =
  out :: str
  pending_doc_scope :: bool

definition renderer_new :: renderer where
  "renderer_new = \<lparr>out = [], pending_doc_scope = False\<rparr>"

definition tok :: "str \<Rightarrow> renderer \<Rightarrow> renderer" where
  "tok s st = st\<lparr>out := out st @ s @ [sep]\<rparr>"

text \<open>\<open>tok_dbg\<close> pushes the debug form of its argument, which the tree already holds as text.\<close>

definition tok_dbg :: "str \<Rightarrow> renderer \<Rightarrow> renderer" where
  "tok_dbg v st = st\<lparr>out := out st @ v @ [sep]\<rparr>"

definition is_docstring_stmt :: "ast \<Rightarrow> bool" where
  "is_docstring_stmt s = (case s of Stmt ExprStmt _ _ (Expr StringLiteralExpr _ _ _ # _) \<Rightarrow> True | _ \<Rightarrow> False)"

definition opens_doc_scope :: "stmt_data \<Rightarrow> bool" where
  "opens_doc_scope d = (case d of FunctionDef _ _ _ \<Rightarrow> True | ClassDef _ _ \<Rightarrow> True | _ \<Rightarrow> False)"

definition stmt_is_async :: "stmt_data \<Rightarrow> bool" where
  "stmt_is_async d = (case d of FunctionDef _ _ a \<Rightarrow> a | ForStmt a \<Rightarrow> a | WithStmt a \<Rightarrow> a | _ \<Rightarrow> False)"

definition enter_stmt :: "stmt_data \<Rightarrow> renderer \<Rightarrow> renderer" where
  "enter_stmt d st =
     (let st = (if opens_doc_scope d then st\<lparr>pending_doc_scope := True\<rparr> else st)
      in if stmt_is_async d then tok ''async'' st else st)"

fun enter_expr :: "expr_data \<Rightarrow> renderer \<Rightarrow> renderer" where
  "enter_expr (NameExpr i _) st = tok i st"
| "enter_expr (BinOp op) st = tok_dbg op st"
| "enter_expr (BoolOp op) st = tok_dbg op st"
| "enter_expr (UnaryOp op) st = tok_dbg op st"
| "enter_expr (Compare ops) st = fold tok_dbg ops st"
| "enter_expr (NumberLiteral v) st = tok_dbg v st"
| "enter_expr (BooleanLiteral b) st = tok (if b then ''True'' else ''False'') st"
| "enter_expr _ st = st"

definition skip_first :: "hash_policy \<Rightarrow> bool \<Rightarrow> ast list \<Rightarrow> bool" where
  "skip_first policy doc_scope body \<longleftrightarrow>
     doc_scope \<and> \<not> include_docstrings policy \<and> (case body of [] \<Rightarrow> False | s # _ \<Rightarrow> is_docstring_stmt s)"

definition doc_body :: "hash_policy \<Rightarrow> bool \<Rightarrow> ast list \<Rightarrow> ast list" where
  "doc_body policy doc_scope body = drop (if skip_first policy doc_scope body then 1 else 0) body"

lemma size_doc_body [termination_simp]: "size_list size (doc_body policy doc ss) \<le> size_list size ss"
  by (cases ss) (auto simp: doc_body_def)

fun visit :: "hash_policy \<Rightarrow> ast \<Rightarrow> renderer \<Rightarrow> renderer"
  and visit_all :: "hash_policy \<Rightarrow> ast list \<Rightarrow> renderer \<Rightarrow> renderer" where
  "visit policy (Stmt d _ kind cs) st = visit_all policy cs (tok_dbg kind (enter_stmt d st))"
| "visit policy (Body ss) st =
     tok ''}'' (visit_all policy (doc_body policy (pending_doc_scope st) ss) (tok ''{'' (st\<lparr>pending_doc_scope := False\<rparr>)))"
| "visit policy (Expr d _ kind cs) st = visit_all policy cs (tok_dbg kind (enter_expr d st))"
| "visit policy (StringLiteral v kind cs) st = visit_all policy cs (tok_dbg kind (tok v (tok ''str'' st)))"
| "visit policy (BytesLiteral v kind cs) st = visit_all policy cs (tok_dbg kind (tok_dbg v (tok ''bytes'' st)))"
| "visit policy (InterpolatedElement lit kind cs) st =
     visit_all policy cs (tok_dbg kind (case lit of Some v \<Rightarrow> tok v (tok ''fstr'' st) | None \<Rightarrow> st))"
| "visit policy (Identifier s) st = tok s st"
| "visit policy (Node kind cs) st = visit_all policy cs (tok_dbg kind st)"
| "visit_all policy [] st = st"
| "visit_all policy (t # ts) st = visit_all policy ts (visit policy t st)"

definition render_stmt :: "ast \<Rightarrow> hash_policy \<Rightarrow> str" where
  "render_stmt stmt policy = out (visit policy stmt renderer_new)"

section \<open>The statement index and the normal form of an entity\<close>

type_synonym stmt_index = "text_range \<rightharpoonup> ast"

fun index_stmt :: "ast \<Rightarrow> stmt_index \<Rightarrow> stmt_index"
  and index_all :: "ast list \<Rightarrow> stmt_index \<Rightarrow> stmt_index" where
  "index_stmt (Stmt d r kind cs) m = index_all cs (m(r \<mapsto> Stmt d r kind cs))"
| "index_stmt (Expr _ _ _ cs) m = index_all cs m"
| "index_stmt (Body ss) m = index_all ss m"
| "index_stmt (StringLiteral _ _ cs) m = index_all cs m"
| "index_stmt (BytesLiteral _ _ cs) m = index_all cs m"
| "index_stmt (InterpolatedElement _ _ cs) m = index_all cs m"
| "index_stmt (Identifier _) m = m"
| "index_stmt (Node _ cs) m = index_all cs m"
| "index_all [] m = m"
| "index_all (t # ts) m = index_all ts (index_stmt t m)"

definition index_statements :: "ast list \<Rightarrow> stmt_index" where
  "index_statements body = index_all body Map.empty"

definition entity_normal_form :: "stmt_index \<Rightarrow> text_range \<Rightarrow> str \<Rightarrow> hash_policy \<Rightarrow> str option" where
  "entity_normal_form index full_range fallback_source policy =
     (case index full_range of
        Some stmt \<Rightarrow> Some (render_stmt stmt policy)
      | None \<Rightarrow>
          byte_get fallback_source (min (fst full_range) (utf8_len fallback_source))
            (min (snd full_range) (utf8_len fallback_source)))"

section \<open>Well-formed trees\<close>

text \<open>
  What the grammar of Python guarantees: expressions, literals and everything in the header of
  a function or class or in an expression statement contain no statement, and the one suite of
  a function or class is the last thing its walk visits.
\<close>

fun statement_free :: "ast \<Rightarrow> bool" where
  "statement_free (Stmt _ _ _ _) = False"
| "statement_free (Body _) = False"
| "statement_free (Expr _ _ _ cs) = (\<forall>c\<in>set cs. statement_free c)"
| "statement_free (StringLiteral _ _ cs) = (\<forall>c\<in>set cs. statement_free c)"
| "statement_free (BytesLiteral _ _ cs) = (\<forall>c\<in>set cs. statement_free c)"
| "statement_free (InterpolatedElement _ _ cs) = (\<forall>c\<in>set cs. statement_free c)"
| "statement_free (Identifier _) = True"
| "statement_free (Node _ cs) = (\<forall>c\<in>set cs. statement_free c)"

fun is_body :: "ast \<Rightarrow> bool" where
  "is_body (Body _) = True"
| "is_body _ = False"

fun well_formed :: "ast \<Rightarrow> bool" where
  "well_formed (Stmt d _ _ cs) =
     ((opens_doc_scope d \<longrightarrow> cs \<noteq> [] \<and> is_body (last cs) \<and> (\<forall>c\<in>set (butlast cs). statement_free c))
      \<and> (d = ExprStmt \<longrightarrow> (\<forall>c\<in>set cs. statement_free c)) \<and> (\<forall>c\<in>set cs. well_formed c))"
| "well_formed (Body ss) = (\<forall>s\<in>set ss. well_formed s)"
| "well_formed (Node _ cs) = (\<forall>c\<in>set cs. well_formed c)"
| "well_formed (Expr _ _ _ cs) = (\<forall>c\<in>set cs. statement_free c)"
| "well_formed (StringLiteral _ _ cs) = (\<forall>c\<in>set cs. statement_free c)"
| "well_formed (BytesLiteral _ _ cs) = (\<forall>c\<in>set cs. statement_free c)"
| "well_formed (InterpolatedElement _ _ cs) = (\<forall>c\<in>set cs. statement_free c)"
| "well_formed (Identifier _) = True"

lemma statement_free_well_formed: "statement_free t \<Longrightarrow> well_formed t"
  by (induction t) auto

section \<open>The rendering by structure\<close>

text \<open>
  The rendering without the renderer's state: the tokens of each node, then those of its
  children.  Whether a suite may drop its docstring is known from the statement it belongs to.
\<close>

definition token :: "str \<Rightarrow> str" where
  "token s = s @ [sep]"

fun expr_tokens :: "expr_data \<Rightarrow> str" where
  "expr_tokens (NameExpr i _) = token i"
| "expr_tokens (BinOp op) = token op"
| "expr_tokens (BoolOp op) = token op"
| "expr_tokens (UnaryOp op) = token op"
| "expr_tokens (Compare ops) = concat (map token ops)"
| "expr_tokens (NumberLiteral v) = token v"
| "expr_tokens (BooleanLiteral b) = token (if b then ''True'' else ''False'')"
| "expr_tokens _ = []"

fun render :: "hash_policy \<Rightarrow> bool \<Rightarrow> ast \<Rightarrow> str"
  and render_all :: "hash_policy \<Rightarrow> bool \<Rightarrow> ast list \<Rightarrow> str" where
  "render policy doc (Stmt d _ kind cs) =
     (if stmt_is_async d then token ''async'' else []) @ token kind @ render_all policy (opens_doc_scope d) cs"
| "render policy doc (Body ss) = token ''{'' @ render_all policy False (doc_body policy doc ss) @ token ''}''"
| "render policy doc (Expr d _ kind cs) = expr_tokens d @ token kind @ render_all policy False cs"
| "render policy doc (StringLiteral v kind cs) = token ''str'' @ token v @ token kind @ render_all policy False cs"
| "render policy doc (BytesLiteral v kind cs) = token ''bytes'' @ token v @ token kind @ render_all policy False cs"
| "render policy doc (InterpolatedElement lit kind cs) =
     (case lit of Some v \<Rightarrow> token ''fstr'' @ token v | None \<Rightarrow> []) @ token kind @ render_all policy False cs"
| "render policy doc (Identifier s) = token s"
| "render policy doc (Node kind cs) = token kind @ render_all policy False cs"
| "render_all policy doc [] = []"
| "render_all policy doc (t # ts) = render policy doc t @ render_all policy doc ts"

lemma render_all_concat: "render_all policy doc ts = concat (map (render policy doc) ts)"
  by (induction ts) auto

lemma render_all_append [simp]: "render_all policy doc (ts @ us) = render_all policy doc ts @ render_all policy doc us"
  by (simp add: render_all_concat)

text \<open>Only a suite looks at the flag.\<close>

lemma render_doc_irrelevant: "\<not> is_body t \<Longrightarrow> render policy doc t = render policy doc' t"
  by (cases t) auto

lemma statement_free_not_body: "statement_free t \<Longrightarrow> \<not> is_body t"
  by (cases t) auto

section \<open>The renderer's state adds nothing\<close>

definition emit :: "str \<Rightarrow> renderer \<Rightarrow> renderer" where
  "emit s st = st\<lparr>out := out st @ s\<rparr>"

lemma emit_emit [simp]: "emit t (emit s st) = emit (s @ t) st"
  by (simp add: emit_def)

lemma emit_nil [simp]: "emit [] st = st"
  by (simp add: emit_def)

lemma pending_emit [simp]: "pending_doc_scope (emit s st) = pending_doc_scope st"
  by (simp add: emit_def)

lemma tok_emit: "tok s = emit (token s)" "tok_dbg s = emit (token s)"
  by (auto simp: tok_def tok_dbg_def emit_def token_def)

lemma fold_tok_emit: "fold tok_dbg ops st = emit (concat (map token ops)) st"
  by (induction ops arbitrary: st) (auto simp: tok_emit)

lemma enter_expr_emit: "enter_expr d st = emit (expr_tokens d) st"
  by (cases d) (auto simp: tok_emit fold_tok_emit)

lemmas visitor_simps = tok_emit enter_expr_emit enter_stmt_def Let_def

lemma visit_statement_free:
  "statement_free t \<Longrightarrow> visit policy t st = emit (render policy doc t) st"
  "\<forall>t\<in>set ts. statement_free t \<Longrightarrow> visit_all policy ts st = emit (render_all policy doc ts) st"
proof (induction policy t st and policy ts st arbitrary: doc and doc rule: visit_visit_all.induct)
  case (10 policy t ts st)
  then show ?case by (simp add: 10(1)[of doc] 10(2)[of doc])
qed (auto simp: visitor_simps split: option.splits)

text \<open>The flag is consumed by the suite of the statement that raised it.\<close>

definition settle :: "renderer \<Rightarrow> renderer" where
  "settle st = st\<lparr>pending_doc_scope := False\<rparr>"

lemma settle_simps [simp]: "settle (settle st) = settle st" "settle (emit s st) = emit s (settle st)"
  "\<not> pending_doc_scope (settle st)" "out (settle st) = out st"
  by (simp_all add: settle_def emit_def)

lemma settle_id: "\<not> pending_doc_scope st \<Longrightarrow> settle st = st"
  by (cases st) (simp add: settle_def)

lemma visit_structural:
  "well_formed t \<Longrightarrow> pending_doc_scope st \<longrightarrow> is_body t \<Longrightarrow>
   visit policy t st = settle (emit (render policy (pending_doc_scope st) t) st)"
  "\<forall>t\<in>set ts. well_formed t \<Longrightarrow>
   pending_doc_scope st \<longrightarrow> ts \<noteq> [] \<and> is_body (last ts) \<and> (\<forall>c\<in>set (butlast ts). statement_free c) \<Longrightarrow>
   visit_all policy ts st = settle (emit (render_all policy (pending_doc_scope st) ts) st)"
proof (induction policy t st and policy ts st rule: visit_visit_all.induct)
  case (1 policy d r kind cs st)
  let ?st = "tok_dbg kind (enter_stmt d st)"
  have p: "pending_doc_scope ?st \<longleftrightarrow> opens_doc_scope d" using 1(3) by (simp add: visitor_simps)
  have e: "settle ?st = settle (emit ((if stmt_is_async d then token ''async'' else []) @ token kind) st)"
    by (simp add: visitor_simps) (simp add: settle_def emit_def)
  have "visit policy (Stmt d r kind cs) st = settle (emit (render_all policy (opens_doc_scope d) cs) ?st)"
    using 1 p by auto
  also have "\<dots> = emit (render_all policy (opens_doc_scope d) cs) (settle ?st)" by simp
  finally show ?case using e by simp
next
  case (2 policy ss st)
  have wf: "\<forall>t\<in>set (doc_body policy (pending_doc_scope st) ss). well_formed t"
    using 2(2) by (auto simp: doc_body_def dest: in_set_dropD)
  show ?case using 2(1)[OF wf] by (simp add: tok_emit settle_def [symmetric])
next
  case (10 policy t ts st)
  show ?case
  proof (cases "pending_doc_scope st \<and> ts \<noteq> []")
    case True
    then have t: "statement_free t" using 10(4) by auto
    have "visit_all policy ts (emit (render policy True t) st) = settle (emit (render_all policy True ts) (emit (render policy True t) st))"
      using 10(2) 10(3,4) True visit_statement_free(1)[OF t, of policy st True] by auto
    then show ?thesis using True visit_statement_free(1)[OF t, of policy st True] by simp
  next
    case False
    then have "visit policy t st = settle (emit (render policy (pending_doc_scope st) t) st)" using 10 by auto
    with False 10 show ?thesis by (cases "ts = []") auto
  qed
qed (auto simp: visitor_simps settle_id visit_statement_free [where doc = False] split: option.splits)

lemma render_stmt_structural:
  assumes "well_formed s" "\<not> is_body s"
  shows "render_stmt s policy = render policy False s"
  using visit_structural(1) [OF assms(1), of renderer_new policy] assms(2)
  by (simp add: render_stmt_def renderer_new_def emit_def)

section \<open>Docstrings\<close>

text \<open>The tree without its docstrings: the first statement of a function's or class's suite, when it is a string.\<close>

fun strip_docs :: "bool \<Rightarrow> ast \<Rightarrow> ast" where
  "strip_docs doc (Stmt d r kind cs) = Stmt d r kind (map (strip_docs (opens_doc_scope d)) cs)"
| "strip_docs doc (Body ss) =
     Body (let stripped = map (strip_docs False) ss
           in if doc \<and> ss \<noteq> [] \<and> is_docstring_stmt (hd ss) then tl stripped else stripped)"
| "strip_docs doc (Node kind cs) = Node kind (map (strip_docs False) cs)"
| "strip_docs doc t = t"

lemma strip_statement_free: "statement_free t \<Longrightarrow> strip_docs doc t = t"
  by (induction t arbitrary: doc) (auto intro: map_idI)

lemma strip_is_body [simp]: "is_body (strip_docs doc t) = is_body t"
  by (cases t) auto

lemma well_formed_strip: "well_formed t \<Longrightarrow> well_formed (strip_docs doc t)"
proof (induction t arbitrary: doc)
  case (Stmt d r kind cs)
  then show ?case
    by (auto simp: last_map map_butlast [symmetric] strip_statement_free)
next
  case (Body ss)
  then show ?case by (auto simp: Let_def map_tl [symmetric] dest: list.set_sel(2))
qed auto

lemma render_statement_free: "statement_free t \<Longrightarrow> render policy doc t = render policy' doc' t"
  by (induction t arbitrary: doc doc') (auto simp: render_all_concat intro!: arg_cong [where f = concat])

lemma render_strip:
  "\<not> include_docstrings policy \<Longrightarrow> well_formed t \<Longrightarrow>
   render policy doc t = render (policy\<lparr>include_docstrings := True\<rparr>) doc' (strip_docs doc t)"
proof (induction t arbitrary: doc doc')
  case (Stmt d r kind cs)
  then show ?case by (auto simp: render_all_concat intro!: arg_cong [where f = concat])
next
  case (Body ss)
  then have "render_all policy False us = render_all (policy\<lparr>include_docstrings := True\<rparr>) False (map (strip_docs False) us)"
    if "set us \<subseteq> set ss" for us
    using that by (auto simp: render_all_concat subset_iff intro!: arg_cong [where f = concat])
  from this [of ss] this [of "tl ss"] show ?case
    using Body.prems(1) by (cases ss) (auto simp: doc_body_def skip_first_def Let_def)
qed (auto simp: render_all_concat intro!: arg_cong [where f = concat] render_statement_free)

section \<open>Members of a container\<close>

fun is_stmt :: "ast \<Rightarrow> bool" where
  "is_stmt (Stmt _ _ _ _) = True"
| "is_stmt _ = False"

fun with_nodes :: "ast \<Rightarrow> ast list \<Rightarrow> ast" where
  "with_nodes (Stmt d r kind _) cs = Stmt d r kind cs"
| "with_nodes (Expr d r kind _) cs = Expr d r kind cs"
| "with_nodes (Body _) cs = Body cs"
| "with_nodes (StringLiteral v kind _) cs = StringLiteral v kind cs"
| "with_nodes (BytesLiteral v kind _) cs = BytesLiteral v kind cs"
| "with_nodes (InterpolatedElement lit kind _) cs = InterpolatedElement lit kind cs"
| "with_nodes (Identifier s) cs = Identifier s"
| "with_nodes (Node kind _) cs = Node kind cs"

text \<open>The node at a position, given by the child to take at each level, and the tree with that node replaced.\<close>

fun node_at :: "nat list \<Rightarrow> ast \<Rightarrow> ast option" where
  "node_at [] t = Some t"
| "node_at (i # p) t = (if i < length (sub_nodes t) then node_at p (sub_nodes t ! i) else None)"

fun replace_at :: "nat list \<Rightarrow> ast \<Rightarrow> ast \<Rightarrow> ast" where
  "replace_at [] u t = u"
| "replace_at (i # p) u t = with_nodes t ((sub_nodes t)[i := replace_at p u (sub_nodes t ! i)])"

lemma with_nodes_same [simp]: "with_nodes t (sub_nodes t) = t"
  by (cases t) auto

lemma replace_same: "node_at p t = Some m \<Longrightarrow> replace_at p m t = t"
  by (induction p t rule: node_at.induct) (auto split: if_splits)

lemma node_at_statement_free: "statement_free t \<Longrightarrow> node_at p t = Some m \<Longrightarrow> statement_free m"
proof (induction p t rule: node_at.induct)
  case (2 i p t)
  then have "sub_nodes t ! i \<in> set (sub_nodes t)" by (auto split: if_splits)
  with 2 have "statement_free (sub_nodes t ! i)" by (cases t) auto
  with 2 show ?case by (auto split: if_splits)
qed simp

text \<open>On the way to a statement there are only statements, suites and plain nodes, all well formed.\<close>

lemma step_to_stmt:
  assumes "well_formed t" "node_at (i # p) t = Some m" "is_stmt m"
  shows "well_formed (sub_nodes t ! i)" "\<not> statement_free (sub_nodes t ! i)"
    "(\<exists>d r kind cs. t = Stmt d r kind cs \<and> d \<noteq> ExprStmt) \<or> is_body t \<or> (\<exists>kind cs. t = Node kind cs)"
proof -
  have i: "sub_nodes t ! i \<in> set (sub_nodes t)" "node_at p (sub_nodes t ! i) = Some m" using assms(2) by (auto split: if_splits)
  show free: "\<not> statement_free (sub_nodes t ! i)"
    using node_at_statement_free [OF _ i(2)] assms(3) by (cases m) auto
  with assms(1) i show "well_formed (sub_nodes t ! i)"
    "(\<exists>d r kind cs. t = Stmt d r kind cs \<and> d \<noteq> ExprStmt) \<or> is_body t \<or> (\<exists>kind cs. t = Node kind cs)"
    by (cases t; auto)+
qed

definition rendered_stmt :: "hash_policy \<Rightarrow> ast \<Rightarrow> bool" where
  "rendered_stmt policy s \<longleftrightarrow> is_stmt s \<and> (include_docstrings policy \<or> \<not> is_docstring_stmt s)"

lemma is_stmt_not_body: "is_stmt s \<Longrightarrow> \<not> is_body s"
  by (cases s) auto

lemma replace_keeps_docstring_position:
  assumes "well_formed c" "node_at p c = Some m" "rendered_stmt policy m" "rendered_stmt policy u"
  shows "\<not> include_docstrings policy \<Longrightarrow> \<not> is_docstring_stmt c \<and> \<not> is_docstring_stmt (replace_at p u c)"
proof (cases p)
  case (Cons i q)
  with assms have "\<not> (\<exists>r kind cs. c = Stmt ExprStmt r kind cs)"
    using step_to_stmt(3) [of c i q m] by (auto simp: rendered_stmt_def)
  then have "\<not> is_docstring_stmt c \<and> \<not> is_docstring_stmt (with_nodes c cs)" for cs
    by (cases c) (auto simp: is_docstring_stmt_def split: stmt_data.splits)
  with Cons show ?thesis by simp
qed (use assms in \<open>auto simp: rendered_stmt_def\<close>)

lemma doc_body_update:
  assumes "i < length ss" "\<not> include_docstrings policy \<Longrightarrow> \<not> is_docstring_stmt (ss ! i) \<and> \<not> is_docstring_stmt x"
  shows "doc_body policy doc (ss[i := x]) = doc_body policy doc (take i ss) @ x # drop (Suc i) ss"
proof -
  have "skip_first policy doc (ss[i := x]) = skip_first policy doc (take i ss)"
    using assms by (cases ss; cases i) (auto simp: skip_first_def)
  moreover have "skip_first policy doc (take i ss) \<Longrightarrow> 0 < i" by (cases i) (auto simp: skip_first_def)
  ultimately show ?thesis using assms(1) by (auto simp: doc_body_def upd_conv_take_nth_drop)
qed

lemma render_all_update:
  "i < length ts \<Longrightarrow>
   render_all policy doc (ts[i := x]) = render_all policy doc (take i ts) @ render policy doc x @ render_all policy doc (drop (Suc i) ts)"
  by (simp add: upd_conv_take_nth_drop)

text \<open>The rendering of a tree around one of its statements: what stands before and after does not depend on it.\<close>

lemma render_around:
  "well_formed t \<Longrightarrow> node_at p t = Some m \<Longrightarrow> rendered_stmt policy m \<Longrightarrow>
   \<exists>pre post. \<forall>u. rendered_stmt policy u \<longrightarrow> render policy doc (replace_at p u t) = pre @ render policy False u @ post"
proof (induction p arbitrary: t doc)
  case Nil
  have "render policy doc u = [] @ render policy False u @ []" if "rendered_stmt policy u" for u
    using that render_doc_irrelevant [of u policy doc False] is_stmt_not_body by (auto simp: rendered_stmt_def)
  then show ?case by (metis replace_at.simps(1))
next
  case (Cons i p)
  let ?c = "sub_nodes t ! i"
  have i: "i < length (sub_nodes t)" "node_at p ?c = Some m" using Cons.prems(2) by (auto split: if_splits)
  have m: "is_stmt m" using Cons.prems(3) by (simp add: rendered_stmt_def)
  note step = step_to_stmt [OF Cons.prems(1,2) m]
  define scope where "scope = (case t of Stmt d _ _ _ \<Rightarrow> opens_doc_scope d | _ \<Rightarrow> False)"
  obtain pre post where ih: "\<forall>u. rendered_stmt policy u \<longrightarrow> render policy scope (replace_at p u ?c) = pre @ render policy False u @ post"
    using Cons.IH [OF step(1) i(2) Cons.prems(3)] by blast
  have "\<exists>before after. \<forall>u. rendered_stmt policy u \<longrightarrow>
      render policy doc (replace_at (i # p) u t) = before @ render policy scope (replace_at p u ?c) @ after"
  proof (cases "is_body t")
    case True
    then obtain ss where t: "t = Body ss" by (cases t) auto
    have "render policy doc (replace_at (i # p) u t)
        = (token ''{'' @ render_all policy False (doc_body policy doc (take i ss))) @ render policy scope (replace_at p u ?c)
          @ (render_all policy False (drop (Suc i) ss) @ token ''}'')" if "rendered_stmt policy u" for u
      using replace_keeps_docstring_position [OF step(1) i(2) Cons.prems(3) that] t i(1)
      by (simp add: doc_body_update scope_def)
    then show ?thesis by blast
  next
    case False
    with step(3) i(1) obtain before where
      "\<forall>x. render policy doc (with_nodes t ((sub_nodes t)[i := x]))
         = before @ render policy scope x @ render_all policy scope (drop (Suc i) (sub_nodes t))"
      by (auto simp: scope_def render_all_update simp flip: append_assoc)
    then show ?thesis by auto
  qed
  then obtain before after where "\<forall>u. rendered_stmt policy u \<longrightarrow>
      render policy doc (replace_at (i # p) u t) = before @ render policy scope (replace_at p u ?c) @ after" by blast
  with ih have "\<forall>u. rendered_stmt policy u \<longrightarrow>
      render policy doc (replace_at (i # p) u t) = (before @ pre) @ render policy False u @ (post @ after)" by simp
  then show ?case by blast
qed

lemma replace_is_body: "node_at p t = Some m \<Longrightarrow> is_stmt m \<Longrightarrow> is_stmt u \<Longrightarrow> is_body (replace_at p u t) = is_body t"
  by (cases p; cases t) (auto simp: is_stmt_not_body)

lemma well_formed_replace:
  "well_formed t \<Longrightarrow> node_at p t = Some m \<Longrightarrow> is_stmt m \<Longrightarrow> is_stmt u \<Longrightarrow> well_formed u \<Longrightarrow> well_formed (replace_at p u t)"
proof (induction p arbitrary: t)
  case (Cons i p)
  let ?c = "sub_nodes t ! i"
  have i: "i < length (sub_nodes t)" "node_at p ?c = Some m" using Cons.prems(2) by (auto split: if_splits)
  note step = step_to_stmt [OF Cons.prems(1-3)]
  have c: "well_formed (replace_at p u ?c)" "is_body (replace_at p u ?c) = is_body ?c"
    using Cons.IH [OF step(1) i(2)] Cons.prems replace_is_body [OF i(2)] by auto
  have each: "\<forall>x\<in>set ((sub_nodes t)[i := replace_at p u ?c]). well_formed x" if "\<forall>x\<in>set (sub_nodes t). well_formed x"
    using that c(1) by (auto dest!: set_update_subset_insert [THEN subsetD])
  show ?case
  proof (cases "\<exists>d r kind cs. t = Stmt d r kind cs")
    case True
    then obtain d r kind cs where t: "t = Stmt d r kind cs" by blast
    have "cs[i := x] \<noteq> [] \<and> is_body (last (cs[i := x])) \<and> (\<forall>y\<in>set (butlast (cs[i := x])). statement_free y)"
      if "opens_doc_scope d" "is_body x = is_body ?c" for x
    proof -
      from that(1) t Cons.prems(1) have cs: "cs \<noteq> []" "is_body (last cs)" "\<forall>y\<in>set (butlast cs). statement_free y" by auto
      have "i = length cs - 1"
        using cs(3) step(2) i(1) t nth_butlast [of i cs] in_set_conv_nth [of "?c" "butlast cs"] by force
      with cs t that(2) show ?thesis by (simp add: last_list_update butlast_list_update last_conv_nth)
    qed
    with t each c(2) Cons.prems(1) step(3) show ?thesis by auto
  qed (use step(3) each Cons.prems(1) in \<open>cases t; auto\<close>)
qed simp

section \<open>The index\<close>

fun statements :: "ast \<Rightarrow> ast list" where
  "statements (Stmt d r kind cs) = Stmt d r kind cs # concat (map statements cs)"
| "statements (Expr _ _ _ cs) = concat (map statements cs)"
| "statements (Body ss) = concat (map statements ss)"
| "statements (StringLiteral _ _ cs) = concat (map statements cs)"
| "statements (BytesLiteral _ _ cs) = concat (map statements cs)"
| "statements (InterpolatedElement _ _ cs) = concat (map statements cs)"
| "statements (Identifier _) = []"
| "statements (Node _ cs) = concat (map statements cs)"

fun stmt_range :: "ast \<Rightarrow> text_range" where
  "stmt_range (Stmt _ r _ _) = r"
| "stmt_range _ = (0, 0)"

definition ranged :: "ast list \<Rightarrow> (text_range \<times> ast) list" where
  "ranged ss = map (\<lambda>s. (stmt_range s, s)) ss"

lemma index_ranged:
  "index_stmt t m = m ++ map_of (rev (ranged (statements t)))"
  "index_all ts m = m ++ map_of (rev (ranged (concat (map statements ts))))"
proof (induction t m and ts m rule: index_stmt_index_all.induct)
  case (1 d r kind cs m)
  then have "index_all cs (m(r \<mapsto> Stmt d r kind cs)) = m(r \<mapsto> Stmt d r kind cs) ++ map_of (rev (ranged (concat (map statements cs))))"
    by (simp add: fun_upd_def)
  then show ?case by (simp add: ranged_def)
qed (simp_all add: ranged_def)

lemma index_statements_exact:
  assumes "distinct (map stmt_range (concat (map statements body)))" "s \<in> set (concat (map statements body))"
  shows "index_statements body (stmt_range s) = Some s"
proof -
  let ?m = "rev (ranged (concat (map statements body)))"
  have "distinct (map fst ?m)" using assms(1) by (simp add: ranged_def rev_map [symmetric] comp_def)
  moreover have "(stmt_range s, s) \<in> set ?m" using assms(2) by (auto simp: ranged_def)
  ultimately show ?thesis by (simp add: index_statements_def index_ranged)
qed

lemma index_statements_none:
  "r \<notin> stmt_range ` set (concat (map statements body)) \<Longrightarrow> index_statements body r = None"
  by (auto simp: index_statements_def index_ranged ranged_def map_of_eq_None_iff simp del: set_concat)

lemma statement_free_statements: "statement_free t \<Longrightarrow> statements t = []"
  by (induction t) auto

lemma well_formed_statements: "well_formed t \<Longrightarrow> s \<in> set (statements t) \<Longrightarrow> well_formed s \<and> is_stmt s"
  by (induction t) (auto simp: statement_free_statements)

section \<open>Properties\<close>

text \<open>
  C16.  The normal form of an entity is the rendering of its statement.  In a file whose statements
  have distinct ranges, the entity at the range of a statement, however deeply nested, gets the
  canonical rendering of exactly that statement, in which the renderer's mutable flag plays no
  role: it is the rendering by structure.  An entity whose range is no statement's gets the
  text between its offsets, and never aborts when they lie between characters.
\<close>

theorem normal_form_exact:
  assumes "\<forall>t\<in>set body. well_formed t" "distinct (map stmt_range (concat (map statements body)))"
  shows "(s \<in> set (concat (map statements body)) \<longrightarrow>
        entity_normal_form (index_statements body) (stmt_range s) source policy = Some (render policy False s))
    \<and> (r \<notin> stmt_range ` set (concat (map statements body)) \<and> source = before @ part @ after
        \<and> r = (utf8_len before, utf8_len (before @ part)) \<longrightarrow>
        entity_normal_form (index_statements body) r source policy = Some part)"
proof (intro conjI impI)
  assume s: "s \<in> set (concat (map statements body))"
  then have "well_formed s" "\<not> is_body s" using assms(1) well_formed_statements is_stmt_not_body by fastforce+
  with index_statements_exact [OF assms(2) s] render_stmt_structural
  show "entity_normal_form (index_statements body) (stmt_range s) source policy = Some (render policy False s)"
    by (simp add: entity_normal_form_def)
next
  assume r: "r \<notin> stmt_range ` set (concat (map statements body)) \<and> source = before @ part @ after
        \<and> r = (utf8_len before, utf8_len (before @ part))"
  then have "index_statements body r = None" by (intro index_statements_none) blast
  with r byte_get_append [of before part after]
  show "entity_normal_form (index_statements body) r source policy = Some part"
    by (simp add: entity_normal_form_def)
qed

text \<open>A class with one method, which has a docstring and returns a number.\<close>

definition sample_docstring :: ast where
  "sample_docstring = Stmt ExprStmt (20, 25) ''StmtExpr''
     [Expr StringLiteralExpr (20, 25) ''ExprStringLiteral'' [StringLiteral ''doc'' ''StringLiteral'' []]]"

definition sample_return :: "str \<Rightarrow> ast" where
  "sample_return v = Stmt OtherStmt (30, 38) ''StmtReturn'' [Expr (NumberLiteral v) (37, 38) ''ExprNumberLiteral'' []]"

definition sample_method :: "str \<Rightarrow> ast" where
  "sample_method v = Stmt (FunctionDef ''f'' (16, 17) False) (12, 38) ''StmtFunctionDef''
     [Identifier ''f'', Node ''Parameters'' [], Body [sample_docstring, sample_return v]]"

definition sample_class :: "str \<Rightarrow> ast" where
  "sample_class v = Stmt (ClassDef ''C'' (6, 7)) (0, 38) ''StmtClassDef'' [Identifier ''C'', Body [sample_method v]]"

lemmas sample_class_simps = sample_class_def sample_method_def sample_return_def sample_docstring_def opens_doc_scope_def

lemma sample_class_well_formed: "well_formed (sample_class v)" "well_formed (sample_method v)" "is_stmt (sample_method v)"
  by (auto simp: sample_class_simps)

theorem normal_form_exact_witness:
  "entity_normal_form (index_statements [sample_class ''1'']) (12, 38) [] hash_policy_default = Some (render hash_policy_default False (sample_method ''1''))
   \<and> entity_normal_form (index_statements [sample_class ''1'']) (0, 1) ''ab'' hash_policy_default = Some ''a''"
  using normal_form_exact [of "[sample_class ''1'']" "sample_method ''1''" "[]" hash_policy_default]
    normal_form_exact [of "[sample_class ''1'']" "sample_method ''1''" "''ab''" hash_policy_default "(0, 1)" "[]" "''a''" "''b''"]
  by (simp add: sample_class_well_formed) (simp add: sample_class_simps utf8_len_def utf8_width_def)

text \<open>
  C17.  Docstrings count only when the policy says so, and are found by position.  Rendering
  without docstrings is rendering the tree from which the docstrings were removed: the first
  statement of a function's or class's suite when it is a string, at any depth, and no other
  string statement.
\<close>

theorem docstrings_by_position:
  assumes "well_formed s" "is_stmt s" "\<not> include_docstrings policy"
  shows "render_stmt s policy = render_stmt (strip_docs False s) (policy\<lparr>include_docstrings := True\<rparr>)"
proof -
  have "\<not> is_body s" using assms(2) by (rule is_stmt_not_body)
  with assms well_formed_strip [OF assms(1), of False] show ?thesis
    by (simp add: render_stmt_structural render_strip [where doc' = False])
qed

theorem docstrings_by_position_witness:
  "render_stmt (sample_method ''1'') hash_policy_default =
     render_stmt (Stmt (FunctionDef ''f'' (16, 17) False) (12, 38) ''StmtFunctionDef''
       [Identifier ''f'', Node ''Parameters'' [], Body [sample_return ''1'']]) (hash_policy_default\<lparr>include_docstrings := True\<rparr>)"
  using docstrings_by_position [OF sample_class_well_formed(2,3) [of "''1''"], of hash_policy_default]
  by (simp add: hash_policy_default_def sample_class_simps is_docstring_stmt_def)

text \<open>
  A container's rendering includes its members'.  Replacing a statement at any depth of a
  function or class changes the rendering of the container exactly when it changes the
  rendering of the statement: no edit of a member's body goes unnoticed by the containers, and
  none that leaves the member's normal form alone disturbs them.
\<close>

lemma container_subsumes_members:
  assumes "well_formed c" "is_stmt c" "node_at p c = Some m" "is_stmt m" "is_stmt m'" "well_formed m'"
    and "include_docstrings policy \<or> \<not> is_docstring_stmt m \<and> \<not> is_docstring_stmt m'"
  shows "render_stmt (replace_at p m' c) policy = render_stmt c policy \<longleftrightarrow> render_stmt m' policy = render_stmt m policy"
proof -
  have r: "rendered_stmt policy m" "rendered_stmt policy m'" using assms by (auto simp: rendered_stmt_def)
  have nb: "\<not> is_body c" "\<not> is_body m" "\<not> is_body m'" using assms is_stmt_not_body by auto
  have wf: "well_formed m" using assms(1,3)
  proof (induction p arbitrary: c)
    case (Cons i p)
    then show ?case using step_to_stmt(1) [OF Cons.prems assms(4)] by (auto split: if_splits)
  qed simp
  obtain pre post where around: "\<forall>u. rendered_stmt policy u \<longrightarrow> render policy False (replace_at p u c) = pre @ render policy False u @ post"
    using render_around [OF assms(1,3) r(1)] by blast
  have "well_formed (replace_at p m' c)" "\<not> is_body (replace_at p m' c)"
    using well_formed_replace [OF assms(1,3,4,5,6)] replace_is_body [OF assms(3,4,5)] nb(1) by auto
  then show ?thesis
    using around r nb wf assms(1,6) replace_same [OF assms(3)] by (metis render_stmt_structural same_append_eq append_same_eq)
qed

text \<open>
  Tokens are separated but nodes are not closed, so the rendering is ambiguous: the calls
  \<open>f(g(a), b)\<close> and \<open>f(g(a, b))\<close> have the same one, and turning one into the other is no change.
\<close>

definition sample_name :: "str \<Rightarrow> ast" where
  "sample_name x = Expr (NameExpr x Load) (0, 0) ''ExprName'' []"

definition sample_call :: "str \<Rightarrow> ast list \<Rightarrow> ast" where
  "sample_call f args = Expr OtherExpr (0, 0) ''ExprCall'' [sample_name f, Node ''Arguments'' args]"

lemma rendering_ambiguous:
  "sample_call ''f'' [sample_call ''g'' [sample_name ''a''], sample_name ''b'']
     \<noteq> sample_call ''f'' [sample_call ''g'' [sample_name ''a'', sample_name ''b'']]"
  "render_stmt (Stmt ExprStmt r ''StmtExpr'' [sample_call ''f'' [sample_call ''g'' [sample_name ''a''], sample_name ''b'']]) policy
     = render_stmt (Stmt ExprStmt r ''StmtExpr'' [sample_call ''f'' [sample_call ''g'' [sample_name ''a'', sample_name ''b'']]]) policy"
  by (simp_all add: sample_call_def sample_name_def render_stmt_def)

end
