(* ===== verification/Symbols.thy ===== *)
theory Symbols
  imports Rendering Builder
begin

text \<open>
  The symbols of a source file and what the program derives from them: the entities that
  reconciliation works on (\<open>rust/src/entity.rs\<close>), the symbols reported to clients and to the
  code layer (\<open>rust/src/convert/symbols.rs\<close>), and the qualified path of a symbol found by
  walking up the hierarchy (\<open>build_qualified_path\<close> of \<open>rust/src/project/methods.rs\<close>).

  The hierarchy comes from the type checker: the record \<open>hierarchical\<close> holds the symbols its
  iterator yields, the children of each symbol, and each symbol's information.  Nothing in
  the types says that it is a forest.  The walks are recursive, so they take fuel: as many
  steps as the hierarchy has symbols, which is enough for the walk that marks visited symbols
  whatever the hierarchy is, and for the others when it is a forest.
\<close>

section \<open>The hierarchy\<close>

datatype ide_kind =
    IModule | IClass | IFunction | IMethod | IConstructor | IVariable | IConstant | IField
  | IParameter | IProperty | ITypeParameter | IImport

record symbol_info =
  si_name :: str
  si_kind :: ide_kind
  si_deprecated :: bool
  si_name_range :: text_range
  si_full_range :: text_range

record hierarchical =
  hs_iter :: "nat list"
  hs_children :: "(nat \<times> nat list) list"
  hs_info :: "nat \<Rightarrow> symbol_info"

definition children :: "hierarchical \<Rightarrow> nat \<Rightarrow> nat list" where
  "children hs i = (case map_of (hs_children hs) i of None \<Rightarrow> [] | Some cs \<Rightarrow> cs)"

definition all_symbols :: "hierarchical \<Rightarrow> nat list" where
  "all_symbols hs = hs_iter hs @ concat (map snd (hs_children hs))"

section \<open>Entities\<close>

fun symbol_kind_from :: "ide_kind \<Rightarrow> symbol_kind" where
  "symbol_kind_from IModule = Module"
| "symbol_kind_from IClass = Class"
| "symbol_kind_from IFunction = Function"
| "symbol_kind_from IMethod = Method"
| "symbol_kind_from IConstructor = Constructor"
| "symbol_kind_from IVariable = Variable"
| "symbol_kind_from IConstant = Constant"
| "symbol_kind_from IField = Field"
| "symbol_kind_from IParameter = Parameter"
| "symbol_kind_from IProperty = Property"
| "symbol_kind_from ITypeParameter = TypeParameter"
| "symbol_kind_from IImport = Import"

definition hash_entity :: "(str \<Rightarrow> u128) \<Rightarrow> str \<Rightarrow> content_hash" where
  "hash_entity xxh3 normalised = hash_bytes xxh3 normalised"

text \<open>
  The context of a walk.  The normal form of the entity at a range, under the policy in force,
  is looked up in the statement index of the file (\<open>entity_normal_form\<close>).
\<close>

record entity_walk =
  ew_hierarchical :: hierarchical
  ew_normal_form :: "text_range \<Rightarrow> str"
  ew_file_path :: str
  ew_xxh3 :: "str \<Rightarrow> u128"

type_synonym walk_state = "entity list \<times> nat set"

definition qualified_under :: "str \<Rightarrow> str option \<Rightarrow> str \<Rightarrow> str" where
  "qualified_under file parent name = (case parent of Some p \<Rightarrow> p @ ''::'' @ name | None \<Rightarrow> file @ ''::'' @ name)"

definition dotted_under :: "str option \<Rightarrow> str \<Rightarrow> str" where
  "dotted_under parent name = (case parent of Some p \<Rightarrow> p @ ''.'' @ name | None \<Rightarrow> name)"

definition entity_of :: "entity_walk \<Rightarrow> nat \<Rightarrow> str option \<Rightarrow> str option \<Rightarrow> entity" where
  "entity_of cx i parent_qualified parent_dotted =
     (let info = hs_info (ew_hierarchical cx) i
      in \<lparr>e_qualified_path = qualified_under (ew_file_path cx) parent_qualified (si_name info),
          e_kind = symbol_kind_from (si_kind info),
          e_content_hash = hash_entity (ew_xxh3 cx) (ew_normal_form cx (si_full_range info)),
          e_container = parent_qualified, e_name = si_name info, e_file = ew_file_path cx,
          e_full_range = si_full_range info, e_name_range = si_name_range info,
          e_qualified_name = dotted_under parent_dotted (si_name info)\<rparr>)"

fun collect_entities_recursive ::
  "nat \<Rightarrow> entity_walk \<Rightarrow> str option \<Rightarrow> str option \<Rightarrow> nat \<Rightarrow> walk_state \<Rightarrow> walk_state option" where
  "collect_entities_recursive 0 cx parent_qualified parent_dotted i st = None"
| "collect_entities_recursive (Suc fuel) cx parent_qualified parent_dotted i st =
     (let e = entity_of cx i parent_qualified parent_dotted
      in fold_option
           (\<lambda>c st. if c \<in> snd st then Some st
                   else collect_entities_recursive fuel cx (Some (e_qualified_path e)) (Some (e_qualified_name e)) c st)
           (children (ew_hierarchical cx) i) (fst st @ [e], insert i (snd st)))"

text \<open>
  The type checker's database as one read finds it: the project's files, their source, symbols
  and line index, path resolution, and the parsed module.  A file is known by its path.
\<close>

record checker =
  ck_files :: "path list"
  ck_canonicalize :: "path \<Rightarrow> (str, path) result"
  ck_to_file :: "path \<Rightarrow> (str, path) result"
  ck_source :: "path \<Rightarrow> str"
  ck_line_index :: "str \<Rightarrow> line_index"
  ck_symbols :: "path \<Rightarrow> hierarchical"
  ck_parsed :: "path \<Rightarrow> ast list"

text \<open>
  The normal form of the entity at a range of a file.  Slicing the source at an offset inside a
  character would abort; the checker's ranges lie between characters, and the empty text stands
  for the case that does not arise.
\<close>

definition file_normal_form :: "checker \<Rightarrow> path \<Rightarrow> text_range \<Rightarrow> hash_policy \<Rightarrow> str" where
  "file_normal_form ck file r policy =
     (case entity_normal_form (index_statements (ck_parsed ck file)) r (ck_source ck file) policy of
        Some normal_form \<Rightarrow> normal_form
      | None \<Rightarrow> [])"

definition python_source :: "(str \<Rightarrow> bool) \<Rightarrow> path \<Rightarrow> bool" where
  "python_source py_ext p = (case extension p of None \<Rightarrow> False | Some e \<Rightarrow> py_ext e)"

definition walk_root :: "entity_walk \<Rightarrow> nat \<Rightarrow> walk_state \<Rightarrow> walk_state option" where
  "walk_root cx i st =
     (if i \<in> snd st then Some st
      else collect_entities_recursive (length (all_symbols (ew_hierarchical cx))) cx None None i st)"

definition file_walk :: "(str \<Rightarrow> u128) \<Rightarrow> checker \<Rightarrow> hash_policy \<Rightarrow> path \<Rightarrow> entity_walk" where
  "file_walk xxh3 ck policy file =
     \<lparr>ew_hierarchical = ck_symbols ck file, ew_normal_form = (\<lambda>r. file_normal_form ck file r policy),
      ew_file_path = file, ew_xxh3 = xxh3\<rparr>"

definition extract_file :: "(str \<Rightarrow> u128) \<Rightarrow> checker \<Rightarrow> hash_policy \<Rightarrow> path \<Rightarrow> entity list \<Rightarrow> entity list option" where
  "extract_file xxh3 ck policy file entities =
     map_option fst (fold_option (walk_root (file_walk xxh3 ck policy file)) (hs_iter (ck_symbols ck file)) (entities, {}))"

definition extract_entities_for ::
  "(str \<Rightarrow> u128) \<Rightarrow> (str \<Rightarrow> bool) \<Rightarrow> checker \<Rightarrow> hash_policy \<Rightarrow> path set \<Rightarrow> entity list option" where
  "extract_entities_for xxh3 py_ext ck policy files =
     fold_option (extract_file xxh3 ck policy)
       (sort (filter (\<lambda>f. f \<in> files \<and> python_source py_ext f) (ck_files ck))) []"

definition extract_entities ::
  "(str \<Rightarrow> u128) \<Rightarrow> (str \<Rightarrow> bool) \<Rightarrow> checker \<Rightarrow> hash_policy \<Rightarrow> entity list option" where
  "extract_entities xxh3 py_ext ck policy =
     extract_entities_for xxh3 py_ext ck policy (set (filter (python_source py_ext) (ck_files ck)))"

section \<open>Document symbols\<close>

fun symbol_kind_to_dto :: "ide_kind \<Rightarrow> symbol_kind_dto" where
  "symbol_kind_to_dto IModule = KModule"
| "symbol_kind_to_dto IClass = KClass"
| "symbol_kind_to_dto IFunction = KFunction"
| "symbol_kind_to_dto IMethod = KMethod"
| "symbol_kind_to_dto IConstructor = KConstructor"
| "symbol_kind_to_dto IVariable = KVariable"
| "symbol_kind_to_dto IConstant = KConstant"
| "symbol_kind_to_dto IField = KField"
| "symbol_kind_to_dto IParameter = KParameter"
| "symbol_kind_to_dto IProperty = KProperty"
| "symbol_kind_to_dto ITypeParameter = KTypeParameter"
| "symbol_kind_to_dto IImport = KImport"

record symbol_walk =
  sw_hierarchical :: hierarchical
  sw_normal_form :: "text_range \<Rightarrow> hash_policy \<Rightarrow> str"
  sw_line_index :: line_index
  sw_file_path :: str
  sw_registry :: identity_registry
  sw_hash_policies :: "(str, hash_policy) hash_map option"
  sw_default_profile :: "str option"
  sw_xxh3 :: "str \<Rightarrow> u128"

definition hash_to_string :: "content_hash \<Rightarrow> str" where
  "hash_to_string h = (case h of ContentHash x \<Rightarrow> nat_to_string (unat x))"

definition convert_symbol ::
  "line_index \<Rightarrow> path \<Rightarrow> symbol_info \<Rightarrow> str option \<Rightarrow> str option \<Rightarrow> str option \<Rightarrow> str option \<Rightarrow> (str, str) hash_map
   \<Rightarrow> symbol_dto" where
  "convert_symbol li file info container qualified durable content_hash content_hashes =
     \<lparr>sy_name = si_name info, sy_qualified_name = qualified, sy_kind = symbol_kind_to_dto (si_kind info),
      sy_path = file, sy_range = range_to_dto_with_index li (si_full_range info),
      sy_selection_range = Some (range_to_dto_with_index li (si_name_range info)), sy_container_name = container,
      sy_deprecated = si_deprecated info, sy_durable_id = durable, sy_content_hash = content_hash, sy_content_hashes = content_hashes\<rparr>"

definition anchor_at :: "identity_registry \<Rightarrow> str \<Rightarrow> anchor option" where
  "anchor_at r p = Option.bind (by_path r p) (registry_get r)"

definition symbol_of :: "symbol_walk \<Rightarrow> nat \<Rightarrow> str option \<Rightarrow> str option \<Rightarrow> symbol_dto" where
  "symbol_of cx i parent_name parent_identity =
     (let info = hs_info (sw_hierarchical cx) i;
          identity_path = qualified_under (sw_file_path cx) parent_identity (si_name info);
          found = anchor_at (sw_registry cx) identity_path;
          hashes = (case sw_hash_policies cx of
                      None \<Rightarrow> []
                    | Some ps \<Rightarrow> map (\<lambda>(name, policy). (name,
                        hash_to_string (hash_entity (sw_xxh3 cx) (sw_normal_form cx (si_full_range info) policy)))) ps);
          default_hash = (case sw_hash_policies cx of
                            None \<Rightarrow> map_option (\<lambda>a. hash_to_string (a_content_hash a)) found
                          | Some _ \<Rightarrow> Option.bind (sw_default_profile cx) (map_of hashes))
      in convert_symbol (sw_line_index cx) (sw_file_path cx) info parent_name (map_option (\<lambda>p. p @ ''.'' @ si_name info) parent_name)
           (map_option (\<lambda>a. id_str (a_id a)) found) default_hash hashes)"

fun collect_symbols_recursive ::
  "nat \<Rightarrow> symbol_walk \<Rightarrow> str option \<Rightarrow> str option \<Rightarrow> nat \<Rightarrow> symbol_dto list \<Rightarrow> symbol_dto list option" where
  "collect_symbols_recursive 0 cx parent_name parent_identity i symbols = None"
| "collect_symbols_recursive (Suc fuel) cx parent_name parent_identity i symbols =
     (let name = si_name (hs_info (sw_hierarchical cx) i);
          own_name = dotted_under parent_name name;
          identity_path = qualified_under (sw_file_path cx) parent_identity name
      in fold_option (collect_symbols_recursive fuel cx (Some own_name) (Some identity_path))
           (children (sw_hierarchical cx) i) (symbols @ [symbol_of cx i parent_name parent_identity]))"

section \<open>The path of a symbol, from below\<close>

definition find_parent :: "hierarchical \<Rightarrow> nat \<Rightarrow> nat option" where
  "find_parent hs i = find (\<lambda>p. i \<in> set (children hs p)) (hs_iter hs)"

fun climb :: "nat \<Rightarrow> hierarchical \<Rightarrow> nat \<Rightarrow> str list \<Rightarrow> str list option" where
  "climb 0 hs i segments = None"
| "climb (Suc fuel) hs i segments =
     (case find_parent hs i of
        None \<Rightarrow> Some segments
      | Some p \<Rightarrow> climb fuel hs p (segments @ [si_name (hs_info hs p)]))"

definition build_qualified_path :: "hierarchical \<Rightarrow> nat \<Rightarrow> str \<Rightarrow> str option" where
  "build_qualified_path hs target file =
     map_option (\<lambda>segments. file @ ''::'' @ join_with ''::'' (rev segments))
       (if target \<in> set (hs_iter hs) then climb (length (hs_iter hs)) hs target [si_name (hs_info hs target)] else Some [])"

section \<open>The entity walk ends\<close>

lemma children_all: "c \<in> set (children hs i) \<Longrightarrow> c \<in> set (all_symbols hs)"
  using map_of_SomeD [of "hs_children hs" i] by (force simp: children_def all_symbols_def split: option.splits)

text \<open>The symbols a walk has yet to visit; each nested call has one fewer.\<close>

definition unseen :: "hierarchical \<Rightarrow> nat set \<Rightarrow> nat" where
  "unseen hs seen = card (set (all_symbols hs) - seen)"

lemma unseen_insert: "i \<in> set (all_symbols hs) \<Longrightarrow> i \<notin> seen \<Longrightarrow> Suc (unseen hs (insert i seen)) = unseen hs seen"
proof -
  assume a: "i \<in> set (all_symbols hs)" "i \<notin> seen"
  have "set (all_symbols hs) - insert i seen = set (all_symbols hs) - seen - {i}" by auto
  then show ?thesis unfolding unseen_def using a card_Suc_Diff1 [of "set (all_symbols hs) - seen" i] by simp
qed

lemma unseen_mono: "seen \<subseteq> seen' \<Longrightarrow> unseen hs seen' \<le> unseen hs seen"
  unfolding unseen_def by (rule card_mono) auto

lemma entity_walk_total:
  "i \<in> set (all_symbols (ew_hierarchical cx)) \<Longrightarrow> i \<notin> snd st \<Longrightarrow> unseen (ew_hierarchical cx) (snd st) \<le> fuel \<Longrightarrow>
   \<exists>st'. collect_entities_recursive fuel cx pq pd i st = Some st' \<and> insert i (snd st) \<subseteq> snd st'"
proof (induction fuel arbitrary: pq pd i st)
  case 0
  then show ?case using unseen_insert [of i "ew_hierarchical cx" "snd st"] by simp
next
  case (Suc fuel)
  let ?hs = "ew_hierarchical cx"
  let ?seen = "insert i (snd st)"
  have room: "unseen ?hs ?seen \<le> fuel" using unseen_insert [OF Suc.prems(1,2)] Suc.prems(3) by simp
  define e where "e = entity_of cx i pq pd"
  have "\<exists>t. fold_option (\<lambda>c st. if c \<in> snd st then Some st
          else collect_entities_recursive fuel cx (Some (e_qualified_path e)) (Some (e_qualified_name e)) c st)
        (children ?hs i) (fst st @ [e], ?seen) = Some t \<and> ?seen \<subseteq> snd t"
  proof (rule fold_option_total)
    fix c and s :: walk_state assume c: "c \<in> set (children ?hs i)" "?seen \<subseteq> snd s"
    then have "unseen ?hs (snd s) \<le> fuel" using unseen_mono [of ?seen "snd s" ?hs] room by simp
    then show "\<exists>t. (if c \<in> snd s then Some s
        else collect_entities_recursive fuel cx (Some (e_qualified_path e)) (Some (e_qualified_name e)) c s) = Some t \<and> ?seen \<subseteq> snd t"
      using Suc.IH [OF children_all [OF c(1)], of s "Some (e_qualified_path e)" "Some (e_qualified_name e)"] c(2)
      by (cases "c \<in> snd s") (simp_all del: split_paired_Ex, meson order_trans subsetD)
  qed simp
  then show ?case unfolding e_def by (simp add: Let_def)
qed

lemma unseen_length: "unseen hs seen \<le> length (all_symbols hs)"
  unfolding unseen_def by (rule le_trans [OF card_mono card_length]) auto

lemma walk_root_total:
  "i \<in> set (hs_iter (ew_hierarchical cx)) \<Longrightarrow> \<exists>st'. walk_root cx i st = Some st'"
  using entity_walk_total [of i cx st "length (all_symbols (ew_hierarchical cx))" None None] unseen_length
  by (auto simp: walk_root_def all_symbols_def)

lemma extract_file_total: "\<exists>es'. extract_file xxh3 ck policy file es = Some es'"
proof -
  have "\<exists>st. fold_option (walk_root (file_walk xxh3 ck policy file)) (hs_iter (ck_symbols ck file)) (es, {}) = Some st \<and> True"
    by (rule fold_option_total) (use walk_root_total [of _ "file_walk xxh3 ck policy file"] in \<open>simp_all add: file_walk_def\<close>)
  then show ?thesis by (auto simp: extract_file_def)
qed

lemma extract_total: "\<exists>es. extract_entities_for xxh3 py_ext ck policy files = Some es"
  using fold_option_total [where P = "\<lambda>_. True" and f = "extract_file xxh3 ck policy"] extract_file_total
  by (fastforce simp: extract_entities_for_def)

lemma more_fuel:
  "collect_entities_recursive fuel cx pq pd i st = Some st' \<Longrightarrow> fuel \<le> fuel' \<Longrightarrow>
   collect_entities_recursive fuel' cx pq pd i st = Some st'"
proof (induction fuel arbitrary: pq pd i st st' fuel')
  case (Suc fuel)
  then obtain n where "fuel' = Suc n" "fuel \<le> n" by (cases fuel') auto
  let ?walk = "\<lambda>f e c st. if c \<in> snd st then Some st
    else collect_entities_recursive f cx (Some (e_qualified_path e)) (Some (e_qualified_name e)) c st"
  let ?e = "entity_of cx i pq pd"
  have "fold_option (?walk fuel ?e) (children (ew_hierarchical cx) i) (fst st @ [?e], insert i (snd st)) = Some st'"
    using Suc.prems(1) by (simp add: Let_def)
  then have "fold_option (?walk n ?e) (children (ew_hierarchical cx) i) (fst st @ [?e], insert i (snd st)) = Some st'"
    by (rule fold_option_mono) (use Suc.IH \<open>fuel \<le> n\<close> in \<open>metis (no_types)\<close>)
  then show ?case by (simp add: Let_def \<open>fuel' = Suc n\<close>)
qed simp

section \<open>What the entity walk collects\<close>

text \<open>The names on the way down to a symbol from one that no other contains.\<close>

definition parentless :: "hierarchical \<Rightarrow> nat \<Rightarrow> bool" where
  "parentless hs i \<longleftrightarrow> (\<forall>p. i \<notin> set (children hs p))"

inductive symbol_path :: "hierarchical \<Rightarrow> nat \<Rightarrow> str list \<Rightarrow> bool" for hs where
  top: "i \<in> set (hs_iter hs) \<Longrightarrow> parentless hs i \<Longrightarrow> symbol_path hs i [si_name (hs_info hs i)]"
| member: "symbol_path hs p names \<Longrightarrow> i \<in> set (children hs p) \<Longrightarrow> symbol_path hs i (names @ [si_name (hs_info hs i)])"

definition qualify :: "str \<Rightarrow> str list \<Rightarrow> str" where
  "qualify file names = file @ concat (map (\<lambda>n. ''::'' @ n) names)"

definition dotted :: "str list \<Rightarrow> str" where
  "dotted names = join_with ''.'' names"

definition entity_for :: "entity_walk \<Rightarrow> nat \<Rightarrow> entity \<Rightarrow> bool" where
  "entity_for cx i e \<longleftrightarrow>
     (\<exists>names. symbol_path (ew_hierarchical cx) i names
        \<and> e_qualified_path e = qualify (ew_file_path cx) names \<and> e_qualified_name e = dotted names
        \<and> e_container e = (if length names = 1 then None else Some (qualify (ew_file_path cx) (butlast names))))
     \<and> e_name e = si_name (hs_info (ew_hierarchical cx) i) \<and> e_file e = ew_file_path cx
     \<and> e_full_range e = si_full_range (hs_info (ew_hierarchical cx) i)"

text \<open>What a step of the walk adds: entities of newly visited symbols, whose members are visited too.\<close>

definition grows :: "entity_walk \<Rightarrow> walk_state \<Rightarrow> walk_state \<Rightarrow> bool" where
  "grows cx st st' \<longleftrightarrow>
     (\<exists>vs new. fst st' = fst st @ new \<and> snd st' = snd st \<union> set vs \<and> set vs \<inter> snd st = {} \<and> distinct vs
        \<and> list_all2 (entity_for cx) vs new \<and> (\<forall>i\<in>set vs. set (children (ew_hierarchical cx) i) \<subseteq> snd st'))"

lemma grows_refl [simp]: "grows cx st st"
  unfolding grows_def by (rule exI [of _ "[]"], rule exI [of _ "[]"]) simp

lemma grows_trans: "grows cx a b \<Longrightarrow> grows cx b c \<Longrightarrow> grows cx a c"
proof -
  assume "grows cx a b" "grows cx b c"
  then obtain vs new js new' where
    "fst b = fst a @ new" "snd b = snd a \<union> set vs" "set vs \<inter> snd a = {}" "distinct vs"
    "list_all2 (entity_for cx) vs new" "\<forall>i\<in>set vs. set (children (ew_hierarchical cx) i) \<subseteq> snd b"
    "fst c = fst b @ new'" "snd c = snd b \<union> set js" "set js \<inter> snd b = {}" "distinct js"
    "list_all2 (entity_for cx) js new'" "\<forall>i\<in>set js. set (children (ew_hierarchical cx) i) \<subseteq> snd c"
    unfolding grows_def by auto
  then have "fst c = fst a @ (new @ new')" "snd c = snd a \<union> set (vs @ js)" "set (vs @ js) \<inter> snd a = {}"
    "distinct (vs @ js)" "list_all2 (entity_for cx) (vs @ js) (new @ new')"
    "\<forall>i\<in>set (vs @ js). set (children (ew_hierarchical cx) i) \<subseteq> snd c"
    by (auto intro: list_all2_appendI)
  then show ?thesis unfolding grows_def by blast
qed

lemma grows_seen: "grows cx st st' \<Longrightarrow> snd st \<subseteq> snd st'"
  by (auto simp: grows_def)

lemma fold_grows:
  assumes "fold_option f xs st = Some st'"
    and "\<And>x s t. x \<in> set xs \<Longrightarrow> f x s = Some t \<Longrightarrow> grows cx s t \<and> x \<in> snd t"
  shows "grows cx st st' \<and> set xs \<subseteq> snd st'"
  using assms
proof (induction xs arbitrary: st)
  case (Cons x xs)
  then obtain t where t: "f x st = Some t" "fold_option f xs t = Some st'" by (auto simp: bind_eq_Some_conv)
  have "grows cx t st' \<and> set xs \<subseteq> snd st'" using Cons.IH [OF t(2)] Cons.prems(2) by (meson list.set_intros(2))
  moreover have "grows cx st t" "x \<in> snd t" using Cons.prems(2) [OF _ t(1)] by simp_all
  ultimately show ?case using grows_trans grows_seen [of cx t st'] by auto
qed simp

text \<open>How the arguments of a call describe the symbol's container.\<close>

definition called_under :: "entity_walk \<Rightarrow> nat \<Rightarrow> str option \<Rightarrow> str option \<Rightarrow> bool" where
  "called_under cx i pq pd \<longleftrightarrow>
     (pq = None \<and> pd = None \<and> i \<in> set (hs_iter (ew_hierarchical cx)) \<and> parentless (ew_hierarchical cx) i)
     \<or> (\<exists>p names. symbol_path (ew_hierarchical cx) p names \<and> i \<in> set (children (ew_hierarchical cx) p)
          \<and> pq = Some (qualify (ew_file_path cx) names) \<and> pd = Some (dotted names))"

lemma symbol_path_not_Nil: "symbol_path hs i names \<Longrightarrow> names \<noteq> []"
  by (erule symbol_path.cases) auto

lemma dotted_snoc: "names \<noteq> [] \<Longrightarrow> dotted (names @ [n]) = dotted names @ ''.'' @ n"
  by (cases names) (auto simp: dotted_def join_with_def)

lemma entity_of_called:
  assumes "called_under cx i pq pd"
  obtains names where "symbol_path (ew_hierarchical cx) i names"
    "e_qualified_path (entity_of cx i pq pd) = qualify (ew_file_path cx) names"
    "e_qualified_name (entity_of cx i pq pd) = dotted names"
    "pq = (if length names = 1 then None else Some (qualify (ew_file_path cx) (butlast names)))"
proof -
  let ?n = "si_name (hs_info (ew_hierarchical cx) i)"
  from assms consider (top) "pq = None" "pd = None" "symbol_path (ew_hierarchical cx) i [?n]"
    | (member) names where "pq = Some (qualify (ew_file_path cx) names)" "pd = Some (dotted names)"
        "names \<noteq> []" "symbol_path (ew_hierarchical cx) i (names @ [?n])"
    unfolding called_under_def using symbol_path.intros symbol_path_not_Nil by metis
  then show ?thesis
  proof cases
    case top
    then show ?thesis using that [of "[?n]"]
      by (simp add: entity_of_def Let_def qualified_under_def dotted_under_def qualify_def dotted_def join_with_def)
  next
    case member
    then show ?thesis using that [of "names @ [?n]"]
      by (simp add: entity_of_def Let_def qualified_under_def dotted_under_def qualify_def dotted_snoc)
  qed
qed

lemma walk_grows:
  "collect_entities_recursive fuel cx pq pd i st = Some st' \<Longrightarrow> i \<notin> snd st \<Longrightarrow> called_under cx i pq pd \<Longrightarrow>
   grows cx st st' \<and> i \<in> snd st'"
proof (induction fuel arbitrary: pq pd i st st')
  case (Suc fuel)
  let ?hs = "ew_hierarchical cx"
  define e where "e = entity_of cx i pq pd"
  let ?st = "(fst st @ [e], insert i (snd st))"
  obtain names where names: "symbol_path ?hs i names" "e_qualified_path e = qualify (ew_file_path cx) names"
      "e_qualified_name e = dotted names"
      "pq = (if length names = 1 then None else Some (qualify (ew_file_path cx) (butlast names)))"
    unfolding e_def by (rule entity_of_called [OF Suc.prems(3)])
  then have at: "entity_for cx i e" by (auto simp: entity_for_def e_def entity_of_def Let_def)
  have "fold_option (\<lambda>c st. if c \<in> snd st then Some st
          else collect_entities_recursive fuel cx (Some (e_qualified_path e)) (Some (e_qualified_name e)) c st)
        (children ?hs i) ?st = Some st'" using Suc.prems(1) unfolding e_def by (simp add: Let_def)
  then have "grows cx ?st st' \<and> set (children ?hs i) \<subseteq> snd st'"
  proof (rule fold_grows)
    fix c and s t :: walk_state
    assume c: "c \<in> set (children ?hs i)"
      and w: "(if c \<in> snd s then Some s
        else collect_entities_recursive fuel cx (Some (e_qualified_path e)) (Some (e_qualified_name e)) c s) = Some t"
    have "called_under cx c (Some (e_qualified_path e)) (Some (e_qualified_name e))"
      using c names by (auto simp: called_under_def)
    with w Suc.IH show "grows cx s t \<and> c \<in> snd t" by (auto split: if_splits)
  qed
  then obtain vs new where g: "fst st' = fst ?st @ new" "snd st' = snd ?st \<union> set vs" "set vs \<inter> snd ?st = {}" "distinct vs"
      "list_all2 (entity_for cx) vs new" "\<forall>i\<in>set vs. set (children ?hs i) \<subseteq> snd st'" "set (children ?hs i) \<subseteq> snd st'"
    unfolding grows_def by blast
  have "grows cx st st'" unfolding grows_def
    by (rule exI [of _ "i # vs"], rule exI [of _ "e # new"]) (use g at Suc.prems(2) in auto)
  with g show ?case by simp
qed simp

section \<open>Forests\<close>

text \<open>
  What the hierarchy of a file is: the children of different symbols are different, a symbol is
  numbered before its children (symbols are numbered in source order), and when the iterator
  yields a member it has yielded its container before.
\<close>

definition symbol_forest :: "hierarchical \<Rightarrow> bool" where
  "symbol_forest hs \<longleftrightarrow>
     distinct (hs_iter hs)
     \<and> (\<forall>p q c. c \<in> set (children hs p) \<and> c \<in> set (children hs q) \<longrightarrow> p = q)
     \<and> (\<forall>p c. c \<in> set (children hs p) \<longrightarrow> p < c)
     \<and> (\<forall>p c. c \<in> set (children hs p) \<and> c \<in> set (hs_iter hs) \<longrightarrow> (\<exists>xs ys. hs_iter hs = xs @ c # ys \<and> p \<in> set xs))"

lemma forestD:
  assumes "symbol_forest hs"
  shows "distinct (hs_iter hs)" "c \<in> set (children hs p) \<Longrightarrow> c \<in> set (children hs q) \<Longrightarrow> p = q"
    "c \<in> set (children hs p) \<Longrightarrow> p < c"
    "c \<in> set (children hs p) \<Longrightarrow> hs_iter hs = xs @ c # ys \<Longrightarrow> p \<in> set xs"
proof -
  assume c: "c \<in> set (children hs p)" "hs_iter hs = xs @ c # ys"
  then have "c \<in> set (hs_iter hs)" by simp
  moreover have "\<forall>p c. c \<in> set (children hs p) \<and> c \<in> set (hs_iter hs) \<longrightarrow> (\<exists>xs ys. hs_iter hs = xs @ c # ys \<and> p \<in> set xs)"
    using assms by (simp add: symbol_forest_def)
  ultimately obtain xs' ys' where "hs_iter hs = xs' @ c # ys'" "p \<in> set xs'" using c(1) by blast
  moreover have "distinct (xs @ c # ys)" using assms c(2) by (simp add: symbol_forest_def)
  ultimately show "p \<in> set xs" using c(2) append_Cons_eq_iff [of c xs ys xs' ys'] by (metis distinct.simps(2) distinct_append
      disjoint_iff list.set_intros(1))
qed (use assms in \<open>auto simp: symbol_forest_def\<close>)

lemma roots_grow:
  assumes "symbol_forest (ew_hierarchical cx)" "hs_iter (ew_hierarchical cx) = xs @ ys"
    and "fold_option (walk_root cx) ys st = Some st'"
    and "set xs \<subseteq> snd st" "\<forall>v\<in>snd st. set (children (ew_hierarchical cx) v) \<subseteq> snd st"
  shows "grows cx st st' \<and> set (xs @ ys) \<subseteq> snd st'"
  using assms(2-5)
proof (induction ys arbitrary: xs st)
  case (Cons i ys)
  let ?hs = "ew_hierarchical cx"
  obtain t where t: "walk_root cx i st = Some t" "fold_option (walk_root cx) ys t = Some st'"
    using Cons.prems(2) by (auto simp: bind_eq_Some_conv)
  have g: "grows cx st t \<and> i \<in> snd t"
  proof (cases "i \<in> snd st")
    case False
    have "parentless ?hs i" unfolding parentless_def
      using forestD(4) [OF assms(1) _ Cons.prems(1)] Cons.prems(3,4) False by blast
    then have "called_under cx i None None" using Cons.prems(1) by (simp add: called_under_def)
    with t(1) False walk_grows show ?thesis by (auto simp: walk_root_def)
  qed (use t(1) in \<open>simp add: walk_root_def\<close>)
  then have "\<forall>v\<in>snd t. set (children ?hs v) \<subseteq> snd t" using Cons.prems(4) by (fastforce simp: grows_def)
  moreover have "set (xs @ [i]) \<subseteq> snd t" using g grows_seen [of cx st t] Cons.prems(3) by auto
  ultimately have "grows cx t st' \<and> set ((xs @ [i]) @ ys) \<subseteq> snd st'" using Cons.IH [OF _ t(2), of "xs @ [i]"] Cons.prems(1) by simp
  with g grows_trans [of cx st t st'] show ?case by simp
qed simp

lemma extract_file_entities:
  assumes "symbol_forest (ck_symbols ck file)" "extract_file xxh3 ck policy file es = Some es'"
  obtains vs new where "es' = es @ new" "distinct vs" "list_all2 (entity_for (file_walk xxh3 ck policy file)) vs new"
    "set (hs_iter (ck_symbols ck file)) \<subseteq> set vs" "\<forall>v\<in>set vs. set (children (ck_symbols ck file) v) \<subseteq> set vs"
proof -
  let ?cx = "file_walk xxh3 ck policy file"
  have hs: "ew_hierarchical ?cx = ck_symbols ck file" by (simp add: file_walk_def)
  obtain st where st: "fold_option (walk_root ?cx) (hs_iter (ck_symbols ck file)) (es, {}) = Some st" "es' = fst st"
    using assms(2) by (auto simp: extract_file_def)
  have "grows ?cx (es, {}) st \<and> set ([] @ hs_iter (ck_symbols ck file)) \<subseteq> snd st"
    by (rule roots_grow) (use assms(1) st hs in auto)
  then show ?thesis using that st(2) unfolding grows_def hs by auto
qed

section \<open>The two ways to a qualified path\<close>

lemma find_parent_None: "parentless hs i \<Longrightarrow> find_parent hs i = None"
  by (simp add: find_parent_def find_None_iff parentless_def)

lemma find_parent_Some:
  assumes "symbol_forest hs" "i \<in> set (children hs p)" "p \<in> set (hs_iter hs)"
  shows "find_parent hs i = Some p"
proof -
  obtain q where "find_parent hs i = Some q"
    using assms(2,3) by (cases "find_parent hs i") (auto simp: find_parent_def find_None_iff)
  moreover from this have "i \<in> set (children hs q)" by (auto simp: find_parent_def find_Some_iff)
  ultimately show ?thesis using forestD(2) [OF assms(1)] assms(2) by blast
qed

lemma parent_iterated:
  "symbol_forest hs \<Longrightarrow> i \<in> set (children hs p) \<Longrightarrow> i \<in> set (hs_iter hs) \<Longrightarrow> p \<in> set (hs_iter hs)"
  by (metis forestD(4) in_set_conv_decomp Un_iff set_append)

lemma climb_path:
  assumes "symbol_forest hs"
  shows "symbol_path hs i names \<Longrightarrow> i \<in> set (hs_iter hs) \<Longrightarrow> length names \<le> fuel \<Longrightarrow>
    climb fuel hs i segments = Some (segments @ rev (butlast names))"
proof (induction arbitrary: fuel segments rule: symbol_path.induct)
  case (top i)
  then obtain n where "fuel = Suc n" by (cases fuel) auto
  with top show ?case by (simp add: find_parent_None)
next
  case (member p names i)
  have p: "p \<in> set (hs_iter hs)" by (rule parent_iterated [OF assms member.hyps(2) member.prems(1)])
  obtain n where n: "fuel = Suc n" "length names \<le> n" using member.prems(2) by (cases fuel) auto
  have "names \<noteq> []" "last names = si_name (hs_info hs p)"
    using member.hyps(1) symbol_path_not_Nil by (auto elim: symbol_path.cases)
  then have r: "rev names = si_name (hs_info hs p) # rev (butlast names)"
    by (metis rev.simps(2) rev_rev_ident append_butlast_last_id)
  show ?case using member.IH [OF p n(2)] n(1) find_parent_Some [OF assms member.hyps(2) p] by (simp add: r)
qed

lemma path_ancestors:
  assumes "symbol_forest hs"
  shows "symbol_path hs i names \<Longrightarrow> i \<in> set (hs_iter hs) \<Longrightarrow>
    \<exists>anc. length anc = length names \<and> distinct anc \<and> set anc \<subseteq> set (hs_iter hs) \<and> (\<forall>a\<in>set anc. a \<le> i)"
proof (induction rule: symbol_path.induct)
  case (top i)
  then show ?case by (intro exI [of _ "[i]"]) simp
next
  case (member p names i)
  then obtain anc where "length anc = length names" "distinct anc" "set anc \<subseteq> set (hs_iter hs)" "\<forall>a\<in>set anc. a \<le> p"
    using parent_iterated [OF assms] by blast
  moreover have "p < i" using forestD(3) [OF assms member.hyps(2)] .
  ultimately show ?case using member.prems by (intro exI [of _ "i # anc"]) fastforce
qed

lemma path_short:
  assumes "symbol_forest hs" "symbol_path hs i names" "i \<in> set (hs_iter hs)"
  shows "length names \<le> length (hs_iter hs)"
proof -
  obtain anc where "length anc = length names" "distinct anc" "set anc \<subseteq> set (hs_iter hs)"
    using path_ancestors [OF assms] by blast
  then have "length names \<le> card (set (hs_iter hs))" by (metis card_mono distinct_card List.finite_set)
  then show ?thesis using card_length le_trans by blast
qed

lemma qualify_join: "names \<noteq> [] \<Longrightarrow> file @ ''::'' @ join_with ''::'' names = qualify file names"
  by (cases names) (simp_all only: join_with_def qualify_def list.case list.map concat.simps append_assoc)

lemma build_path:
  assumes "symbol_forest hs" "symbol_path hs i names" "i \<in> set (hs_iter hs)"
  shows "build_qualified_path hs i file = Some (qualify file names)"
proof -
  have "names \<noteq> []" "last names = si_name (hs_info hs i)"
    using assms(2) symbol_path_not_Nil by (auto elim: symbol_path.cases)
  then have "rev (si_name (hs_info hs i) # rev (butlast names)) = names" by (metis append_butlast_last_id rev.simps(2) rev_rev_ident)
  then show ?thesis
    using climb_path [OF assms path_short [OF assms], of "[si_name (hs_info hs i)]"] assms(3) qualify_join [OF \<open>names \<noteq> []\<close>]
    by (simp add: build_qualified_path_def)
qed

section \<open>The symbol walk\<close>

definition document_symbols :: "symbol_walk \<Rightarrow> symbol_dto list option" where
  "document_symbols cx =
     fold_option (collect_symbols_recursive (length (all_symbols (sw_hierarchical cx))) cx None None)
       (hs_iter (sw_hierarchical cx)) []"

text \<open>A symbol and the names on the way to it, as the walk reports them.\<close>

definition symbol_for :: "symbol_walk \<Rightarrow> nat \<Rightarrow> symbol_dto \<Rightarrow> bool" where
  "symbol_for cx i s \<longleftrightarrow>
     (\<exists>names. symbol_path (sw_hierarchical cx) i names
        \<and> s = symbol_of cx i (if length names = 1 then None else Some (dotted (butlast names)))
                (if length names = 1 then None else Some (qualify (sw_file_path cx) (butlast names))))"

definition reports :: "symbol_walk \<Rightarrow> symbol_dto list \<Rightarrow> symbol_dto list \<Rightarrow> nat set \<Rightarrow> bool" where
  "reports cx ss ss' vs \<longleftrightarrow>
     (\<exists>new. ss' = ss @ new \<and> (\<forall>s\<in>set new. \<exists>i\<in>vs. symbol_for cx i s) \<and> (\<forall>i\<in>vs. \<exists>s\<in>set new. symbol_for cx i s)
        \<and> (\<forall>i\<in>vs. set (children (sw_hierarchical cx) i) \<subseteq> vs))"

lemma reports_union: "reports cx a b vs \<Longrightarrow> reports cx b c ws \<Longrightarrow> reports cx a c (vs \<union> ws)"
  unfolding reports_def by (elim exE) (rule_tac x = "new @ newa" in exI, fastforce)

lemma fold_reports:
  assumes "fold_option f xs ss = Some ss'" "\<And>x s t. x \<in> set xs \<Longrightarrow> f x s = Some t \<Longrightarrow> \<exists>vs. reports cx s t vs \<and> x \<in> vs"
  shows "\<exists>vs. reports cx ss ss' vs \<and> set xs \<subseteq> vs"
  using assms
proof (induction xs arbitrary: ss)
  case Nil
  then show ?case by (intro exI [of _ "{}"]) (simp add: reports_def)
next
  case (Cons x xs)
  then obtain t where t: "f x ss = Some t" "fold_option f xs t = Some ss'" by (auto simp: bind_eq_Some_conv)
  obtain vs where vs: "reports cx ss t vs" "x \<in> vs" using Cons.prems(2) [OF _ t(1)] by auto
  obtain ws where ws: "reports cx t ss' ws" "set xs \<subseteq> ws"
    using Cons.IH [OF t(2)] Cons.prems(2) by (meson list.set_intros(2))
  show ?case by (rule exI [of _ "vs \<union> ws"]) (use vs ws reports_union [OF vs(1) ws(1)] in auto)
qed

definition walked_under :: "symbol_walk \<Rightarrow> nat \<Rightarrow> str option \<Rightarrow> str option \<Rightarrow> bool" where
  "walked_under cx i pn pid \<longleftrightarrow>
     (pn = None \<and> pid = None \<and> i \<in> set (hs_iter (sw_hierarchical cx)) \<and> parentless (sw_hierarchical cx) i)
     \<or> (\<exists>p names. symbol_path (sw_hierarchical cx) p names \<and> i \<in> set (children (sw_hierarchical cx) p)
          \<and> pn = Some (dotted names) \<and> pid = Some (qualify (sw_file_path cx) names))"

lemma walked_names:
  assumes "walked_under cx i pn pid"
  obtains names where "symbol_path (sw_hierarchical cx) i names"
    "dotted_under pn (si_name (hs_info (sw_hierarchical cx) i)) = dotted names"
    "qualified_under (sw_file_path cx) pid (si_name (hs_info (sw_hierarchical cx) i)) = qualify (sw_file_path cx) names"
    "pn = (if length names = 1 then None else Some (dotted (butlast names)))"
    "pid = (if length names = 1 then None else Some (qualify (sw_file_path cx) (butlast names)))"
proof -
  let ?n = "si_name (hs_info (sw_hierarchical cx) i)"
  from assms consider (top) "pn = None" "pid = None" "symbol_path (sw_hierarchical cx) i [?n]"
    | (member) names where "pn = Some (dotted names)" "pid = Some (qualify (sw_file_path cx) names)"
        "names \<noteq> []" "symbol_path (sw_hierarchical cx) i (names @ [?n])"
    unfolding walked_under_def using symbol_path.intros symbol_path_not_Nil by metis
  then show ?thesis
  proof cases
    case top
    then show ?thesis using that [of "[?n]"]
      by (simp add: qualified_under_def dotted_under_def qualify_def dotted_def join_with_def)
  next
    case member
    then show ?thesis using that [of "names @ [?n]"]
      by (simp add: qualified_under_def dotted_under_def qualify_def dotted_snoc)
  qed
qed

lemma symbols_reported:
  "collect_symbols_recursive fuel cx pn pid i ss = Some ss' \<Longrightarrow> walked_under cx i pn pid \<Longrightarrow>
   \<exists>vs. reports cx ss ss' vs \<and> i \<in> vs"
proof (induction fuel arbitrary: pn pid i ss ss')
  case (Suc fuel)
  let ?hs = "sw_hierarchical cx" and ?n = "si_name (hs_info (sw_hierarchical cx) i)"
  obtain names where names: "symbol_path ?hs i names" "dotted_under pn ?n = dotted names"
      "qualified_under (sw_file_path cx) pid ?n = qualify (sw_file_path cx) names"
      "pn = (if length names = 1 then None else Some (dotted (butlast names)))"
      "pid = (if length names = 1 then None else Some (qualify (sw_file_path cx) (butlast names)))"
    by (rule walked_names [OF Suc.prems(2)])
  let ?s = "symbol_of cx i pn pid"
  have "symbol_for cx i ?s" unfolding symbol_for_def by (rule exI [of _ names]) (use names(1,4,5) in simp)
  have "fold_option (collect_symbols_recursive fuel cx (Some (dotted names)) (Some (qualify (sw_file_path cx) names)))
      (children ?hs i) (ss @ [?s]) = Some ss'" using Suc.prems(1) names(2,3) by (simp add: Let_def)
  then have "\<exists>vs. reports cx (ss @ [?s]) ss' vs \<and> set (children ?hs i) \<subseteq> vs"
  proof (rule fold_reports)
    fix c ss ss' assume c: "c \<in> set (children ?hs i)"
      "collect_symbols_recursive fuel cx (Some (dotted names)) (Some (qualify (sw_file_path cx) names)) c ss = Some ss'"
    have "walked_under cx c (Some (dotted names)) (Some (qualify (sw_file_path cx) names))"
      using names(1) c(1) by (auto simp: walked_under_def)
    with c(2) show "\<exists>vs. reports cx ss ss' vs \<and> c \<in> vs" by (rule Suc.IH)
  qed
  then obtain vs new where r: "ss' = ss @ [?s] @ new" "\<forall>s\<in>set new. \<exists>i\<in>vs. symbol_for cx i s"
      "\<forall>i\<in>vs. \<exists>s\<in>set new. symbol_for cx i s" "\<forall>i\<in>vs. set (children ?hs i) \<subseteq> vs" "set (children ?hs i) \<subseteq> vs"
    unfolding reports_def by auto
  then have "reports cx ss ss' (insert i vs)" unfolding reports_def
    by (intro exI [of _ "?s # new"]) (use \<open>symbol_for cx i ?s\<close> in fastforce)
  then show ?case by blast
qed simp

text \<open>In a forest the walk ends: the symbols numbered from the current one on bound its depth.\<close>

lemma symbol_walk_total:
  assumes "symbol_forest (sw_hierarchical cx)"
  shows "i \<in> set (all_symbols (sw_hierarchical cx)) \<Longrightarrow> card {j \<in> set (all_symbols (sw_hierarchical cx)). i \<le> j} \<le> fuel \<Longrightarrow>
    \<exists>ss'. collect_symbols_recursive fuel cx pn pid i ss = Some ss'"
proof (induction fuel arbitrary: pn pid i ss)
  case 0
  then have "{j \<in> set (all_symbols (sw_hierarchical cx)). i \<le> j} = {}" by simp
  with 0 show ?case by blast
next
  case (Suc fuel)
  let ?all = "set (all_symbols (sw_hierarchical cx))" and ?n = "si_name (hs_info (sw_hierarchical cx) i)"
  have "\<exists>ss'. collect_symbols_recursive fuel cx (Some (dotted_under pn ?n)) (Some (qualified_under (sw_file_path cx) pid ?n)) c ss = Some ss'
      \<and> True" if c: "c \<in> set (children (sw_hierarchical cx) i)" for c ss
  proof -
    have "i < c" using forestD(3) [OF assms c] .
    then have "i \<in> {j \<in> ?all. i \<le> j} - {j \<in> ?all. c \<le> j}" "{j \<in> ?all. c \<le> j} \<subseteq> {j \<in> ?all. i \<le> j}"
      using Suc.prems(1) by auto
    then have "{j \<in> ?all. c \<le> j} \<subset> {j \<in> ?all. i \<le> j}" by blast
    then have "card {j \<in> ?all. c \<le> j} < card {j \<in> ?all. i \<le> j}" by (intro psubset_card_mono) auto
    then have "card {j \<in> ?all. c \<le> j} \<le> fuel" using Suc.prems(2) by linarith
    then show ?thesis using Suc.IH [OF children_all [OF c]] by blast
  qed
  then have "\<exists>t. fold_option (collect_symbols_recursive fuel cx (Some (dotted_under pn ?n)) (Some (qualified_under (sw_file_path cx) pid ?n)))
      (children (sw_hierarchical cx) i) (ss @ [symbol_of cx i pn pid]) = Some t \<and> True"
    by (rule fold_option_total [rotated]) simp_all
  then show ?case by (simp add: Let_def)
qed

lemma path_unique:
  assumes "symbol_forest hs"
  shows "symbol_path hs i names \<Longrightarrow> symbol_path hs i names' \<Longrightarrow> names = names'"
proof (induction arbitrary: names' rule: symbol_path.induct)
  case (top i)
  from top.prems top.hyps(2) show ?case by cases (auto simp: parentless_def)
next
  case (member p names i)
  from member.prems show ?case
  proof cases
    case (member q names'')
    then show ?thesis using forestD(2) [OF assms \<open>i \<in> set (children hs p)\<close>] member.IH \<open>symbol_path hs q names''\<close> by metis
  qed (use member.hyps(2) in \<open>auto simp: parentless_def\<close>)
qed

lemma path_walked:
  assumes "set (hs_iter hs) \<subseteq> vs" "\<forall>v\<in>vs. set (children hs v) \<subseteq> vs"
  shows "symbol_path hs i names \<Longrightarrow> i \<in> vs"
  by (induction rule: symbol_path.induct) (use assms in blast)+

section \<open>Properties\<close>

lemma walk_scoped:
  "collect_entities_recursive fuel cx pq pd i st = Some st' \<Longrightarrow> (\<forall>p. pq = Some p \<longrightarrow> prefix (ew_file_path cx @ ''::'') p) \<Longrightarrow>
   \<forall>e\<in>set (fst st). P e \<Longrightarrow> (\<And>e. e_file e = ew_file_path cx \<Longrightarrow> prefix (ew_file_path cx @ ''::'') (e_qualified_path e) \<Longrightarrow> P e) \<Longrightarrow>
   \<forall>e\<in>set (fst st'). P e"
proof (induction fuel arbitrary: pq pd i st st')
  case (Suc fuel)
  define e where "e = entity_of cx i pq pd"
  have e: "e_file e = ew_file_path cx" "prefix (ew_file_path cx @ ''::'') (e_qualified_path e)"
    using Suc.prems(2) by (auto simp: e_def entity_of_def Let_def qualified_under_def prefix_def split: option.splits)
  have "fold_option (\<lambda>c st. if c \<in> snd st then Some st
          else collect_entities_recursive fuel cx (Some (e_qualified_path e)) (Some (e_qualified_name e)) c st)
        (children (ew_hierarchical cx) i) (fst st @ [e], insert i (snd st)) = Some st'"
    using Suc.prems(1) unfolding e_def by (simp add: Let_def)
  then show ?case
  proof (rule fold_option_preserves)
    show "\<forall>e\<in>set (fst (fst st @ [e], insert i (snd st))). P e" using Suc.prems(3,4) e by simp
    fix c and s t :: walk_state
    assume "\<forall>e\<in>set (fst s). P e" "(if c \<in> snd s then Some s
        else collect_entities_recursive fuel cx (Some (e_qualified_path e)) (Some (e_qualified_name e)) c s) = Some t"
    then show "\<forall>e\<in>set (fst t). P e"
      using Suc.IH [of "Some (e_qualified_path e)" _ c s t] Suc.prems(4) e(2) by (auto split: if_splits)
  qed
qed simp

lemma extract_file_scoped:
  assumes "extract_file xxh3 ck policy file es = Some es'" "\<forall>e\<in>set es. P e"
    and "\<And>e. e_file e = file \<Longrightarrow> prefix (file @ ''::'') (e_qualified_path e) \<Longrightarrow> P e"
  shows "\<forall>e\<in>set es'. P e"
proof -
  let ?cx = "file_walk xxh3 ck policy file"
  obtain st where st: "fold_option (walk_root ?cx) (hs_iter (ck_symbols ck file)) (es, {}) = Some st" "es' = fst st"
    using assms(1) by (auto simp: extract_file_def)
  from st(1) have "\<forall>e\<in>set (fst st). P e"
  proof (rule fold_option_preserves)
    fix i s t assume "\<forall>e\<in>set (fst s). P e" "walk_root ?cx i s = Some t"
    then show "\<forall>e\<in>set (fst t). P e" using assms(3) walk_scoped [of _ ?cx None None i s t P]
      by (auto simp: walk_root_def file_walk_def split: if_splits)
  qed (use assms(2) in simp)
  with st(2) show ?thesis by simp
qed

lemma extract_scoped:
  assumes "extract_entities_for xxh3 py_ext ck policy files = Some es"
  shows "\<forall>e\<in>set es. e_file e \<in> files \<and> e_file e \<in> set (ck_files ck) \<and> python_source py_ext (e_file e)
    \<and> prefix (e_file e @ ''::'') (e_qualified_path e)" (is "\<forall>e\<in>set es. ?P e")
  using assms unfolding extract_entities_for_def
proof (rule fold_option_preserves)
  fix f s t assume f: "f \<in> set (sort (filter (\<lambda>f. f \<in> files \<and> python_source py_ext f) (ck_files ck)))"
    and s: "\<forall>e\<in>set s. ?P e" and t: "extract_file xxh3 ck policy f s = Some t"
  show "\<forall>e\<in>set t. ?P e" by (rule extract_file_scoped [OF t s]) (use f in simp)
qed simp

lemma extracted_anchor_file:
  assumes "extract_entities_for xxh3 py_ext ck policy files = Some es" "\<forall>f\<in>files. CHR '':'' \<notin> set f" "e \<in> set es"
  shows "\<exists>f\<in>files. anchor_file (e_qualified_path e) = Some f"
proof -
  have e: "e_file e \<in> files" "prefix (e_file e @ ''::'') (e_qualified_path e)" using extract_scoped [OF assms(1)] assms(3) by auto
  then obtain rest where "e_qualified_path e = e_file e @ ''::'' @ rest" by (auto simp: prefix_def)
  then have "anchor_file (e_qualified_path e) = Some (e_file e)"
    using split_once_append [of "''::''" "e_file e" rest] assms(2) e(1) by (simp add: anchor_file_def)
  with e(1) show ?thesis by blast
qed

text \<open>
  C21.  Extraction returns.  Whatever the symbol hierarchies are, even cyclic ones, the walk
  over the given files ends within as many nested calls as a file has symbols, and every
  entity it collects belongs to a Python file of the project among the given ones, with a
  qualified path under that file.  The type checker's ranges are taken to lie between
  characters, so that no slice of the source aborts.
\<close>

theorem extraction_total:
  "\<exists>es. extract_entities_for xxh3 py_ext ck policy files = Some es
     \<and> (\<forall>e\<in>set es. e_file e \<in> files \<and> e_file e \<in> set (ck_files ck) \<and> python_source py_ext (e_file e)
          \<and> prefix (e_file e @ ''::'') (e_qualified_path e))"
  using extract_total [of xxh3 py_ext ck policy files] extract_scoped [of xxh3 py_ext ck policy files] by auto

text \<open>A file with one class and one method in it, and an engine that numbers them 0 and 1.\<close>

definition sample_hierarchy :: hierarchical where
  "sample_hierarchy = \<lparr>hs_iter = [0], hs_children = [(0, [1])],
     hs_info = \<lambda>i. if i = 0 then \<lparr>si_name = ''C'', si_kind = IClass, si_deprecated = False, si_name_range = (6, 7), si_full_range = (0, 30)\<rparr>
       else \<lparr>si_name = ''f'', si_kind = IMethod, si_deprecated = False, si_name_range = (16, 17), si_full_range = (12, 30)\<rparr>\<rparr>"

definition sample_checker :: checker where
  "sample_checker = \<lparr>ck_files = [''/w/a.py'', ''/w/b.txt''], ck_canonicalize = Inr, ck_to_file = Inr, ck_source = \<lambda>_. [],
     ck_line_index = \<lambda>_. sample_index, ck_symbols = \<lambda>_. sample_hierarchy, ck_parsed = \<lambda>_. []\<rparr>"

lemma sample_forest: "symbol_forest sample_hierarchy"
  by (auto simp: symbol_forest_def sample_hierarchy_def children_def split: if_splits)

lemmas sample_simps = sample_checker_def sample_hierarchy_def extract_entities_for_def extract_file_def file_walk_def walk_root_def
  all_symbols_def children_def entity_of_def qualified_under_def dotted_under_def python_source_def extension_def file_name_def components_def

theorem extraction_total_witness:
  "\<exists>es. extract_entities_for (\<lambda>_. 0) (\<lambda>x. x = ''py'') sample_checker hash_policy_default {''/w/a.py'', ''/w/b.txt''} = Some es
     \<and> map e_qualified_path es = [''/w/a.py::C'', ''/w/a.py::C::f''] \<and> (\<forall>e\<in>set es. e_file e \<in> {''/w/a.py'', ''/w/b.txt''})"
  using extraction_total [of "\<lambda>_. 0" "\<lambda>x. x = ''py''" sample_checker hash_policy_default "{''/w/a.py'', ''/w/b.txt''}"]
  by (auto simp: sample_simps Let_def)

text \<open>
  The path built by climbing from a symbol to its containers is the path under which the walk
  down collected that symbol's entity.
\<close>

lemma identity_paths_agree:
  assumes "symbol_forest (ck_symbols ck path)" "extract_file xxh3 ck policy path es = Some es'"
    and "i \<in> set (hs_iter (ck_symbols ck path))"
  shows "\<exists>e\<in>set es'. build_qualified_path (ck_symbols ck path) i path = Some (e_qualified_path e)
     \<and> entity_for (file_walk xxh3 ck policy path) i e"
proof -
  obtain vs new where es': "es' = es @ new" and l: "list_all2 (entity_for (file_walk xxh3 ck policy path)) vs new"
    and sub: "set (hs_iter (ck_symbols ck path)) \<subseteq> set vs" by (rule extract_file_entities [OF assms(1,2)])
  then obtain e where e: "e \<in> set new" "entity_for (file_walk xxh3 ck policy path) i e"
    using assms(3) by (metis in_set_conv_nth list_all2_conv_all_nth subsetD)
  then obtain names where "symbol_path (ck_symbols ck path) i names" "e_qualified_path e = qualify path names"
    by (auto simp: entity_for_def file_walk_def)
  then have "build_qualified_path (ck_symbols ck path) i path = Some (e_qualified_path e)"
    using build_path [OF assms(1) _ assms(3)] by simp
  with e es' show ?thesis by auto
qed

text \<open>
  The symbol walk reports every iterated symbol as an outermost one, so it relies on an
  iterator that yields no members.  With such an iterator the way up ends where it starts: a
  position query only ever names outermost symbols.
\<close>

lemma outermost_paths:
  assumes "\<forall>i\<in>set (hs_iter hs). parentless hs i" "i \<in> set (hs_iter hs)"
  shows "build_qualified_path hs i f = Some (f @ ''::'' @ si_name (hs_info hs i))"
proof -
  obtain n where "length (hs_iter hs) = Suc n" using assms(2) by (cases "hs_iter hs") auto
  then show ?thesis using assms find_parent_None [of hs i] by (simp add: build_qualified_path_def join_with_def)
qed

text \<open>Two descriptions of one symbol agree: name, range, and the identity registered at the entity's path.\<close>

definition describes :: "symbol_walk \<Rightarrow> symbol_dto \<Rightarrow> entity \<Rightarrow> bool" where
  "describes cx s e \<longleftrightarrow>
     sy_name s = e_name e \<and> sy_range s = range_to_dto_with_index (sw_line_index cx) (e_full_range e)
     \<and> sy_durable_id s = map_option (\<lambda>a. id_str (a_id a)) (anchor_at (sw_registry cx) (e_qualified_path e))"

lemma symbol_describes:
  assumes "symbol_forest (sw_hierarchical cx)" "symbol_for cx i s" "entity_for wx i e"
    and "ew_hierarchical wx = sw_hierarchical cx" "ew_file_path wx = sw_file_path cx"
  shows "describes cx s e"
proof -
  let ?hs = "sw_hierarchical cx" and ?n = "si_name (hs_info (sw_hierarchical cx) i)"
  obtain names where names: "symbol_path ?hs i names"
      "s = symbol_of cx i (if length names = 1 then None else Some (dotted (butlast names)))
         (if length names = 1 then None else Some (qualify (sw_file_path cx) (butlast names)))"
    using assms(2) by (auto simp: symbol_for_def)
  obtain names' where "symbol_path ?hs i names'" and e: "e_qualified_path e = qualify (sw_file_path cx) names'" "e_name e = ?n"
      "e_full_range e = si_full_range (hs_info ?hs i)" using assms(3-5) by (auto simp: entity_for_def)
  then have same: "names' = names" using path_unique [OF assms(1) names(1)] by simp
  obtain init where n: "names = init @ [?n]" using names(1) by (cases rule: symbol_path.cases) auto
  have "qualified_under (sw_file_path cx) (if length names = 1 then None else Some (qualify (sw_file_path cx) (butlast names))) ?n
      = qualify (sw_file_path cx) names"
    unfolding n by (cases init) (simp_all add: qualified_under_def qualify_def)
  then show ?thesis using e same by (simp add: describes_def names(2) symbol_of_def Let_def convert_symbol_def)
qed

text \<open>
  C20.  Clients see the registered identities.  In a file whose symbols form a forest and whose
  iterator yields the outermost ones, the symbol walk ends, and its answer and the extracted
  entities describe the same symbols: each reported symbol carries the identity registered at
  the path of its entity, and no entity is left unreported.
\<close>

theorem document_symbols_agree:
  assumes "symbol_forest (ck_symbols ck path)" "\<forall>i\<in>set (hs_iter (ck_symbols ck path)). parentless (ck_symbols ck path) i"
    and "sw_hierarchical cx = ck_symbols ck path" "sw_file_path cx = path"
    and "extract_file xxh3 ck policy path [] = Some es"
  shows "\<exists>ss. document_symbols cx = Some ss
     \<and> (\<forall>s\<in>set ss. \<exists>e\<in>set es. describes cx s e) \<and> (\<forall>e\<in>set es. \<exists>s\<in>set ss. describes cx s e)"
proof -
  let ?hs = "ck_symbols ck path" and ?wx = "file_walk xxh3 ck policy path"
  have wx: "ew_hierarchical ?wx = sw_hierarchical cx" "ew_file_path ?wx = sw_file_path cx"
    by (simp_all add: file_walk_def assms(3,4))
  have "\<exists>ss. document_symbols cx = Some ss \<and> True" unfolding document_symbols_def
  proof (rule fold_option_total)
    fix i ss assume "i \<in> set (hs_iter (sw_hierarchical cx))"
    moreover have "card {j \<in> set (all_symbols ?hs). i \<le> j} \<le> length (all_symbols ?hs)"
      by (rule le_trans [OF card_mono card_length]) auto
    ultimately show "\<exists>t. collect_symbols_recursive (length (all_symbols (sw_hierarchical cx))) cx None None i ss = Some t \<and> True"
      using symbol_walk_total [of cx i] assms(1,3) by (simp add: all_symbols_def)
  qed simp
  then obtain ss where ss: "document_symbols cx = Some ss" by blast
  then have "\<exists>vs. reports cx [] ss vs \<and> set (hs_iter ?hs) \<subseteq> vs" unfolding document_symbols_def assms(3)
    by (rule fold_reports) (rule symbols_reported, auto simp: walked_under_def assms(2,3))
  then obtain vs where vs: "\<forall>s\<in>set ss. \<exists>i\<in>vs. symbol_for cx i s" "\<forall>i\<in>vs. \<exists>s\<in>set ss. symbol_for cx i s"
      "\<forall>i\<in>vs. set (children ?hs i) \<subseteq> vs" "set (hs_iter ?hs) \<subseteq> vs" by (auto simp: reports_def assms(3))
  obtain ws new where ws: "es = [] @ new" "list_all2 (entity_for ?wx) ws new" "set (hs_iter ?hs) \<subseteq> set ws"
      "\<forall>v\<in>set ws. set (children ?hs v) \<subseteq> set ws" by (rule extract_file_entities [OF assms(1,5)])
  have l: "\<forall>i\<in>set ws. \<exists>e\<in>set es. entity_for ?wx i e" "\<forall>e\<in>set es. \<exists>i\<in>set ws. entity_for ?wx i e"
    using ws(1,2) by (auto simp: list_all2_conv_all_nth in_set_conv_nth [of _ ws] in_set_conv_nth [of _ new]) (metis nth_mem)+
  have m: "describes cx s e" if "symbol_for cx i s" "entity_for ?wx i e" for i s e
    by (rule symbol_describes [OF _ that wx]) (simp add: assms(1,3))
  have "\<exists>e\<in>set es. describes cx s e" if s: "s \<in> set ss" for s
  proof -
    obtain i where i: "symbol_for cx i s" using vs(1) s by blast
    then have "i \<in> set ws" using path_walked [OF ws(3,4)] by (auto simp: symbol_for_def assms(3))
    with l(1) m [OF i] show ?thesis by blast
  qed
  moreover have "\<exists>s\<in>set ss. describes cx s e" if e: "e \<in> set es" for e
  proof -
    obtain i where i: "entity_for ?wx i e" using l(2) e by blast
    then have "i \<in> vs" using path_walked [OF vs(4,3)] by (auto simp: entity_for_def wx assms(3))
    with vs(2) m [OF _ i] show ?thesis by blast
  qed
  ultimately show ?thesis using ss by blast
qed

definition sample_walk :: symbol_walk where
  "sample_walk = \<lparr>sw_hierarchical = sample_hierarchy, sw_normal_form = \<lambda>_ _. [], sw_line_index = sample_index,
     sw_file_path = ''/w/a.py'', sw_registry = registry_insert \<lparr>a_id = DurableId ''7'', a_qualified_path = ''/w/a.py::C::f'',
       a_content_hash = ContentHash 0, a_kind = Method, a_first_seen_rev = 1, a_last_seen_rev = 1, a_status = Active\<rparr> registry_default,
     sw_hash_policies = None, sw_default_profile = None, sw_xxh3 = \<lambda>_. 0\<rparr>"

theorem document_symbols_agree_witness:
  "\<exists>ss. document_symbols sample_walk = Some ss \<and> map sy_durable_id ss = [None, Some ''7'']
     \<and> (\<exists>es. extract_file (\<lambda>_. 0) sample_checker hash_policy_default ''/w/a.py'' [] = Some es
          \<and> (\<forall>e\<in>set es. \<exists>s\<in>set ss. describes sample_walk s e))"
proof -
  obtain es where es: "extract_file (\<lambda>_. 0) sample_checker hash_policy_default ''/w/a.py'' [] = Some es"
    using extract_file_total by blast
  have "\<forall>i\<in>set (hs_iter sample_hierarchy). parentless sample_hierarchy i"
    by (simp add: sample_hierarchy_def parentless_def children_def)
  then obtain ss where ss: "document_symbols sample_walk = Some ss" "\<forall>e\<in>set es. \<exists>s\<in>set ss. describes sample_walk s e"
    using document_symbols_agree [OF _ _ _ _ es, of sample_walk] sample_forest by (auto simp: sample_checker_def sample_walk_def)
  then show ?thesis using es
    by (auto simp: sample_walk_def document_symbols_def sample_hierarchy_def all_symbols_def children_def symbol_of_def
        convert_symbol_def Let_def anchor_at_def registry_insert_def registry_default_def registry_get_def qualified_under_def)
qed

end
