(* ===== verification/Occurrences.thy ===== *)
theory Occurrences
  imports Symbols
begin

text \<open>
  The name occurrences of a file (\<open>rust/src/convert/occurrences.rs\<close>): every reference, binding
  and import of a name with the definition it resolves to, collected by a visitor over the
  syntax tree.  They are what the code layer draws its reference and import edges from.

  Name resolution is the semantic model's, a parameter: the record \<open>semantic_model\<close> holds, per
  file, its three questions.  A node is known by its range; an answer lists the focus ranges of
  the definitions found.
\<close>

section \<open>The visitor\<close>

type_synonym resolved = "(path \<times> text_range) list"

record semantic_model =
  sm_definitions_for_imported_symbol :: "text_range \<Rightarrow> str \<Rightarrow> resolved"
  sm_definitions_for_name :: "str \<Rightarrow> text_range \<Rightarrow> resolved"
  sm_definitions_for_attribute :: "text_range \<Rightarrow> resolved"

record occurrence_visitor =
  ov_source_of :: "path \<Rightarrow> str"
  ov_file :: path
  ov_model :: semantic_model
  ov_line_index :: line_index

definition target_from_defs :: "(path \<Rightarrow> str) \<Rightarrow> resolved \<Rightarrow> str option \<times> str option" where
  "target_from_defs source_of defs =
     (case defs of
        [] \<Rightarrow> (None, None)
      | (target_file, r) # _ \<Rightarrow> (Some target_file, byte_get (source_of target_file) (fst r) (snd r)))"

definition push_occurrence ::
  "occurrence_visitor \<Rightarrow> text_range \<Rightarrow> str \<Rightarrow> reference_role \<Rightarrow> str option \<times> str option \<Rightarrow> occurrence list \<Rightarrow> occurrence list" where
  "push_occurrence v r name role target occurrences =
     occurrences @ [\<lparr>oc_range = range_to_dto_with_index (ov_line_index v) r, oc_name = Some name,
       oc_target_file = fst target, oc_target_name = snd target, oc_target_qualified_name = None, oc_role = role\<rparr>]"

definition add_definition :: "occurrence_visitor \<Rightarrow> text_range \<Rightarrow> str \<Rightarrow> occurrence list \<Rightarrow> occurrence list" where
  "add_definition v r name = push_occurrence v r name RoleDefinition (Some (ov_file v), Some name)"

definition binding_range :: "alias_node \<Rightarrow> text_range" where
  "binding_range a = (case al_asname_range a of Some r \<Rightarrow> r | None \<Rightarrow> al_name_range a)"

fun visit_stmt_data :: "occurrence_visitor \<Rightarrow> stmt_data \<Rightarrow> text_range \<Rightarrow> occurrence list \<Rightarrow> occurrence list" where
  "visit_stmt_data v (FunctionDef name name_range _) r occurrences = add_definition v name_range name occurrences"
| "visit_stmt_data v (ClassDef name name_range) r occurrences = add_definition v name_range name occurrences"
| "visit_stmt_data v (ImportFrom names) r occurrences =
     fold (\<lambda>a. push_occurrence v (binding_range a) (al_name a) RoleImport
       (target_from_defs (ov_source_of v) (sm_definitions_for_imported_symbol (ov_model v) r (al_name a)))) names occurrences"
| "visit_stmt_data v (ImportStmt names) r occurrences =
     fold (\<lambda>a. push_occurrence v (binding_range a) (al_name a) RoleImport (None, None)) names occurrences"
| "visit_stmt_data v _ r occurrences = occurrences"

fun visit_expr_data :: "occurrence_visitor \<Rightarrow> expr_data \<Rightarrow> text_range \<Rightarrow> occurrence list \<Rightarrow> occurrence list" where
  "visit_expr_data v (NameExpr i ctx) r occurrences =
     (case ctx of
        Load \<Rightarrow> push_occurrence v r i RoleRead
          (target_from_defs (ov_source_of v) (sm_definitions_for_name (ov_model v) i r)) occurrences
      | Store \<Rightarrow> add_definition v r i occurrences
      | Del \<Rightarrow> add_definition v r i occurrences
      | Invalid \<Rightarrow> occurrences)"
| "visit_expr_data v (Attribute attr attr_range ctx) r occurrences =
     push_occurrence v attr_range attr (case ctx of Store \<Rightarrow> RoleWrite | Del \<Rightarrow> RoleWrite | _ \<Rightarrow> RoleRead)
       (target_from_defs (ov_source_of v) (sm_definitions_for_attribute (ov_model v) r)) occurrences"
| "visit_expr_data v _ r occurrences = occurrences"

fun visit_node :: "occurrence_visitor \<Rightarrow> ast \<Rightarrow> occurrence list \<Rightarrow> occurrence list"
  and visit_nodes :: "occurrence_visitor \<Rightarrow> ast list \<Rightarrow> occurrence list \<Rightarrow> occurrence list" where
  "visit_node v (Stmt d r _ cs) occurrences = visit_nodes v cs (visit_stmt_data v d r occurrences)"
| "visit_node v (Expr d r _ cs) occurrences = visit_nodes v cs (visit_expr_data v d r occurrences)"
| "visit_node v (Body ss) occurrences = visit_nodes v ss occurrences"
| "visit_node v (StringLiteral _ _ cs) occurrences = visit_nodes v cs occurrences"
| "visit_node v (BytesLiteral _ _ cs) occurrences = visit_nodes v cs occurrences"
| "visit_node v (InterpolatedElement _ _ cs) occurrences = visit_nodes v cs occurrences"
| "visit_node v (Identifier _) occurrences = occurrences"
| "visit_node v (Node _ cs) occurrences = visit_nodes v cs occurrences"
| "visit_nodes v [] occurrences = occurrences"
| "visit_nodes v (t # ts) occurrences = visit_nodes v ts (visit_node v t occurrences)"

definition convert_file_occurrences ::
  "checker \<Rightarrow> (path \<Rightarrow> semantic_model) \<Rightarrow> path \<Rightarrow> line_index \<Rightarrow> occurrence list" where
  "convert_file_occurrences ck models file li =
     visit_nodes \<lparr>ov_source_of = ck_source ck, ov_file = file, ov_model = models file, ov_line_index = li\<rparr> (ck_parsed ck file) []"

section \<open>The occurrences of a tree\<close>

text \<open>The nodes of a tree in the order the visitor meets them, and what each contributes.\<close>

fun preorder :: "ast \<Rightarrow> ast list" where
  "preorder (Stmt d r kind cs) = Stmt d r kind cs # concat (map preorder cs)"
| "preorder (Expr d r kind cs) = Expr d r kind cs # concat (map preorder cs)"
| "preorder (Body ss) = Body ss # concat (map preorder ss)"
| "preorder (StringLiteral value kind cs) = StringLiteral value kind cs # concat (map preorder cs)"
| "preorder (BytesLiteral value kind cs) = BytesLiteral value kind cs # concat (map preorder cs)"
| "preorder (InterpolatedElement lit kind cs) = InterpolatedElement lit kind cs # concat (map preorder cs)"
| "preorder (Identifier name) = [Identifier name]"
| "preorder (Node kind cs) = Node kind cs # concat (map preorder cs)"

text \<open>
  A site of a name: the text reported, where it stands, its role, and the definitions the
  semantic model finds for it; none are looked up where the site is the definition.
\<close>

record name_site =
  ns_name :: str
  ns_range :: text_range
  ns_role :: reference_role
  ns_definitions :: "resolved option"

definition site :: "str \<Rightarrow> text_range \<Rightarrow> reference_role \<Rightarrow> resolved option \<Rightarrow> name_site" where
  "site name r role defs = \<lparr>ns_name = name, ns_range = r, ns_role = role, ns_definitions = defs\<rparr>"

text \<open>An imported name is reported by its own text, at its alias if it has one.\<close>

definition alias_site :: "alias_node \<Rightarrow> resolved \<Rightarrow> name_site" where
  "alias_site a defs =
     site (al_name a) (if al_asname_range a = None then al_name_range a else the (al_asname_range a)) RoleImport (Some defs)"

definition sites_of :: "semantic_model \<Rightarrow> ast \<Rightarrow> name_site list" where
  "sites_of m t =
     (case t of
        Stmt (FunctionDef name r _) _ _ _ \<Rightarrow> [site name r RoleDefinition None]
      | Stmt (ClassDef name r) _ _ _ \<Rightarrow> [site name r RoleDefinition None]
      | Stmt (ImportFrom names) r _ _ \<Rightarrow> map (\<lambda>a. alias_site a (sm_definitions_for_imported_symbol m r (al_name a))) names
      | Stmt (ImportStmt names) _ _ _ \<Rightarrow> map (\<lambda>a. alias_site a []) names
      | Expr (NameExpr name Load) r _ _ \<Rightarrow> [site name r RoleRead (Some (sm_definitions_for_name m name r))]
      | Expr (NameExpr name Store) r _ _ \<Rightarrow> [site name r RoleDefinition None]
      | Expr (NameExpr name Del) r _ _ \<Rightarrow> [site name r RoleDefinition None]
      | Expr (Attribute name r Store) whole _ _ \<Rightarrow> [site name r RoleWrite (Some (sm_definitions_for_attribute m whole))]
      | Expr (Attribute name r Del) whole _ _ \<Rightarrow> [site name r RoleWrite (Some (sm_definitions_for_attribute m whole))]
      | Expr (Attribute name r _) whole _ _ \<Rightarrow> [site name r RoleRead (Some (sm_definitions_for_attribute m whole))]
      | _ \<Rightarrow> [])"

text \<open>What the occurrence of a site has to say.\<close>

definition site_reported :: "(path \<Rightarrow> str) \<Rightarrow> path \<Rightarrow> line_index \<Rightarrow> name_site \<Rightarrow> occurrence \<Rightarrow> bool" where
  "site_reported source_of file li x oc \<longleftrightarrow>
     oc_name oc = Some (ns_name x) \<and> oc_range oc = range_to_dto_with_index li (ns_range x) \<and> oc_role oc = ns_role x
     \<and> oc_target_qualified_name oc = None
     \<and> (case ns_definitions x of
          None \<Rightarrow> oc_target_file oc = Some file \<and> oc_target_name oc = Some (ns_name x)
        | Some [] \<Rightarrow> oc_target_file oc = None \<and> oc_target_name oc = None
        | Some ((g, r) # _) \<Rightarrow>
            oc_target_file oc = Some g \<and> (\<forall>part. oc_target_name oc = Some part \<longleftrightarrow> text_at (source_of g) r part))"

text \<open>The occurrence the visitor makes of a site.\<close>

definition occurrence_at :: "occurrence_visitor \<Rightarrow> name_site \<Rightarrow> occurrence" where
  "occurrence_at v x =
     hd (push_occurrence v (ns_range x) (ns_name x) (ns_role x)
       (case ns_definitions x of
          None \<Rightarrow> (Some (ov_file v), Some (ns_name x))
        | Some defs \<Rightarrow> target_from_defs (ov_source_of v) defs) [])"

lemma occurrence_at_reported: "site_reported (ov_source_of v) (ov_file v) (ov_line_index v) x (occurrence_at v x)"
  by (auto simp: site_reported_def occurrence_at_def push_occurrence_def target_from_defs_def byte_get_iff
      split: option.splits list.splits)

lemma fold_push:
  "fold (\<lambda>a. push_occurrence v (rg a) (name a) role (target a)) as occs
     = occs @ map (\<lambda>a. hd (push_occurrence v (rg a) (name a) role (target a) [])) as"
  by (induction as arbitrary: occs) (auto simp: push_occurrence_def)

lemma no_target: "target_from_defs source_of [] = (None, None)"
  by (simp add: target_from_defs_def)

lemma binding_range_alias: "binding_range a = (if al_asname_range a = None then al_name_range a else the (al_asname_range a))"
  by (cases "al_asname_range a") (simp_all add: binding_range_def)

lemmas occurrence_simps = fold_push push_occurrence_def add_definition_def sites_of_def site_def alias_site_def occurrence_at_def
  no_target binding_range_alias

lemma visit_stmt_data_sites:
  "visit_stmt_data v d r occs = occs @ map (occurrence_at v) (sites_of (ov_model v) (Stmt d r kind cs))"
  by (cases d) (simp_all add: occurrence_simps comp_def)

lemma visit_expr_data_sites:
  "visit_expr_data v d r occs = occs @ map (occurrence_at v) (sites_of (ov_model v) (Expr d r kind cs))"
  by (cases d) (simp_all add: occurrence_simps split: expr_context.splits)

lemma visit_sites:
  "visit_node v t occs = occs @ map (occurrence_at v) (concat (map (sites_of (ov_model v)) (preorder t)))"
  "visit_nodes v ts occs = occs @ map (occurrence_at v) (concat (map (sites_of (ov_model v)) (concat (map preorder ts))))"
proof (induction v t occs and v ts occs rule: visit_node_visit_nodes.induct)
  case (1 v d r kind cs occs)
  then show ?case by (simp add: visit_stmt_data_sites [where kind = kind and cs = cs])
next
  case (2 v d r kind cs occs)
  then show ?case by (simp add: visit_expr_data_sites [where kind = kind and cs = cs])
qed (simp_all add: sites_of_def)

lemma occurrences_sites:
  "list_all2 (site_reported (ck_source ck) file li)
     (concat (map (sites_of (models file)) (concat (map preorder (ck_parsed ck file)))))
     (convert_file_occurrences ck models file li)"
proof -
  define v where "v = \<lparr>ov_source_of = ck_source ck, ov_file = file, ov_model = models file, ov_line_index = li\<rparr>"
  have "site_reported (ck_source ck) file li x (occurrence_at v x)" for x
    using occurrence_at_reported [of v x] by (simp add: v_def)
  moreover have "convert_file_occurrences ck models file li
      = map (occurrence_at v) (concat (map (sites_of (models file)) (concat (map preorder (ck_parsed ck file)))))"
    by (simp add: convert_file_occurrences_def visit_sites v_def)
  ultimately show ?thesis by (simp add: list.rel_map list.rel_refl)
qed

section \<open>Properties\<close>

text \<open>
  C18.  The occurrences of a file are its name sites, each exactly once, in the order of the walk:
  a node before its parts, so that an attribute comes before the expression it is taken of and
  the name of a function before its decorators.  The sites are the names of functions and
  classes, imported names, names that are read, assigned or deleted, and attributes.  Each is
  reported with its text, role and range; an imported name with its own text, at the alias if it
  has one.  A defining site targets itself in this file.  A name or attribute that is read, an
  attribute that is written and a name imported from a module target the file of the first
  definition the semantic model finds, under the text at that definition's range (no name when
  the range does not lie between characters), or nothing when none is found; a plain module
  import targets nothing.
\<close>

theorem occurrences_exact:
  "list_all2 (site_reported (ck_source ck) file li)
     (concat (map (sites_of (models file)) (concat (map preorder (ck_parsed ck file)))))
     (convert_file_occurrences ck models file li)"
  by (rule occurrences_sites)

text \<open>\<open>x = y\<close>, where \<open>y\<close> is defined in another file.\<close>

definition sample_assignment :: ast where
  "sample_assignment = Stmt OtherStmt (0, 5) ''StmtAssign''
     [Expr (NameExpr ''x'' Store) (0, 1) ''ExprName'' [], Expr (NameExpr ''y'' Load) (4, 5) ''ExprName'' []]"

definition sample_model :: semantic_model where
  "sample_model = \<lparr>sm_definitions_for_imported_symbol = \<lambda>_ _. [], sm_definitions_for_name = \<lambda>_ _. [(''/w/b.py'', (0, 1))],
     sm_definitions_for_attribute = \<lambda>_. []\<rparr>"

theorem occurrences_exact_witness:
  "map (\<lambda>oc. (oc_name oc, oc_target_file oc, oc_target_name oc, oc_role oc))
     (convert_file_occurrences (sample_checker\<lparr>ck_parsed := \<lambda>_. [sample_assignment], ck_source := \<lambda>_. ''y = 1''\<rparr>) (\<lambda>_. sample_model)
       ''/w/a.py'' sample_index)
   = [(Some ''x'', Some ''/w/a.py'', Some ''x'', RoleDefinition), (Some ''y'', Some ''/w/b.py'', Some ''y'', RoleRead)]"
proof -
  let ?ck = "sample_checker\<lparr>ck_parsed := \<lambda>_. [sample_assignment], ck_source := \<lambda>_. ''y = 1''\<rparr>"
  have "text_at ''y = 1'' (0, 1) ''y''" by (simp add: byte_get_iff [symmetric] byte_get_def utf8_width_def)
  then have "(\<forall>part. name = Some part \<longleftrightarrow> text_at ''y = 1'' (0, 1) part) \<longrightarrow> name = Some ''y''" for name by blast
  with occurrences_exact [of ?ck "''/w/a.py''" sample_index "\<lambda>_. sample_model"] show ?thesis
    by (auto simp: sample_assignment_def sample_model_def sites_of_def site_def list_all2_Cons1 site_reported_def)
qed

end
