(* ===== verification/Conversions.thy ===== *)
theory Conversions
  imports Occurrences
begin

text \<open>
  The conversions from the type checker's answers to transfer objects
  (\<open>rust/src/convert/\<close>: \<open>diagnostics.rs\<close>, \<open>completion.rs\<close>, \<open>signature.rs\<close>, \<open>hover.rs\<close>, \<open>folding.rs\<close>,
  \<open>hints.rs\<close>, \<open>tokens.rs\<close>) and the transfer objects themselves (\<open>rust/src/dto/\<close>).

  The records named after the checker's types hold the fields the conversions read.  What a
  conversion asks the checker to display or render is held as the text it gets, as a function
  of the markup kind where one is passed.
\<close>

section \<open>Diagnostics\<close>

datatype severity = SevFatal | SevError | SevWarning | SevInfo

datatype severity_dto = FatalDto | ErrorDto | WarningDto | InformationDto | HintDto

datatype diagnostic_id = LintId str | OtherId

datatype unified_file = TyFile path | RuffFile

record span =
  sp_file :: unified_file
  sp_range :: "text_range option"

record diagnostic =
  dg_severity :: severity
  dg_id :: diagnostic_id
  dg_primary_message :: str
  dg_sub_messages :: "str list"
  dg_primary_annotation :: "span option"

record diagnostic_dto =
  dd_file :: "path option"
  dd_range :: "range_dto option"
  dd_severity :: severity_dto
  dd_code :: "str option"
  dd_message :: str
  dd_details :: "str list"

fun severity_to_dto :: "severity \<Rightarrow> severity_dto" where
  "severity_to_dto SevFatal = FatalDto"
| "severity_to_dto SevError = ErrorDto"
| "severity_to_dto SevWarning = WarningDto"
| "severity_to_dto SevInfo = InformationDto"

fun diagnostic_id_to_code :: "diagnostic_id \<Rightarrow> str option" where
  "diagnostic_id_to_code (LintId name) = Some name"
| "diagnostic_id_to_code OtherId = None"

text \<open>The line index of a file's current source.\<close>

definition file_index :: "checker \<Rightarrow> path \<Rightarrow> line_index" where
  "file_index ck f = ck_line_index ck (ck_source ck f)"

definition extract_file_and_range :: "checker \<Rightarrow> diagnostic \<Rightarrow> path option \<times> range_dto option" where
  "extract_file_and_range ck d =
     (case dg_primary_annotation d of
        None \<Rightarrow> (None, None)
      | Some s \<Rightarrow>
          (case sp_file s of
             RuffFile \<Rightarrow> (None, None)
           | TyFile f \<Rightarrow> (Some f, map_option (range_to_dto_with_index (file_index ck f)) (sp_range s))))"

definition convert_diagnostic :: "checker \<Rightarrow> diagnostic \<Rightarrow> diagnostic_dto" where
  "convert_diagnostic ck d =
     (case extract_file_and_range ck d of (f, r) \<Rightarrow>
        \<lparr>dd_file = f, dd_range = r, dd_severity = severity_to_dto (dg_severity d), dd_code = diagnostic_id_to_code (dg_id d),
         dd_message = dg_primary_message d, dd_details = dg_sub_messages d\<rparr>)"

definition convert_diagnostics :: "checker \<Rightarrow> diagnostic list \<Rightarrow> diagnostic_dto list" where
  "convert_diagnostics ck ds = map (convert_diagnostic ck) ds"

definition convert_diagnostic_refs :: "checker \<Rightarrow> diagnostic list \<Rightarrow> diagnostic_dto list" where
  "convert_diagnostic_refs ck ds = map (convert_diagnostic ck) ds"

definition diagnostic_matches_file :: "diagnostic \<Rightarrow> path \<Rightarrow> bool" where
  "diagnostic_matches_file d target =
     (case dg_primary_annotation d of
        None \<Rightarrow> False
      | Some s \<Rightarrow> (case sp_file s of RuffFile \<Rightarrow> False | TyFile f \<Rightarrow> f = target))"

record check_result =
  cr_diagnostics :: "diagnostic_dto list"
  cr_files_checked :: "u32 option"
  cr_elapsed_ms :: "nat option"

section \<open>Completions\<close>

datatype completion_kind =
    CkText | CkMethod | CkFunction | CkConstructor | CkField | CkVariable | CkClass
  | CkInterface | CkModule | CkProperty | CkUnit | CkValue | CkEnum | CkKeyword
  | CkSnippet | CkColor | CkFile | CkReference | CkFolder | CkEnumMember | CkConstant
  | CkStruct | CkEvent | CkOperator | CkTypeParameter

datatype completion_kind_dto =
    CdText | CdMethod | CdFunction | CdConstructor | CdField | CdVariable | CdClass
  | CdInterface | CdModule | CdProperty | CdUnit | CdValue | CdEnum | CdKeyword
  | CdSnippet | CdColor | CdFile | CdReference | CdFolder | CdEnumMember | CdConstant
  | CdStruct | CdEvent | CdOperator | CdTypeParameter

record completion =
  cp_name :: str
  cp_qualified :: "str option"
  cp_insert :: "str option"
  cp_ty :: "str option"
  cp_kind :: "completion_kind option"
  cp_module_name :: "str option"

record completion_dto =
  cmp_name :: str
  cmp_qualified_name :: "str option"
  cmp_insert_text :: "str option"
  cmp_type :: "str option"
  cmp_kind :: "completion_kind_dto option"
  cmp_module_name :: "str option"

fun convert_completion_kind :: "completion_kind \<Rightarrow> completion_kind_dto" where
  "convert_completion_kind CkText = CdText"
| "convert_completion_kind CkMethod = CdMethod"
| "convert_completion_kind CkFunction = CdFunction"
| "convert_completion_kind CkConstructor = CdConstructor"
| "convert_completion_kind CkField = CdField"
| "convert_completion_kind CkVariable = CdVariable"
| "convert_completion_kind CkClass = CdClass"
| "convert_completion_kind CkInterface = CdInterface"
| "convert_completion_kind CkModule = CdModule"
| "convert_completion_kind CkProperty = CdProperty"
| "convert_completion_kind CkUnit = CdUnit"
| "convert_completion_kind CkValue = CdValue"
| "convert_completion_kind CkEnum = CdEnum"
| "convert_completion_kind CkKeyword = CdKeyword"
| "convert_completion_kind CkSnippet = CdSnippet"
| "convert_completion_kind CkColor = CdColor"
| "convert_completion_kind CkFile = CdFile"
| "convert_completion_kind CkReference = CdReference"
| "convert_completion_kind CkFolder = CdFolder"
| "convert_completion_kind CkEnumMember = CdEnumMember"
| "convert_completion_kind CkConstant = CdConstant"
| "convert_completion_kind CkStruct = CdStruct"
| "convert_completion_kind CkEvent = CdEvent"
| "convert_completion_kind CkOperator = CdOperator"
| "convert_completion_kind CkTypeParameter = CdTypeParameter"

definition convert_completion :: "completion \<Rightarrow> completion_dto" where
  "convert_completion c =
     \<lparr>cmp_name = cp_name c, cmp_qualified_name = cp_qualified c, cmp_insert_text = cp_insert c, cmp_type = cp_ty c,
      cmp_kind = map_option convert_completion_kind (cp_kind c), cmp_module_name = cp_module_name c\<rparr>"

definition convert_completions :: "completion list \<Rightarrow> completion_dto list" where
  "convert_completions cs = map convert_completion cs"

section \<open>Signature help and hover\<close>

datatype markup_kind = PlainText | Markdown

record parameter_details =
  pd_label :: str
  pd_documentation :: "str option"

record signature_details =
  sd_label :: str
  sd_documentation :: "(markup_kind \<Rightarrow> str) option"
  sd_parameters :: "parameter_details list"
  sd_active_parameter :: "nat option"

record signature_help_info =
  sh_signatures :: "signature_details list"
  sh_active_signature :: "nat option"

record parameter_dto =
  pm_label :: str
  pm_documentation :: "str option"

record signature_dto =
  sn_label :: str
  sn_documentation :: "str option"
  sn_parameters :: "parameter_dto list"
  sn_active_parameter :: "u32 option"

record signature_help_dto =
  shd_signatures :: "signature_dto list"
  shd_active_signature :: "u32 option"

definition convert_signature_details :: "signature_details \<Rightarrow> signature_dto" where
  "convert_signature_details sig =
     \<lparr>sn_label = sd_label sig, sn_documentation = map_option (\<lambda>doc. doc Markdown) (sd_documentation sig),
      sn_parameters = map (\<lambda>p. \<lparr>pm_label = pd_label p, pm_documentation = pd_documentation p\<rparr>) (sd_parameters sig),
      sn_active_parameter = map_option of_nat (sd_active_parameter sig)\<rparr>"

definition convert_signature_help :: "signature_help_info \<Rightarrow> signature_help_dto" where
  "convert_signature_help info =
     \<lparr>shd_signatures = map convert_signature_details (sh_signatures info),
      shd_active_signature = map_option of_nat (sh_active_signature info)\<rparr>"

datatype hover_content_kind = HoverType | HoverSignature | HoverDocstring | HoverTypedDictKey | HoverMarkdown | HoverPlainText

record hover_dto =
  hv_path :: path
  hv_range :: range_dto
  hv_contents :: "(hover_content_kind \<times> str) list"

definition convert_hover_markdown_with_index :: "line_index \<Rightarrow> path \<Rightarrow> text_range \<Rightarrow> str \<Rightarrow> hover_dto" where
  "convert_hover_markdown_with_index li p r markdown =
     \<lparr>hv_path = p, hv_range = range_to_dto_with_index li r, hv_contents = [(HoverMarkdown, markdown)]\<rparr>"

section \<open>Folding ranges and hints\<close>

datatype folding_range_kind = FoldComment | FoldImports | FoldRegion

datatype folding_range_kind_dto = FoldCommentDto | FoldImportsDto | FoldRegionDto

record folding_range_dto =
  fr_range :: range_dto
  fr_kind :: "folding_range_kind_dto option"

definition convert_folding_range :: "line_index \<Rightarrow> text_range \<times> folding_range_kind option \<Rightarrow> folding_range_dto" where
  "convert_folding_range li r =
     \<lparr>fr_range = range_to_dto_with_index li (fst r),
      fr_kind = map_option (\<lambda>k. case k of FoldComment \<Rightarrow> FoldCommentDto | FoldImports \<Rightarrow> FoldImportsDto | FoldRegion \<Rightarrow> FoldRegionDto)
        (snd r)\<rparr>"

datatype hint_kind = UnusedBinding str | UnreachableCode str

datatype hint_kind_dto = UnusedHint | UnreachableHint

record hint =
  hn_message :: str
  hn_kind :: hint_kind
  hn_range :: text_range

record hint_dto =
  hnd_message :: str
  hnd_kind :: hint_kind_dto
  hnd_range :: "range_dto option"

definition convert_hint :: "line_index \<Rightarrow> hint \<Rightarrow> hint_dto" where
  "convert_hint li h =
     \<lparr>hnd_message = hn_message h, hnd_kind = (case hn_kind h of UnusedBinding _ \<Rightarrow> UnusedHint | UnreachableCode _ \<Rightarrow> UnreachableHint),
      hnd_range = Some (range_to_dto_with_index li (hn_range h))\<rparr>"

datatype inlay_hint_kind = InlayType | InlayCallArgumentName

datatype inlay_hint_kind_dto = InlayTypeDto | InlayCallArgumentNameDto

record inlay_hint =
  ih_position :: text_size
  ih_label_parts :: "str list"
  ih_kind :: inlay_hint_kind

record inlay_hint_dto =
  ihd_position :: position_dto
  ihd_label :: str
  ihd_kind :: inlay_hint_kind_dto

definition convert_inlay_hint :: "line_index \<Rightarrow> inlay_hint \<Rightarrow> inlay_hint_dto" where
  "convert_inlay_hint li h =
     \<lparr>ihd_position = location_to_dto (li_source_location li (ih_position h)), ihd_label = concat (ih_label_parts h),
      ihd_kind = (case ih_kind h of InlayType \<Rightarrow> InlayTypeDto | InlayCallArgumentName \<Rightarrow> InlayCallArgumentNameDto)\<rparr>"

section \<open>Semantic tokens\<close>

datatype semantic_token_type =
    TtNamespace | TtClass | TtParameter | TtSelfParameter | TtClsParameter | TtVariable | TtProperty
  | TtFunction | TtMethod | TtKeyword | TtString | TtNumber | TtDecorator | TtBuiltinConstant
  | TtTypeParameter

datatype semantic_token_type_dto =
    TdNamespace | TdClass | TdParameter | TdSelfParameter | TdClsParameter | TdVariable | TdProperty
  | TdFunction | TdMethod | TdKeyword | TdString | TdNumber | TdDecorator | TdBuiltinConstant
  | TdTypeParameter

datatype semantic_token_modifier = ModDefinition | ModReadonly | ModAsync | ModDocumentation

datatype semantic_token_modifier_dto = DefinitionDto | ReadonlyDto | AsyncDto | DocumentationDto

text \<open>The modifiers of a token are bit flags: a set.\<close>

record semantic_token =
  stk_range :: text_range
  stk_type :: semantic_token_type
  stk_modifiers :: "semantic_token_modifier set"

record semantic_token_dto =
  std_range :: range_dto
  std_type :: semantic_token_type_dto
  std_modifiers :: "semantic_token_modifier_dto list"

fun token_type_to_dto :: "semantic_token_type \<Rightarrow> semantic_token_type_dto" where
  "token_type_to_dto TtNamespace = TdNamespace"
| "token_type_to_dto TtClass = TdClass"
| "token_type_to_dto TtParameter = TdParameter"
| "token_type_to_dto TtSelfParameter = TdSelfParameter"
| "token_type_to_dto TtClsParameter = TdClsParameter"
| "token_type_to_dto TtVariable = TdVariable"
| "token_type_to_dto TtProperty = TdProperty"
| "token_type_to_dto TtFunction = TdFunction"
| "token_type_to_dto TtMethod = TdMethod"
| "token_type_to_dto TtKeyword = TdKeyword"
| "token_type_to_dto TtString = TdString"
| "token_type_to_dto TtNumber = TdNumber"
| "token_type_to_dto TtDecorator = TdDecorator"
| "token_type_to_dto TtBuiltinConstant = TdBuiltinConstant"
| "token_type_to_dto TtTypeParameter = TdTypeParameter"

definition modifiers_to_dto :: "semantic_token_modifier set \<Rightarrow> semantic_token_modifier_dto list" where
  "modifiers_to_dto modifiers =
     (if ModDefinition \<in> modifiers then [DefinitionDto] else []) @ (if ModReadonly \<in> modifiers then [ReadonlyDto] else [])
     @ (if ModAsync \<in> modifiers then [AsyncDto] else []) @ (if ModDocumentation \<in> modifiers then [DocumentationDto] else [])"

definition convert_semantic_tokens :: "line_index \<Rightarrow> semantic_token list \<Rightarrow> semantic_token_dto list" where
  "convert_semantic_tokens li tokens =
     map (\<lambda>t. \<lparr>std_range = range_to_dto_with_index li (stk_range t), std_type = token_type_to_dto (stk_type t),
       std_modifiers = modifiers_to_dto (stk_modifiers t)\<rparr>) tokens"

end
