(* ===== verification/Analysis.thy ===== *)
theory Analysis
  imports Conversions
begin

text \<open>
  The read surface: file resolution (\<open>rust/src/files.rs\<close>), the analysis queries that take a
  position (\<open>rust/src/project/analysis.rs\<close>, \<open>rust/src/convert/\<close>), the lookup of the identity at
  a position (\<open>id_for\<close> of \<open>rust/src/project/identity_ops.rs\<close>), and the engine the code-layer
  producer runs on, built from them.  The queries whose answers only \<open>Conversions\<close> converts are
  in \<open>Queries\<close>.

  The record \<open>ide\<close> holds the type checker's answers (\<open>ty_ide\<close>), asked by file and offset.
  Paths are text, so the branch for paths that are not UTF-8 does not arise.
\<close>

section \<open>State and errors\<close>

datatype analysis_error =
    PathError str
  | PositionError position_error
  | RangePanic
  | Diverges

datatype ide_reference_kind = RefRead | RefWrite | RefOther

record ide_target =
  it_file :: path
  it_full_range :: text_range
  it_focus_range :: text_range

record ide_reference =
  ir_file :: path
  ir_range :: text_range
  ir_kind :: ide_reference_kind

record ide_item =
  ii_name :: str
  ii_detail :: "str option"
  ii_file :: path
  ii_full_range :: text_range
  ii_selection_range :: text_range

record ide_fix =
  if_title :: str
  if_edits :: "(text_range \<times> str option) list"

record ide_workspace_symbol =
  iw_file :: path
  iw_symbol :: symbol_info
  iw_imported_from :: "str option"

record ide =
  ide_model :: "path \<Rightarrow> semantic_model"
  ide_navigate :: "path \<Rightarrow> text_size \<Rightarrow> ide_target list option"
  ide_find_references :: "path \<Rightarrow> text_size \<Rightarrow> bool \<Rightarrow> ide_reference list option"
  ide_document_highlights :: "path \<Rightarrow> text_size \<Rightarrow> ide_reference list option"
  ide_prepare_type_hierarchy :: "path \<Rightarrow> text_size \<Rightarrow> ide_item option"
  ide_supertypes :: "path \<Rightarrow> text_size \<Rightarrow> ide_item list"
  ide_subtypes :: "path \<Rightarrow> text_size \<Rightarrow> ide_item list"
  ide_selection_range :: "path \<Rightarrow> text_size \<Rightarrow> text_range list"
  ide_can_rename :: "path \<Rightarrow> text_size \<Rightarrow> text_range option"
  ide_rename :: "path \<Rightarrow> text_size \<Rightarrow> str \<Rightarrow> ide_reference list option"
  ide_workspace_symbols :: "str \<Rightarrow> ide_workspace_symbol list"
  ide_code_actions :: "path \<Rightarrow> text_range \<Rightarrow> str \<Rightarrow> ide_fix list"
  ide_goto_declaration :: "path \<Rightarrow> text_size \<Rightarrow> ide_target list option"
  ide_goto_type_definition :: "path \<Rightarrow> text_size \<Rightarrow> ide_target list option"
  ide_check :: "diagnostic list"
  ide_semantic_tokens :: "path \<Rightarrow> text_range option \<Rightarrow> semantic_token list"
  ide_inlay_hints :: "path \<Rightarrow> text_range \<Rightarrow> inlay_hint list"
  ide_hints :: "path \<Rightarrow> hint list"
  ide_signature_help :: "path \<Rightarrow> text_size \<Rightarrow> signature_help_info option"
  ide_completion :: "bool \<Rightarrow> path \<Rightarrow> text_size \<Rightarrow> completion list"
  ide_folding_ranges :: "path \<Rightarrow> (text_range \<times> folding_range_kind option) list"
  ide_hover :: "path \<Rightarrow> text_size \<Rightarrow> (text_range \<times> (markup_kind \<Rightarrow> str)) option"

record read_state =
  rs_checker :: checker
  rs_ide :: ide
  rs_root :: path
  rs_registry :: identity_registry
  rs_hash_policies :: "(str, hash_policy) hash_map"
  rs_default_hash_profile :: str
  rs_xxh3 :: "str \<Rightarrow> u128"
  rs_py_ext :: "str \<Rightarrow> bool"

section \<open>Files\<close>

definition resolve_file :: "checker \<Rightarrow> path \<Rightarrow> path \<Rightarrow> (str, path) result" where
  "resolve_file ck root p =
     rbind (ck_canonicalize ck (if is_absolute p then p else join_path root p)) (ck_to_file ck)"

definition resolve_file_and_source :: "read_state \<Rightarrow> path \<Rightarrow> (analysis_error, path \<times> str) result" where
  "resolve_file_and_source st p =
     (case resolve_file (rs_checker st) (rs_root st) p of
        Inl e \<Rightarrow> Inl (PathError e)
      | Inr f \<Rightarrow> Inr (f, ck_source (rs_checker st) f))"

definition compute_files :: "read_state \<Rightarrow> path list" where
  "compute_files st = filter (python_source (rs_py_ext st)) (ck_files (rs_checker st))"

text \<open>The opening of every query at a position: the file, its source and index, the offset.\<close>

definition at_position ::
  "read_state \<Rightarrow> path \<Rightarrow> u32 \<Rightarrow> u32 \<Rightarrow> (analysis_error, path \<times> line_index \<times> text_size) result" where
  "at_position st p line column =
     rbind (resolve_file_and_source st p) (\<lambda>(f, source).
       let li = ck_line_index (rs_checker st) source in
       case position_to_offset_with_index source li line column of
         Inl e \<Rightarrow> Inl (PositionError e)
       | Inr offset \<Rightarrow> Inr (f, li, offset))"

section \<open>Document symbols\<close>

definition compute_document_symbols :: "read_state \<Rightarrow> path \<Rightarrow> (analysis_error, symbol_dto list) result" where
  "compute_document_symbols st p =
     rbind (resolve_file_and_source st p) (\<lambda>(f, source).
       let policies = (if rs_hash_policies st = [] then None else Some (rs_hash_policies st));
           default_profile = (if rs_hash_policies st = [] then None else Some (rs_default_hash_profile st))
       in ok_or (document_symbols
            \<lparr>sw_hierarchical = ck_symbols (rs_checker st) f, sw_normal_form = file_normal_form (rs_checker st) f,
             sw_line_index = ck_line_index (rs_checker st) source, sw_file_path = f, sw_registry = rs_registry st,
             sw_hash_policies = policies, sw_default_profile = default_profile, sw_xxh3 = rs_xxh3 st\<rparr>) Diverges)"

section \<open>Navigation\<close>

record definition_target =
  dt_path :: path
  dt_range :: range_dto
  dt_selection_range :: "range_dto option"

definition convert_navigation_target :: "checker \<Rightarrow> ide_target \<Rightarrow> definition_target" where
  "convert_navigation_target ck t =
     (let li = file_index ck (it_file t)
      in \<lparr>dt_path = it_file t, dt_range = range_to_dto_with_index li (it_full_range t),
          dt_selection_range = Some (range_to_dto_with_index li (it_focus_range t))\<rparr>)"

definition convert_navigation_targets :: "checker \<Rightarrow> ide_target list \<Rightarrow> definition_target list" where
  "convert_navigation_targets ck ts = fold (\<lambda>t acc. acc @ [convert_navigation_target ck t]) ts []"

definition compute_navigate ::
  "read_state \<Rightarrow> path \<Rightarrow> u32 \<Rightarrow> u32 \<Rightarrow> (path \<Rightarrow> text_size \<Rightarrow> ide_target list option)
   \<Rightarrow> (analysis_error, definition_target list) result" where
  "compute_navigate st p line column navigate_fn =
     rbind (at_position st p line column) (\<lambda>(f, _, offset).
       Inr (case navigate_fn f offset of
              Some targets \<Rightarrow> convert_navigation_targets (rs_checker st) targets
            | None \<Rightarrow> []))"

record reference_dto =
  rf_path :: path
  rf_range :: range_dto
  rf_kind :: ide_reference_kind

definition convert_reference_with_index :: "ide_reference \<Rightarrow> line_index \<Rightarrow> reference_dto" where
  "convert_reference_with_index r li =
     \<lparr>rf_path = ir_file r, rf_range = range_to_dto_with_index li (ir_range r), rf_kind = ir_kind r\<rparr>"

text \<open>The cache of source and index per file: looked up, or filled by the first reference of a file.\<close>

definition cached_index :: "checker \<Rightarrow> path \<Rightarrow> (path \<rightharpoonup> str \<times> line_index) \<Rightarrow> line_index \<times> (path \<rightharpoonup> str \<times> line_index)" where
  "cached_index ck f cache =
     (case cache f of
        Some (source, li) \<Rightarrow> (li, cache)
      | None \<Rightarrow> let source = ck_source ck f; li = ck_line_index ck source in (li, cache(f \<mapsto> (source, li))))"

fun map_cached ::
  "checker \<Rightarrow> ('r \<Rightarrow> path) \<Rightarrow> ('r \<Rightarrow> line_index \<Rightarrow> 'a) \<Rightarrow> 'r list \<Rightarrow> (path \<rightharpoonup> str \<times> line_index) \<Rightarrow> 'a list" where
  "map_cached ck file_of convert [] cache = []"
| "map_cached ck file_of convert (r # rs) cache =
     (case cached_index ck (file_of r) cache of (li, cache') \<Rightarrow> convert r li # map_cached ck file_of convert rs cache')"

definition convert_references :: "checker \<Rightarrow> ide_reference list \<Rightarrow> reference_dto list" where
  "convert_references ck rs = map_cached ck ir_file convert_reference_with_index rs Map.empty"

definition compute_find_references ::
  "read_state \<Rightarrow> path \<Rightarrow> u32 \<Rightarrow> u32 \<Rightarrow> bool \<Rightarrow> (analysis_error, reference_dto list) result" where
  "compute_find_references st p line column include_declaration =
     rbind (at_position st p line column) (\<lambda>(f, _, offset).
       Inr (case ide_find_references (rs_ide st) f offset include_declaration of
              Some refs \<Rightarrow> convert_references (rs_checker st) refs
            | None \<Rightarrow> []))"

definition compute_document_highlights ::
  "read_state \<Rightarrow> path \<Rightarrow> u32 \<Rightarrow> u32 \<Rightarrow> (analysis_error, reference_dto list) result" where
  "compute_document_highlights st p line column =
     rbind (at_position st p line column) (\<lambda>(f, _, offset).
       Inr (case ide_document_highlights (rs_ide st) f offset of
              Some targets \<Rightarrow> convert_references (rs_checker st) targets
            | None \<Rightarrow> []))"

definition compute_workspace_symbols :: "read_state \<Rightarrow> str \<Rightarrow> symbol_dto list" where
  "compute_workspace_symbols st query =
     map_cached (rs_checker st) iw_file
       (\<lambda>ws li. convert_symbol li (iw_file ws) (iw_symbol ws) (iw_imported_from ws) None None None [])
       (ide_workspace_symbols (rs_ide st) query) Map.empty"

section \<open>Occurrences\<close>

definition compute_file_occurrences :: "read_state \<Rightarrow> path \<Rightarrow> (analysis_error, occurrence list) result" where
  "compute_file_occurrences st p =
     rbind (resolve_file_and_source st p) (\<lambda>(f, source).
       Inr (convert_file_occurrences (rs_checker st) (ide_model (rs_ide st)) f (ck_line_index (rs_checker st) source)))"

section \<open>Type hierarchy\<close>

record hierarchy_item_dto =
  hd_name :: str
  hd_detail :: "str option"
  hd_path :: path
  hd_full_range :: range_dto
  hd_selection_range :: range_dto

record type_hierarchy_dto =
  th_item :: hierarchy_item_dto
  th_supertypes :: "hierarchy_item_dto list"
  th_subtypes :: "hierarchy_item_dto list"

definition convert_hierarchy_item :: "checker \<Rightarrow> ide_item \<Rightarrow> hierarchy_item_dto" where
  "convert_hierarchy_item ck item =
     (let li = file_index ck (ii_file item)
      in \<lparr>hd_name = ii_name item, hd_detail = ii_detail item, hd_path = ii_file item,
          hd_full_range = range_to_dto_with_index li (ii_full_range item),
          hd_selection_range = range_to_dto_with_index li (ii_selection_range item)\<rparr>)"

definition convert_hierarchy_items :: "checker \<Rightarrow> ide_item list \<Rightarrow> hierarchy_item_dto list" where
  "convert_hierarchy_items ck items = map (convert_hierarchy_item ck) items"

definition compute_type_hierarchy ::
  "read_state \<Rightarrow> path \<Rightarrow> u32 \<Rightarrow> u32 \<Rightarrow> (analysis_error, type_hierarchy_dto option) result" where
  "compute_type_hierarchy st p line column =
     rbind (at_position st p line column) (\<lambda>(f, _, offset).
       case ide_prepare_type_hierarchy (rs_ide st) f offset of
         None \<Rightarrow> Inr None
       | Some item \<Rightarrow>
           let at = fst (ii_selection_range item) in
           Inr (Some \<lparr>th_item = convert_hierarchy_item (rs_checker st) item,
             th_supertypes = convert_hierarchy_items (rs_checker st) (ide_supertypes (rs_ide st) (ii_file item) at),
             th_subtypes = convert_hierarchy_items (rs_checker st) (ide_subtypes (rs_ide st) (ii_file item) at)\<rparr>))"

definition compute_supertypes ::
  "read_state \<Rightarrow> path \<Rightarrow> u32 \<Rightarrow> u32 \<Rightarrow> (analysis_error, hierarchy_item_dto list) result" where
  "compute_supertypes st p line column =
     rbind (at_position st p line column) (\<lambda>(f, _, offset).
       case ide_prepare_type_hierarchy (rs_ide st) f offset of
         None \<Rightarrow> Inr []
       | Some item \<Rightarrow>
           Inr (convert_hierarchy_items (rs_checker st) (ide_supertypes (rs_ide st) (ii_file item) (fst (ii_selection_range item)))))"

section \<open>Ranges and edits\<close>

definition compute_selection_ranges ::
  "read_state \<Rightarrow> path \<Rightarrow> u32 \<Rightarrow> u32 \<Rightarrow> (analysis_error, range_dto list) result" where
  "compute_selection_ranges st p line column =
     rbind (at_position st p line column) (\<lambda>(f, li, offset).
       Inr (map (range_to_dto_with_index li) (ide_selection_range (rs_ide st) f offset)))"

definition compute_can_rename ::
  "read_state \<Rightarrow> path \<Rightarrow> u32 \<Rightarrow> u32 \<Rightarrow> (analysis_error, range_dto option) result" where
  "compute_can_rename st p line column =
     rbind (at_position st p line column) (\<lambda>(f, li, offset).
       Inr (map_option (range_to_dto_with_index li) (ide_can_rename (rs_ide st) f offset)))"

record workspace_edit_dto =
  we_new_name :: str
  we_edits :: "(path \<times> range_dto) list"

definition convert_rename_edits :: "checker \<Rightarrow> ide_reference list \<Rightarrow> str \<Rightarrow> workspace_edit_dto" where
  "convert_rename_edits ck rs new_name =
     \<lparr>we_new_name = new_name,
      we_edits = map_cached ck ir_file (\<lambda>r li. (ir_file r, range_to_dto_with_index li (ir_range r))) rs Map.empty\<rparr>"

definition compute_rename ::
  "read_state \<Rightarrow> path \<Rightarrow> u32 \<Rightarrow> u32 \<Rightarrow> str \<Rightarrow> (analysis_error, workspace_edit_dto option) result" where
  "compute_rename st p line column new_name =
     rbind (at_position st p line column) (\<lambda>(f, _, offset).
       Inr (map_option (\<lambda>targets. convert_rename_edits (rs_checker st) targets new_name)
              (ide_rename (rs_ide st) f offset new_name)))"

text \<open>\<open>TextRange::new\<close> panics when the end lies before the start.\<close>

definition text_range_new :: "text_size \<Rightarrow> text_size \<Rightarrow> (analysis_error, text_range) result" where
  "text_range_new start end = (if start \<le> end then Inr (start, end) else Inl RangePanic)"

definition position_offset :: "str \<Rightarrow> line_index \<Rightarrow> u32 \<Rightarrow> u32 \<Rightarrow> (analysis_error, text_size) result" where
  "position_offset source li line column =
     (case position_to_offset_with_index source li line column of Inl e \<Rightarrow> Inl (PositionError e) | Inr off \<Rightarrow> Inr off)"

definition clamped_offset :: "str \<Rightarrow> line_index \<Rightarrow> u32 \<Rightarrow> u32 \<Rightarrow> (analysis_error, text_size) result" where
  "clamped_offset source li line column =
     (case position_to_offset_clamped_line_end_with_index source li line column of
        Inl e \<Rightarrow> Inl (PositionError e) | Inr off \<Rightarrow> Inr off)"

text \<open>The range a request for semantic tokens is limited to.\<close>

definition semantic_token_range ::
  "str \<Rightarrow> line_index \<Rightarrow> u32 option \<Rightarrow> u32 option \<Rightarrow> u32 option \<Rightarrow> u32 option \<Rightarrow> (analysis_error, text_range option) result" where
  "semantic_token_range source li start_line start_col end_line end_col =
     (case (start_line, start_col, end_line, end_col) of
        (Some sl, Some sc, Some el, Some ec) \<Rightarrow>
          rbind (position_offset source li sl sc) (\<lambda>start.
          rbind (clamped_offset source li el ec) (\<lambda>end.
          rbind (text_range_new start end) (\<lambda>r. Inr (Some r))))
      | _ \<Rightarrow> Inr None)"

record quick_fix_dto =
  qf_title :: str
  qf_edits :: "(path \<times> range_dto \<times> str) list"

definition convert_quick_fix :: "line_index \<Rightarrow> path \<Rightarrow> ide_fix \<Rightarrow> quick_fix_dto" where
  "convert_quick_fix li f fix =
     \<lparr>qf_title = if_title fix,
      qf_edits = map (\<lambda>(r, text). (f, range_to_dto_with_index li r, case text of None \<Rightarrow> [] | Some t \<Rightarrow> t)) (if_edits fix)\<rparr>"

definition compute_code_actions ::
  "read_state \<Rightarrow> path \<Rightarrow> u32 \<Rightarrow> u32 \<Rightarrow> u32 \<Rightarrow> u32 \<Rightarrow> str \<Rightarrow> (analysis_error, quick_fix_dto list) result" where
  "compute_code_actions st p start_line start_col end_line end_col diagnostic =
     rbind (resolve_file_and_source st p) (\<lambda>(f, source).
       let li = ck_line_index (rs_checker st) source in
       rbind (position_offset source li start_line start_col) (\<lambda>start.
       rbind (position_offset source li end_line end_col) (\<lambda>end.
       rbind (text_range_new start end) (\<lambda>r.
         Inr (map (convert_quick_fix li f) (ide_code_actions (rs_ide st) f r diagnostic))))))"

section \<open>The identity at a position\<close>

definition range_contains :: "text_range \<Rightarrow> text_size \<Rightarrow> bool" where
  "range_contains r off \<longleftrightarrow> fst r \<le> off \<and> off < snd r"

definition range_len :: "text_range \<Rightarrow> nat" where
  "range_len r = snd r - fst r"

definition closer :: "hierarchical \<Rightarrow> path \<Rightarrow> text_size \<Rightarrow> nat \<Rightarrow> (str \<times> nat) option \<Rightarrow> (str \<times> nat) option option" where
  "closer hs f offset i best =
     (let r = si_full_range (hs_info hs i) in
      if \<not> range_contains r offset then Some best
      else if (case best of None \<Rightarrow> True | Some (_, prev) \<Rightarrow> range_len r < prev)
      then map_option (\<lambda>path. Some (path, range_len r)) (build_qualified_path hs i f)
      else Some best)"

definition id_for :: "read_state \<Rightarrow> path \<Rightarrow> u32 \<Rightarrow> u32 \<Rightarrow> (analysis_error, str option) result" where
  "id_for st p line column =
     rbind (at_position st p line column) (\<lambda>(f, _, offset).
       let hs = ck_symbols (rs_checker st) f in
       case fold_option (closer hs f offset) (hs_iter hs) None of
         None \<Rightarrow> Inl Diverges
       | Some best \<Rightarrow> Inr (Option.bind best (\<lambda>(path, _). map_option id_str (by_path (rs_registry st) path))))"

section \<open>The producer's engine\<close>

definition drop_error :: "(analysis_error, 'a) result \<Rightarrow> (str, 'a) result" where
  "drop_error m = (case m of Inl _ \<Rightarrow> Inl [] | Inr x \<Rightarrow> Inr x)"

definition analysis_engine :: "read_state \<Rightarrow> engine" where
  "analysis_engine st =
     \<lparr>en_root = rs_root st, en_files = compute_files st,
      en_symbols = (\<lambda>p. drop_error (compute_document_symbols st p)),
      en_occurrences = (\<lambda>p. drop_error (compute_file_occurrences st p)),
      en_supertypes = (\<lambda>p line column. drop_error (rbind (compute_supertypes st p line column)
        (\<lambda>items. Inr (map (\<lambda>i. \<lparr>hi_name = hd_name i, hi_path = hd_path i\<rparr>) items)))),
      en_goto = (\<lambda>p line column. drop_error (rbind (compute_navigate st p line column (ide_navigate (rs_ide st)))
        (\<lambda>ts. Inr (map dt_path ts))))\<rparr>"

section \<open>Properties\<close>

lemma map_cached_eq:
  "(\<And>f source li. cache f = Some (source, li) \<Longrightarrow> li = file_index ck f) \<Longrightarrow>
   map_cached ck file_of convert rs cache = map (\<lambda>r. convert r (file_index ck (file_of r))) rs"
proof (induction rs arbitrary: cache)
  case (Cons r rs)
  obtain li cache' where c: "cached_index ck (file_of r) cache = (li, cache')" by fastforce
  then have "li = file_index ck (file_of r)" "\<And>f source li. cache' f = Some (source, li) \<Longrightarrow> li = file_index ck f"
    using Cons.prems by (auto simp: cached_index_def Let_def file_index_def split: option.splits prod.splits if_splits)
  with c Cons.IH [of cache'] show ?case by simp
qed simp

text \<open>The per-file cache changes nothing: each reference is converted with the index of its own file.\<close>

lemma convert_references_uncached:
  "convert_references ck rs = map (\<lambda>r. convert_reference_with_index r (file_index ck (ir_file r))) rs"
  unfolding convert_references_def by (rule map_cached_eq) simp

text \<open>A request whose end lies before its start panics instead of being rejected.\<close>

lemma reversed_range_panics:
  "position_to_offset_with_index source li sl sc = Inr from \<Longrightarrow>
   position_to_offset_clamped_line_end_with_index source li el ec = Inr to \<Longrightarrow> to < from \<Longrightarrow>
   semantic_token_range source li (Some sl) (Some sc) (Some el) (Some ec) = Inl RangePanic"
  by (simp add: semantic_token_range_def position_offset_def clamped_offset_def text_range_new_def)

text \<open>The best symbol among those seen: an enclosing one, with no shorter enclosing one beside it.\<close>

definition innermost :: "hierarchical \<Rightarrow> path \<Rightarrow> text_size \<Rightarrow> nat list \<Rightarrow> (str \<times> nat) option \<Rightarrow> bool" where
  "innermost hs f off seen best \<longleftrightarrow>
     (case best of
        None \<Rightarrow> \<forall>j\<in>set seen. \<not> range_contains (si_full_range (hs_info hs j)) off
      | Some (path, width) \<Rightarrow>
          (\<exists>i\<in>set seen. range_contains (si_full_range (hs_info hs i)) off \<and> build_qualified_path hs i f = Some path
             \<and> width = range_len (si_full_range (hs_info hs i)))
          \<and> (\<forall>j\<in>set seen. range_contains (si_full_range (hs_info hs j)) off \<longrightarrow> width \<le> range_len (si_full_range (hs_info hs j))))"

lemma closer_step:
  assumes "innermost hs f off seen best" "build_qualified_path hs i f = Some path"
  shows "\<exists>best'. closer hs f off i best = Some best' \<and> innermost hs f off (seen @ [i]) best'"
  using assms by (auto simp: closer_def innermost_def Let_def split: option.splits if_splits)

lemma closer_fold:
  "innermost hs f off seen best \<Longrightarrow> \<forall>i\<in>set xs. \<exists>path. build_qualified_path hs i f = Some path \<Longrightarrow>
   \<exists>best'. fold_option (closer hs f off) xs best = Some best' \<and> innermost hs f off (seen @ xs) best'"
proof (induction xs arbitrary: seen best)
  case (Cons i xs)
  then obtain best1 where b: "closer hs f off i best = Some best1" "innermost hs f off (seen @ [i]) best1"
    using closer_step [of hs f off seen best i] by auto
  show ?case using Cons.IH [OF b(2)] Cons.prems(2) b(1) by simp
qed simp

text \<open>
  When the iterator yields the members of what it yields, every extracted entity is one of its
  symbols; when it yields outermost symbols only, those are entities without a container.
\<close>

definition members_yielded :: "hierarchical \<Rightarrow> bool" where
  "members_yielded hs \<longleftrightarrow> (\<forall>p\<in>set (hs_iter hs). set (children hs p) \<subseteq> set (hs_iter hs))"

lemma yielded_entities:
  assumes "symbol_forest (ck_symbols ck f)" "extract_file xxh3 ck policy f [] = Some es" "members_yielded (ck_symbols ck f)" "e \<in> set es"
  shows "\<exists>j\<in>set (hs_iter (ck_symbols ck f)). e_full_range e = si_full_range (hs_info (ck_symbols ck f) j)"
proof -
  have yielded: "symbol_path (ck_symbols ck f) j names \<Longrightarrow> j \<in> set (hs_iter (ck_symbols ck f))" for j names
    by (induction rule: symbol_path.induct) (use assms(3) in \<open>auto simp: members_yielded_def\<close>)
  obtain vs where "list_all2 (entity_for (file_walk xxh3 ck policy f)) vs es"
    by (rule extract_file_entities [OF assms(1,2)]) simp
  with assms(4) obtain j where "entity_for (file_walk xxh3 ck policy f) j e"
    by (metis in_set_conv_nth list_all2_conv_all_nth)
  with yielded show ?thesis by (auto simp: entity_for_def file_walk_def)
qed

lemma outermost_entity: "entity_for cx i e \<Longrightarrow> parentless (ew_hierarchical cx) i \<Longrightarrow> e_container e = None"
  by (auto simp: entity_for_def parentless_def elim: symbol_path.cases)

text \<open>
  C19.  A position has the identity of the smallest enclosing symbol that the file's symbol
  iterator yields.  In a file whose symbols form a forest the lookup ends.  If no yielded symbol
  encloses the position it answers nothing; else it answers the identity registered at the path
  under which extraction collected an entity that encloses the position and is no larger than any
  yielded symbol that does.  How far that is the innermost symbol depends on the iterator, which is
  the type checker's: when it yields members along with their containers, the entity is smallest
  among all extracted ones; when it yields outermost symbols only, the entity is an outermost one,
  also for a position inside a member.
\<close>

theorem id_for_innermost:
  assumes "at_position st p line column = Inr (f, li, off)" "symbol_forest (ck_symbols (rs_checker st) f)"
    and "extract_file (rs_xxh3 st) (rs_checker st) policy f [] = Some es"
  shows "id_for st p line column = Inr None
      \<and> (\<forall>j\<in>set (hs_iter (ck_symbols (rs_checker st) f)). \<not> range_contains (si_full_range (hs_info (ck_symbols (rs_checker st) f) j)) off)
      \<and> (members_yielded (ck_symbols (rs_checker st) f) \<longrightarrow> (\<forall>e\<in>set es. \<not> range_contains (e_full_range e) off))
    \<or> (\<exists>e\<in>set es. id_for st p line column = Inr (map_option id_str (by_path (rs_registry st) (e_qualified_path e)))
         \<and> range_contains (e_full_range e) off
         \<and> (\<forall>j\<in>set (hs_iter (ck_symbols (rs_checker st) f)). range_contains (si_full_range (hs_info (ck_symbols (rs_checker st) f) j)) off
              \<longrightarrow> range_len (e_full_range e) \<le> range_len (si_full_range (hs_info (ck_symbols (rs_checker st) f) j)))
         \<and> (members_yielded (ck_symbols (rs_checker st) f) \<longrightarrow>
              (\<forall>e'\<in>set es. range_contains (e_full_range e') off \<longrightarrow> range_len (e_full_range e) \<le> range_len (e_full_range e')))
         \<and> ((\<forall>i\<in>set (hs_iter (ck_symbols (rs_checker st) f)). parentless (ck_symbols (rs_checker st) f) i) \<longrightarrow> e_container e = None))"
proof -
  let ?hs = "ck_symbols (rs_checker st) f"
  note agree = identity_paths_agree [OF assms(2,3)]
  note all = yielded_entities [OF assms(2,3)]
  have "\<forall>i\<in>set (hs_iter ?hs). \<exists>path. build_qualified_path ?hs i f = Some path" using agree by blast
  moreover have "innermost ?hs f off [] None" by (simp add: innermost_def)
  ultimately obtain best where best: "fold_option (closer ?hs f off) (hs_iter ?hs) None = Some best"
      "innermost ?hs f off (hs_iter ?hs) best" using closer_fold [of ?hs f off "[]" None "hs_iter ?hs"] by auto
  have id: "id_for st p line column = Inr (Option.bind best (\<lambda>(path, _). map_option id_str (by_path (rs_registry st) path)))"
    using assms(1) best(1) by (simp add: id_for_def)
  show ?thesis
  proof (cases best)
    case None
    then have "\<forall>j\<in>set (hs_iter ?hs). \<not> range_contains (si_full_range (hs_info ?hs j)) off" using best(2) by (simp add: innermost_def)
    then show ?thesis using id None all by (metis bind.bind_lzero)
  next
    case (Some b)
    obtain path width where b: "b = (path, width)" by fastforce
    then obtain i where i: "i \<in> set (hs_iter ?hs)" "range_contains (si_full_range (hs_info ?hs i)) off"
        "build_qualified_path ?hs i f = Some path" "width = range_len (si_full_range (hs_info ?hs i))"
        and least: "\<forall>j\<in>set (hs_iter ?hs). range_contains (si_full_range (hs_info ?hs j)) off \<longrightarrow> width \<le> range_len (si_full_range (hs_info ?hs j))"
      using best(2) Some by (auto simp: innermost_def)
    obtain e where e: "e \<in> set es" "e_qualified_path e = path" "entity_for (file_walk (rs_xxh3 st) (rs_checker st) policy f) i e"
      using agree [OF i(1)] i(3) by auto
    then have r: "e_full_range e = si_full_range (hs_info ?hs i)" by (simp add: entity_for_def file_walk_def)
    have "\<forall>e'\<in>set es. range_contains (e_full_range e') off \<longrightarrow> range_len (e_full_range e) \<le> range_len (e_full_range e')" if "members_yielded ?hs"
      using all [OF that] least i(4) r by metis
    moreover have "e_container e = None" if "\<forall>i\<in>set (hs_iter ?hs). parentless ?hs i"
      using outermost_entity [OF e(3)] that i(1) by (simp add: file_walk_def)
    ultimately show ?thesis using id Some b i(2,4) e(1,2) r least by (intro disjI2 bexI [of _ e]) simp_all
  qed
qed

definition sample_ide :: ide where
  "sample_ide = \<lparr>ide_model = \<lambda>_. sample_model, ide_navigate = \<lambda>_ _. None, ide_find_references = \<lambda>_ _ _. None,
     ide_document_highlights = \<lambda>_ _. None, ide_prepare_type_hierarchy = \<lambda>_ _. None, ide_supertypes = \<lambda>_ _. [], ide_subtypes = \<lambda>_ _. [],
     ide_selection_range = \<lambda>_ _. [], ide_can_rename = \<lambda>_ _. None, ide_rename = \<lambda>_ _ _. None, ide_workspace_symbols = \<lambda>_. [],
     ide_code_actions = \<lambda>_ _ _. [], ide_goto_declaration = \<lambda>_ _. None, ide_goto_type_definition = \<lambda>_ _. None,
     ide_check = [], ide_semantic_tokens = \<lambda>_ _. [], ide_inlay_hints = \<lambda>_ _. [], ide_hints = \<lambda>_. [],
     ide_signature_help = \<lambda>_ _. None, ide_completion = \<lambda>_ _ _. [], ide_folding_ranges = \<lambda>_. [], ide_hover = \<lambda>_ _. None\<rparr>"

definition sample_state :: read_state where
  "sample_state = \<lparr>rs_checker = sample_checker, rs_ide = sample_ide, rs_root = ''/w'',
     rs_registry = registry_insert \<lparr>a_id = DurableId ''7'', a_qualified_path = ''/w/a.py::C'',
       a_content_hash = ContentHash 0, a_kind = Class, a_first_seen_rev = 1, a_last_seen_rev = 1, a_status = Active\<rparr> registry_default,
     rs_hash_policies = [], rs_default_hash_profile = [], rs_xxh3 = \<lambda>_. 0, rs_py_ext = \<lambda>x. x = ''py''\<rparr>"

theorem id_for_innermost_witness: "id_for sample_state ''a.py'' 1 1 = Inr (Some ''7'')"
proof -
  let ?C = "rs_checker sample_state"
  have C: "?C = sample_checker" and x: "rs_xxh3 sample_state = (\<lambda>_. 0)" by (simp_all add: sample_state_def)
  have pos: "at_position sample_state ''a.py'' 1 1 = Inr (''/w/a.py'', sample_index, 0)"
    by (simp add: at_position_def resolve_file_and_source_def resolve_file_def sample_state_def sample_checker_def Let_def is_absolute_def
        join_path_def suffix_def position_to_offset_with_index_def checked_sub_def ok_or_def sample_index_def line_text_def strip_cr_def)
  obtain es where es: "extract_file (rs_xxh3 sample_state) ?C hash_policy_default ''/w/a.py'' [] = Some es"
    using extract_file_total by blast
  then have l: "map e_qualified_path es = [''/w/a.py::C'', ''/w/a.py::C::f'']" "map e_full_range es = [(0, 30), (12, 30)]"
    unfolding C x by (auto simp: sample_simps Let_def)
  have "symbol_forest (ck_symbols ?C ''/w/a.py'')" using sample_forest by (simp add: C sample_checker_def)
  note least = id_for_innermost [OF pos this es]
  have "\<exists>j\<in>set (hs_iter (ck_symbols ?C ''/w/a.py'')). range_contains (si_full_range (hs_info (ck_symbols ?C ''/w/a.py'') j)) 0"
    by (simp add: C sample_checker_def sample_hierarchy_def range_contains_def)
  with least obtain e where e: "e \<in> set es" "range_contains (e_full_range e) 0"
    "id_for sample_state ''a.py'' 1 1 = Inr (map_option id_str (by_path (rs_registry sample_state) (e_qualified_path e)))" by blast
  then have "e_qualified_path e = ''/w/a.py::C''" using l by (auto simp: map_eq_Cons_conv range_contains_def)
  moreover have "by_path (rs_registry sample_state) ''/w/a.py::C'' = Some (DurableId ''7'')"
    by (simp add: sample_state_def registry_insert_def registry_default_def registry_get_def Let_def)
  ultimately show ?thesis using e(3) by simp
qed

end
