(* ===== verification/Commit.thy ===== *)
theory Commit
  imports Overlay Sidecar Authored Producer Analysis
begin

text \<open>
  The commit funnel (\<open>rust/src/project/commit.rs\<close>) over the session head
  (\<open>HeadState\<close> of \<open>rust/src/project.rs\<close>): classification of writes into engine events, the
  staged plan of each kind of mutation, the staged transaction that runs every fallible step
  before the revision is published, and the rollback.

  Two fields of the head stand for state outside the process: \<open>h_disk\<close> is the sidecar as it
  lies on disk, \<open>h_mints\<close> counts the identifiers drawn so far.  A commit may change both and
  a rollback does not undo them.

  What the code takes from elsewhere is a parameter.  The record \<open>world\<close> holds the hash
  function, the identifier source, the JSON encoders, and the type checker's database: an
  abstract type \<open>'db\<close> with the calls the source makes on it (among them its answers about
  symbols and syntax, the records \<open>checker\<close> and \<open>ide\<close>).  The database reads source
  text through the overlay, so its calls take the overlay as an argument.  The record
  \<open>outside\<close> is the operating system as one operation finds it: the disk's files, the view
  behind the overlay, and which system call of a sidecar write fails.
\<close>

section \<open>Events and errors\<close>

datatype created_kind = CreatedFile | CreatedOther
datatype changed_kind = ChangedContent | ChangedAny | ChangedOther
datatype deleted_kind = DeletedAny | DeletedOther

text \<open>The variants the source names; \<open>EvOther\<close> is any other one, seen by its path only.\<close>

datatype change_event =
    EvCreated path created_kind
  | EvChanged path changed_kind
  | EvDeleted path deleted_kind
  | EvCreatedVirtual path
  | EvChangedVirtual path
  | EvRescan
  | EvOther "path option"

fun system_path :: "change_event \<Rightarrow> path option" where
  "system_path (EvCreated p _) = Some p"
| "system_path (EvChanged p _) = Some p"
| "system_path (EvDeleted p _) = Some p"
| "system_path (EvOther p) = p"
| "system_path _ = None"

datatype commit_error =
    SidecarWriteError
  | CommitFailed
  | PyConfigError
  | PyValueError
  | PyRuntimeError
  | ProjectClosedError
  | RevisionEvictedError revision
  | FormatVersionError
  | Panicked

section \<open>State\<close>

record ('md, 'db) world =
  w_xxh3 :: "str \<Rightarrow> u128"
  w_mint :: "nat \<Rightarrow> durable_id"
  w_py_ext :: "str \<Rightarrow> bool"
  w_to_vec_pretty :: "json \<Rightarrow> (str, bytes) result"
  w_encode_doc :: "authored_doc \<Rightarrow> (str, bytes) result"
  w_discover :: "path \<Rightarrow> overlay_system \<Rightarrow> (str, 'md) result"
  w_meta_root :: "'md \<Rightarrow> path"
  w_meta_new :: "str \<Rightarrow> path \<Rightarrow> 'md"
  w_configure :: "overlay_system \<Rightarrow> 'md \<Rightarrow> (str, 'md) result"
  w_fallible :: "'md \<Rightarrow> overlay_system \<Rightarrow> (str, 'db) result"
  w_use_defaults :: "'md \<Rightarrow> overlay_system \<Rightarrow> 'db"
  w_apply_changes :: "change_event list \<Rightarrow> overlay_system \<Rightarrow> 'db \<Rightarrow> 'db \<times> bool \<times> bool"
  w_try_system :: "'db \<Rightarrow> overlay_system \<Rightarrow> path \<Rightarrow> bool option"
  w_try_virtual :: "'db \<Rightarrow> path \<Rightarrow> bool"
  w_is_file :: "overlay_system \<Rightarrow> path \<Rightarrow> bool"
  w_checker :: "'db \<Rightarrow> overlay_system \<Rightarrow> checker"
  w_ide :: "'db \<Rightarrow> overlay_system \<Rightarrow> ide"

record outside =
  o_disk :: os_system
  o_native :: native_system
  o_io :: io_plan

record 'db head =
  h_db :: 'db
  h_root :: path
  h_store :: content_store
  h_system :: overlay_system
  h_registry :: identity_registry
  h_hash_policy :: hash_policy
  h_hash_policies :: "(str, hash_policy) hash_map"
  h_default_hash_profile :: str
  h_config :: validated_config
  h_sidecar :: sidecar
  h_authored :: authored_map
  h_code_layer :: code_layer
  h_unsaved :: "path set"
  h_armed :: "str option"
  h_disk :: disk
  h_mints :: nat

text \<open>The overlay over the operating system as the operation finds it.\<close>

definition live_view :: "outside \<Rightarrow> 'db head \<Rightarrow> overlay_system" where
  "live_view os h = (h_system h)\<lparr>native := o_native os\<rparr>"

section \<open>Classification\<close>

definition resolve_sync_path :: "path \<Rightarrow> path \<Rightarrow> path" where
  "resolve_sync_path root p = (if is_absolute p then p else join_path root p)"

definition classify_overlay_edit :: "('md, 'db) world \<Rightarrow> outside \<Rightarrow> 'db head \<Rightarrow> path \<Rightarrow> change_event" where
  "classify_overlay_edit w os h p =
     (let is_new = (case w_try_system w (h_db h) (live_view os h) p of
                      Some present \<Rightarrow> \<not> present
                    | None \<Rightarrow> \<not> w_is_file w (live_view os h) p)
      in if is_new then EvCreated p CreatedFile else EvChanged p ChangedContent)"

definition classify_disk_sync :: "('md, 'db) world \<Rightarrow> outside \<Rightarrow> 'db head \<Rightarrow> path \<Rightarrow> change_event" where
  "classify_disk_sync w os h p =
     (if w_is_file w (live_view os h) p
      then (if w_try_system w (h_db h) (live_view os h) p \<noteq> Some True
            then EvCreated p CreatedFile else EvChanged p ChangedAny)
      else EvDeleted p DeletedAny)"

definition is_python_path :: "('md, 'db) world \<Rightarrow> path \<Rightarrow> bool" where
  "is_python_path w p = python_source (w_py_ext w) p"

text \<open>A \<open>HashSet\<close> of paths that is iterated is a list without repetition.\<close>

definition identity_scope_from_events :: "('md, 'db) world \<Rightarrow> change_event list \<Rightarrow> str list option" where
  "identity_scope_from_events w events =
     (let scope = remdups (filter (is_python_path w) (List.map_filter system_path events))
      in if scope = [] then None else Some scope)"

definition native_to_graph :: "path \<Rightarrow> str \<Rightarrow> str option" where
  "native_to_graph root p =
     (case strip_prefix root p of
        None \<Rightarrow> None
      | Some rest0 \<Rightarrow>
          let rest = (case strip_prefix ''/'' rest0 of Some r \<Rightarrow> r | None \<Rightarrow> rest0)
          in if rest = [] then None else Some rest)"

section \<open>Deltas\<close>

record moved_entity_dto =
  md_id :: str
  md_old_qualified_path :: str
  md_new_qualified_path :: str
  md_old_file :: str
  md_new_file :: str

record identity_delta =
  idl_created_ids :: "str list"
  idl_changed_ids :: "str list"
  idl_deleted_ids :: "str list"
  idl_moved :: "moved_entity_dto list"
  idl_affected_ids :: "str list"
  idl_affected_files :: "str list"
  idl_needs_review :: "str list"
  idl_orphaned :: "str list"
  idl_extracted :: nat
  idl_scope_files :: nat
  idl_authored_needs_review :: "str list"
  idl_authored_orphaned :: "str list"

definition identity_delta_default :: identity_delta where
  "identity_delta_default =
     \<lparr>idl_created_ids = [], idl_changed_ids = [], idl_deleted_ids = [], idl_moved = [], idl_affected_ids = [],
      idl_affected_files = [], idl_needs_review = [], idl_orphaned = [], idl_extracted = 0, idl_scope_files = 0,
      idl_authored_needs_review = [], idl_authored_orphaned = []\<rparr>"

record commit_delta =
  cm_revision :: revision
  cm_created_ids :: "str list"
  cm_changed_ids :: "str list"
  cm_deleted_ids :: "str list"
  cm_moved :: "moved_entity_dto list"
  cm_authored_ids :: "str list"
  cm_affected_ids :: "str list"
  cm_touched_files :: "str list"
  cm_affected_files :: "str list"
  cm_created :: "str list"
  cm_changed :: "str list"
  cm_deleted :: "str list"
  cm_needs_review :: "str list"
  cm_orphaned :: "str list"
  cm_authored_needs_review :: "str list"
  cm_authored_orphaned :: "str list"
  cm_identity_extracted :: nat
  cm_identity_scope_files :: nat
  cm_rescan :: bool
  cm_project_changed :: bool
  cm_custom_stdlib_changed :: bool

definition build_commit_delta ::
  "revision \<Rightarrow> path \<Rightarrow> str list \<Rightarrow> str list \<Rightarrow> str list \<Rightarrow> identity_delta \<Rightarrow> bool \<Rightarrow> bool \<Rightarrow> bool \<Rightarrow> commit_delta" where
  "build_commit_delta rv root crs chs dls identity rescan project_changed custom_stdlib_changed =
     (let touched = map (\<lambda>p. case native_to_graph root p of Some g \<Rightarrow> g | None \<Rightarrow> p) (crs @ chs @ dls)
      in \<lparr>cm_revision = rv, cm_created_ids = idl_created_ids identity, cm_changed_ids = idl_changed_ids identity,
          cm_deleted_ids = idl_deleted_ids identity, cm_moved = idl_moved identity, cm_authored_ids = [],
          cm_affected_ids = idl_affected_ids identity, cm_touched_files = touched,
          cm_affected_files = idl_affected_files identity, cm_created = crs, cm_changed = chs,
          cm_deleted = dls, cm_needs_review = idl_needs_review identity, cm_orphaned = idl_orphaned identity,
          cm_authored_needs_review = idl_authored_needs_review identity,
          cm_authored_orphaned = idl_authored_orphaned identity, cm_identity_extracted = idl_extracted identity,
          cm_identity_scope_files = idl_scope_files identity, cm_rescan = rescan,
          cm_project_changed = project_changed, cm_custom_stdlib_changed = custom_stdlib_changed\<rparr>)"

section \<open>Identity\<close>

definition moved_entity :: "moved_binding \<Rightarrow> moved_entity_dto" where
  "moved_entity m = \<lparr>md_id = id_str (mv_id m), md_old_qualified_path = old_qualified_path m,
     md_new_qualified_path = new_qualified_path m, md_old_file = old_file m, md_new_file = new_file m\<rparr>"

definition scope_entities ::
  "('md, 'db) world \<Rightarrow> 'db \<Rightarrow> overlay_system \<Rightarrow> hash_policy \<Rightarrow> str list option \<Rightarrow> entity list option" where
  "scope_entities w db ov policy scope =
     (case scope of
        Some s \<Rightarrow> extract_entities_for (w_xxh3 w) (w_py_ext w) (w_checker w db ov) policy (set s)
      | None \<Rightarrow> extract_entities (w_xxh3 w) (w_py_ext w) (w_checker w db ov) policy)"

definition run_identity_reconciliation ::
  "('md, 'db) world \<Rightarrow> outside \<Rightarrow> str list option \<Rightarrow> revision \<Rightarrow> 'db head \<Rightarrow> ('db head \<times> identity_delta) option" where
  "run_identity_reconciliation w os scope next_rev h =
     Option.bind (scope_entities w (h_db h) (live_view os h) (h_hash_policy h) scope) (\<lambda>entities.
      let recon = (case scope of
                     Some s \<Rightarrow> reconcile_scoped (w_mint w) (h_registry h) entities next_rev (set s) (h_mints h)
                   | None \<Rightarrow> reconcile (w_mint w) (h_registry h) entities next_rev (h_mints h))
      in (case recon of
            None \<Rightarrow> None
          | Some (registry, rc, mints) \<Rightarrow>
              let h' = h\<lparr>h_registry := registry, h_mints := mints\<rparr>;
                  classes = classify rc entities;
                  review = map id_str (needs_review rc);
                  orphans = map id_str (retired rc);
                  lifecycle = compute_authored_lifecycle (h_config h) (h_authored h) review orphans
              in Some (h',
                   \<lparr>idl_created_ids = map id_str (created classes), idl_changed_ids = map id_str (changed classes),
                    idl_deleted_ids = map id_str (deleted classes), idl_moved = map moved_entity (moved classes),
                    idl_affected_ids = [], idl_affected_files = [], idl_needs_review = review, idl_orphaned = orphans,
                    idl_extracted = length entities,
                    idl_scope_files = (case scope of None \<Rightarrow> 0 | Some s \<Rightarrow> length s),
                    idl_authored_needs_review = fst lifecycle, idl_authored_orphaned = snd lifecycle\<rparr>)))"

section \<open>Mutations and plans\<close>

datatype mutation =
    Overlay "change list" "change_event list" "str list" "str list" "path list"
  | SyncPath path
  | SyncAll
  | Author str str json
  | Poll "change_event list"

record authored_plan =
  ap_next_store :: authored_map
  ap_record_path :: path
  ap_bytes :: bytes
  ap_id :: str

record staged_commit =
  sg_gen :: generation
  sg_events :: "change_event list"
  sg_created :: "str list"
  sg_changed :: "str list"
  sg_deleted :: "str list"
  sg_rescan :: bool
  sg_scope :: "str list option"
  sg_reconcile :: bool
  sg_authored :: "authored_plan option"
  sg_unsaved_insert :: "path list"
  sg_unsaved_remove :: "path list"

record baseline =
  bl_published_gen :: generation
  bl_registry :: identity_registry
  bl_authored :: authored_map
  bl_code_layer :: code_layer

definition disk_change :: "path \<Rightarrow> (io_error, str) result \<Rightarrow> change" where
  "disk_change p disk_text = (case disk_text of Inr text \<Rightarrow> Insert p text | Inl _ \<Rightarrow> Delete p)"

text \<open>One event of a drained watcher batch: store changes, kept events, created, changed, deleted.\<close>

type_synonym poll_state = "change list \<times> change_event list \<times> str list \<times> str list \<times> str list"

definition poll_event :: "os_system \<Rightarrow> path set \<Rightarrow> change_event \<Rightarrow> poll_state \<Rightarrow> poll_state" where
  "poll_event disk unsaved event st =
     (case st of (changes, kept, crs, chs, dls) \<Rightarrow>
      (case system_path event of
         None \<Rightarrow> st
       | Some p \<Rightarrow>
           if p \<in> unsaved then st
           else
             (case event of
                EvCreated _ _ \<Rightarrow> (changes @ [disk_change p (os_read disk p)], kept @ [event], crs @ [p], chs, dls)
              | EvDeleted _ _ \<Rightarrow> (changes @ [Delete p], kept @ [event], crs, chs, dls @ [p])
              | EvChanged _ _ \<Rightarrow> (changes @ [disk_change p (os_read disk p)], kept @ [event], crs, chs @ [p], dls)
              | _ \<Rightarrow> st)))"

definition stage_head :: "('md, 'db) world \<Rightarrow> change list \<Rightarrow> 'db head \<Rightarrow> generation \<times> 'db head" where
  "stage_head w changes h =
     (case stage (w_xxh3 w) changes (h_store h) of (g, s) \<Rightarrow> (g, h\<lparr>h_store := s\<rparr>))"

definition build_poll_plan ::
  "('md, 'db) world \<Rightarrow> outside \<Rightarrow> change_event list \<Rightarrow> 'db head
   \<Rightarrow> 'db head \<times> (commit_error, staged_commit option) result" where
  "build_poll_plan w os events h =
     (if events = [] then (h, Inr None)
      else if EvRescan \<in> set events then
        (h, Inr (Some \<lparr>sg_gen = stage_unchanged (h_store h), sg_events = [EvRescan], sg_created = [], sg_changed = [],
           sg_deleted = [], sg_rescan = True, sg_scope = None, sg_reconcile = True, sg_authored = None,
           sg_unsaved_insert = [], sg_unsaved_remove = []\<rparr>))
      else
        (case fold (poll_event (o_disk os) (h_unsaved h)) events ([], [], [], [], []) of
           (changes, kept, crs, chs, dls) \<Rightarrow>
             if kept = [] then (h, Inr None)
             else
               (case stage_head w changes h of (g, h') \<Rightarrow>
                  (h', Inr (Some \<lparr>sg_gen = g, sg_events = kept, sg_created = crs, sg_changed = chs,
                     sg_deleted = dls, sg_rescan = False, sg_scope = identity_scope_from_events w kept,
                     sg_reconcile = True, sg_authored = None, sg_unsaved_insert = [], sg_unsaved_remove = []\<rparr>)))))"

text \<open>The read of one path from disk, classified by the read and the database's interning.\<close>

definition classify_sync ::
  "('md, 'db) world \<Rightarrow> outside \<Rightarrow> 'db head \<Rightarrow> path
   \<Rightarrow> change \<times> change_event \<times> str list \<times> str list \<times> str list" where
  "classify_sync w os h p =
     (case os_read (o_disk os) p of
        Inr text \<Rightarrow>
          if w_try_system w (h_db h) (live_view os h) p \<noteq> Some True
          then (Insert p text, EvCreated p CreatedFile, [p], [], [])
          else (Insert p text, EvChanged p ChangedAny, [], [p], [])
      | Inl _ \<Rightarrow> (Delete p, EvDeleted p DeletedAny, [], [], [p]))"

definition sync_path_plan ::
  "('md, 'db) world \<Rightarrow> outside \<Rightarrow> path \<Rightarrow> 'db head \<Rightarrow> 'db head \<times> staged_commit" where
  "sync_path_plan w os p h =
     (case classify_sync w os h p of (change, event, crs, chs, dls) \<Rightarrow>
      (case stage_head w [change] h of (g, h') \<Rightarrow>
         let rescan = is_project_config_file p in
         (h', \<lparr>sg_gen = g, sg_events = [event], sg_created = crs, sg_changed = chs, sg_deleted = dls,
               sg_rescan = rescan, sg_scope = (if rescan then None else identity_scope_from_events w [event]),
               sg_reconcile = True, sg_authored = None, sg_unsaved_insert = [], sg_unsaved_remove = [p]\<rparr>)))"

definition author_plan ::
  "('md, 'db) world \<Rightarrow> str \<Rightarrow> str \<Rightarrow> json \<Rightarrow> 'db head \<Rightarrow> (commit_error, staged_commit) result" where
  "author_plan w layer i value h =
     (case authored_layer_config (h_config h) layer of
        None \<Rightarrow> Inl PyConfigError
      | Some lcfg \<Rightarrow>
          (case registry_get (h_registry h) (DurableId i) of
             None \<Rightarrow> Inl PyValueError
           | Some a \<Rightarrow>
               let version = \<lparr>av_value = value, av_revision = next_revision (h_store h),
                              av_reviewed_hash = Some (a_content_hash a)\<rparr>;
                   next_store = authored_put layer i version (l_history lcfg) (h_authored h)
               in (case records_get next_store layer i of
                     None \<Rightarrow> Inl Panicked
                   | Some rec \<Rightarrow>
                       (case doc_to_bytes (w_encode_doc w)
                               \<lparr>ad_format_version = authored_format_version, ad_layer = layer, ad_durable_id = i,
                                ad_current = ar_current rec, ad_history = ar_history rec\<rparr> of
                          Inl _ \<Rightarrow> Inl CommitFailed
                        | Inr bytes \<Rightarrow>
                            Inr \<lparr>sg_gen = stage_unchanged (h_store h), sg_events = [], sg_created = [], sg_changed = [],
                                 sg_deleted = [], sg_rescan = False, sg_scope = None, sg_reconcile = False,
                                 sg_authored = Some \<lparr>ap_next_store = next_store,
                                   ap_record_path = record_path (h_sidecar h) layer i, ap_bytes = bytes, ap_id = i\<rparr>,
                                 sg_unsaved_insert = [], sg_unsaved_remove = []\<rparr>))))"

fun build_plan ::
  "('md, 'db) world \<Rightarrow> outside \<Rightarrow> mutation \<Rightarrow> 'db head \<Rightarrow> 'db head \<times> (commit_error, staged_commit option) result" where
  "build_plan w os (Overlay changes events crs chs unsaved) h =
     (case stage_head w changes h of (g, h') \<Rightarrow>
        (h', Inr (Some \<lparr>sg_gen = g, sg_events = events, sg_created = crs, sg_changed = chs, sg_deleted = [],
           sg_rescan = False, sg_scope = identity_scope_from_events w events, sg_reconcile = True, sg_authored = None,
           sg_unsaved_insert = unsaved, sg_unsaved_remove = []\<rparr>)))"
| "build_plan w os (SyncPath p) h = (case sync_path_plan w os p h of (h', sg) \<Rightarrow> (h', Inr (Some sg)))"
| "build_plan w os SyncAll h =
     (case stage_reingest (w_xxh3 w) (o_disk os) (h_root h) (is_project_relevant (w_py_ext w)) (h_unsaved h) (h_store h) of
        (g, s) \<Rightarrow>
        (h\<lparr>h_store := s\<rparr>, Inr (Some \<lparr>sg_gen = g, sg_events = [EvRescan], sg_created = [], sg_changed = [],
           sg_deleted = [], sg_rescan = True, sg_scope = None, sg_reconcile = True, sg_authored = None,
           sg_unsaved_insert = [], sg_unsaved_remove = []\<rparr>)))"
| "build_plan w os (Author layer i value) h =
     (case author_plan w layer i value h of Inl e \<Rightarrow> (h, Inl e) | Inr sg \<Rightarrow> (h, Inr (Some sg)))"
| "build_plan w os (Poll events) h = build_poll_plan w os events h"

section \<open>The staged transaction\<close>

definition check_fault :: "str option \<Rightarrow> str \<Rightarrow> (commit_error, unit) result" where
  "check_fault armed stg =
     (if armed = Some stg
      then (if stg = ''identity_persist'' \<or> stg = ''authored_persist'' then Inl SidecarWriteError else Inl CommitFailed)
      else Inr ())"

text \<open>A sidecar write of the head: its result, and the head with the disk as the write leaves it.\<close>

definition write_sidecar :: "outside \<Rightarrow> path \<Rightarrow> bytes \<Rightarrow> 'db head \<Rightarrow> 'db head \<times> (commit_error, unit) result" where
  "write_sidecar os p bytes h =
     (case write_atomic (o_io os) p bytes (h_disk h) of
        (res, d) \<Rightarrow> (h\<lparr>h_disk := d\<rparr>, case res of Inl _ \<Rightarrow> Inl SidecarWriteError | Inr _ \<Rightarrow> Inr ()))"

definition persist_identity :: "('md, 'db) world \<Rightarrow> outside \<Rightarrow> 'db head \<Rightarrow> 'db head \<times> (commit_error, unit) result" where
  "persist_identity w os h =
     (case to_bytes (w_to_vec_pretty w) (h_registry h) of
        Inl _ \<Rightarrow> (h, Inl CommitFailed)
      | Inr bytes \<Rightarrow> write_sidecar os (identity_db_path (h_sidecar h)) bytes h)"

definition rollback :: "baseline \<Rightarrow> 'db head \<Rightarrow> 'db head" where
  "rollback base h =
     h\<lparr>h_system := publish (h_system h) (bl_published_gen base), h_registry := bl_registry base,
       h_authored := bl_authored base, h_code_layer := bl_code_layer base\<rparr>"

text \<open>What a read clone offers the analysis: the checker's answers and the head's registry and policies.\<close>

definition read_view ::
  "('md, 'db) world \<Rightarrow> 'db \<Rightarrow> overlay_system \<Rightarrow> path \<Rightarrow> identity_registry \<Rightarrow> (str, hash_policy) hash_map \<Rightarrow> str \<Rightarrow> read_state" where
  "read_view w db ov root registry policies default_profile =
     \<lparr>rs_checker = w_checker w db ov, rs_ide = w_ide w db ov, rs_root = root, rs_registry = registry,
      rs_hash_policies = policies, rs_default_hash_profile = default_profile, rs_xxh3 = w_xxh3 w, rs_py_ext = w_py_ext w\<rparr>"

text \<open>The engine over the head's state, as the read clone hands it to the producer.\<close>

definition head_engine :: "('md, 'db) world \<Rightarrow> outside \<Rightarrow> 'db head \<Rightarrow> engine" where
  "head_engine w os h =
     analysis_engine (read_view w (h_db h) (live_view os h) (h_root h) (h_registry h) (h_hash_policies h) (h_default_hash_profile h))"

definition produce_layer ::
  "('md, 'db) world \<Rightarrow> outside \<Rightarrow> 'db head \<Rightarrow> staged_commit \<Rightarrow> revision \<Rightarrow> code_layer \<times> code_delta" where
  "produce_layer w os h sg next_rev =
     (let dirty = map_option (\<lambda>s. remdups (List.map_filter (native_to_graph (h_root h)) s)) (sg_scope sg)
      in (case dirty of
            Some d \<Rightarrow>
              if \<not> sg_rescan sg \<and> \<not> layer_is_empty (h_code_layer h)
              then produce_code_delta_scoped (head_engine w os h) (h_code_layer h) d next_rev
              else produce_code_delta (head_engine w os h) code_layer_new next_rev (sg_rescan sg)
          | None \<Rightarrow> produce_code_delta (head_engine w os h) code_layer_new next_rev (sg_rescan sg)))"

definition affected_files_of :: "code_layer \<Rightarrow> str list \<Rightarrow> str list" where
  "affected_files_of l ids =
     fold bs_insert (filter (\<lambda>f. f \<noteq> external_marker)
       (map n_file (List.map_filter (map_of (nodes l)) ids))) []"

text \<open>Steps three to five: reconcile, produce the layer, persist the registry.\<close>

definition stage_identity ::
  "('md, 'db) world \<Rightarrow> outside \<Rightarrow> staged_commit \<Rightarrow> str option \<Rightarrow> 'db head
   \<Rightarrow> 'db head \<times> (commit_error, identity_delta) result" where
  "stage_identity w os sg armed h =
     (if \<not> sg_reconcile sg then (h, Inr identity_delta_default)
      else
        (case run_identity_reconciliation w os (sg_scope sg) (next_revision (h_store h)) h of
           None \<Rightarrow> (h, Inl Panicked)
         | Some (h1, identity) \<Rightarrow>
             let prev = h_code_layer h1;
                 l = fst (produce_layer w os h1 sg (next_revision (h_store h)));
                 seeds = fold bs_insert (idl_changed_ids identity @ idl_deleted_ids identity) [];
                 gone = fold bs_insert (idl_deleted_ids identity) [];
                 affected = affected_closure_with_deleted l prev seeds gone;
                 identity' = identity\<lparr>idl_affected_ids := affected, idl_affected_files := affected_files_of l affected\<rparr>;
                 h2 = h1\<lparr>h_code_layer := l\<rparr>
             in (case check_fault armed ''code_layer'' of
                   Inl e \<Rightarrow> (h2, Inl e)
                 | Inr _ \<Rightarrow>
                     (case check_fault armed ''identity_persist'' of
                        Inl e \<Rightarrow> (h2, Inl e)
                      | Inr _ \<Rightarrow>
                          (case persist_identity w os h2 of
                             (h3, Inl e) \<Rightarrow> (h3, Inl e)
                           | (h3, Inr _) \<Rightarrow> (h3, Inr identity'))))))"

text \<open>Step six.\<close>

definition stage_authored ::
  "outside \<Rightarrow> staged_commit \<Rightarrow> str option \<Rightarrow> 'db head \<Rightarrow> 'db head \<times> (commit_error, unit) result" where
  "stage_authored os sg armed h =
     (case sg_authored sg of
        None \<Rightarrow> (h, Inr ())
      | Some ap \<Rightarrow>
          (case check_fault armed ''authored_persist'' of
             Inl e \<Rightarrow> (h, Inl e)
           | Inr _ \<Rightarrow> write_sidecar os (ap_record_path ap) (ap_bytes ap) h))"

text \<open>Steps seven and eight: nothing can fail any more.\<close>

definition publish_tail ::
  "staged_commit \<Rightarrow> identity_delta \<Rightarrow> bool \<Rightarrow> bool \<Rightarrow> 'db head \<Rightarrow> 'db head \<times> commit_delta" where
  "publish_tail sg identity project_changed custom_stdlib_changed h =
     (case publish_staged (sg_gen sg) (h_store h) of
        (s, rv) \<Rightarrow>
        let h1 = h\<lparr>h_store := s\<rparr>;
            h2 = (case sg_authored sg of None \<Rightarrow> h1 | Some ap \<Rightarrow> h1\<lparr>h_authored := ap_next_store ap\<rparr>);
            authored_ids = (case sg_authored sg of None \<Rightarrow> [] | Some ap \<Rightarrow> [ap_id ap]);
            h3 = h2\<lparr>h_unsaved := (h_unsaved h2 \<union> set (sg_unsaved_insert sg)) - set (sg_unsaved_remove sg)\<rparr>;
            delta = build_commit_delta rv (h_root h) (sg_created sg) (sg_changed sg) (sg_deleted sg) identity
                      (sg_rescan sg) project_changed custom_stdlib_changed
        in (h3, if authored_ids \<noteq> [] then delta\<lparr>cm_authored_ids := authored_ids\<rparr> else delta))"

text \<open>Step two: the database is left alone when there is no event.\<close>

definition apply_engine ::
  "('md, 'db) world \<Rightarrow> outside \<Rightarrow> staged_commit \<Rightarrow> 'db head \<Rightarrow> 'db head \<times> bool \<times> bool" where
  "apply_engine w os sg h =
     (if sg_events sg = [] then (h, False, False)
      else (case w_apply_changes w (sg_events sg) (live_view os h) (h_db h) of
              (db, project_changed, custom) \<Rightarrow> (h\<lparr>h_db := db\<rparr>, project_changed, custom)))"

definition run_staged ::
  "('md, 'db) world \<Rightarrow> outside \<Rightarrow> staged_commit \<Rightarrow> str option \<Rightarrow> 'db head
   \<Rightarrow> 'db head \<times> (commit_error, commit_delta) result" where
  "run_staged w os sg armed h =
     (case apply_engine w os sg (h\<lparr>h_system := publish (h_system h) (sg_gen sg)\<rparr>) of
        (h1, project_changed, custom) \<Rightarrow>
        (case stage_identity w os sg armed h1 of
           (h2, Inl e) \<Rightarrow> (h2, Inl e)
         | (h2, Inr identity) \<Rightarrow>
             (case stage_authored os sg armed h2 of
                (h3, Inl e) \<Rightarrow> (h3, Inl e)
              | (h3, Inr _) \<Rightarrow>
                  (case publish_tail sg identity project_changed custom h3 of
                     (h4, delta) \<Rightarrow> (h4, Inr delta)))))"

definition commit ::
  "('md, 'db) world \<Rightarrow> outside \<Rightarrow> mutation \<Rightarrow> 'db head \<Rightarrow> 'db head \<times> (commit_error, commit_delta option) result" where
  "commit w os m h =
     (case build_plan w os m h of
        (h1, Inl e) \<Rightarrow> (h1, Inl e)
      | (h1, Inr None) \<Rightarrow> (h1, Inr None)
      | (h1, Inr (Some sg)) \<Rightarrow>
          let base = \<lparr>bl_published_gen = capture (h_store h1), bl_registry = h_registry h1,
                      bl_authored = h_authored h1, bl_code_layer = h_code_layer h1\<rparr>
          in (case run_staged w os sg (h_armed h1) (h1\<lparr>h_armed := None\<rparr>) of
                (h2, Inr delta) \<Rightarrow> (h2, Inr (Some delta))
              | (h2, Inl e) \<Rightarrow> (rollback base h2, Inl e)))"

section \<open>What staging may touch\<close>

text \<open>
  Before the publish tail a commit works on the database, the registry, the code layer, the
  sidecar's disk and the identifier source; the store, the published overlay, the authored
  records, the unsaved set and the configuration stay as they are.
\<close>

definition staging :: "'db head \<Rightarrow> 'db head \<Rightarrow> bool" where
  "staging h h' \<longleftrightarrow>
     h_root h' = h_root h \<and> h_store h' = h_store h \<and> h_system h' = h_system h \<and>
     h_hash_policy h' = h_hash_policy h \<and> h_hash_policies h' = h_hash_policies h \<and>
     h_default_hash_profile h' = h_default_hash_profile h \<and> h_config h' = h_config h \<and>
     h_sidecar h' = h_sidecar h \<and> h_authored h' = h_authored h \<and> h_unsaved h' = h_unsaved h \<and> h_armed h' = h_armed h"

lemma staging_refl [simp]: "staging h h"
  by (simp add: staging_def)

lemma staging_trans: "staging a b \<Longrightarrow> staging b c \<Longrightarrow> staging a c"
  by (simp add: staging_def)

lemma staging_eq:
  "staging h h' \<Longrightarrow>
     h' = h\<lparr>h_db := h_db h', h_registry := h_registry h', h_code_layer := h_code_layer h', h_disk := h_disk h',
            h_mints := h_mints h'\<rparr>"
  by (cases h; cases h') (simp add: staging_def)

lemma staging_upd [simp]:
  "staging h (h\<lparr>h_db := db\<rparr>)" "staging h (h\<lparr>h_disk := d\<rparr>)" "staging h (h\<lparr>h_code_layer := l\<rparr>)"
  "staging h (h\<lparr>h_registry := r, h_mints := n\<rparr>)"
  by (simp_all add: staging_def)

lemma staging_fields:
  assumes "staging h h'"
  shows "h_store h' = h_store h" "h_system h' = h_system h" "h_root h' = h_root h" "h_sidecar h' = h_sidecar h"
    "h_unsaved h' = h_unsaved h" "h_authored h' = h_authored h" "h_config h' = h_config h" "h_armed h' = h_armed h"
  using assms by (auto simp: staging_def)

locale staged_step =
  fixes run :: "'x \<Rightarrow> 'db head \<Rightarrow> 'db head \<times> 'r"
  assumes run_stages: "staging h (fst (run x h))"
begin

lemma run_after: "staging h0 h \<Longrightarrow> run x h = (h', r) \<Longrightarrow> staging h0 h'"
  using run_stages [of h x] staging_trans by fastforce

lemma run_fields:
  assumes "run x h = (h', r)"
  shows "staging h h'" "h_store h' = h_store h" "h_system h' = h_system h"
  using run_after [OF staging_refl assms] staging_fields by auto

end

lemma write_sidecar_stages: "staging h (fst (write_sidecar os p bytes h))"
  by (simp add: write_sidecar_def split: prod.splits)

lemma persist_stages: "staging h (fst (persist_identity w os h))"
  by (simp add: persist_identity_def write_sidecar_stages split: sum.splits)

lemma reconciliation_stages:
  "run_identity_reconciliation w os scope rv h = Some (h', idl) \<Longrightarrow> staging h h'"
  by (auto simp: run_identity_reconciliation_def Let_def bind_eq_Some_conv split: option.splits prod.splits)

lemma stage_identity_stages: "staging h (fst (stage_identity w os sg armed h))"
proof (cases "run_identity_reconciliation w os (sg_scope sg) (next_revision (h_store h)) h")
  case (Some r)
  obtain h1 idl where r: "r = (h1, idl)" by fastforce
  let ?h2 = "h1\<lparr>h_code_layer := fst (produce_layer w os h1 sg (next_revision (h_store h)))\<rparr>"
  have h2: "staging h ?h2"
    by (rule staging_trans [OF reconciliation_stages [OF Some [unfolded r]]]) simp
  have h3: "staging h (fst (persist_identity w os ?h2))" by (rule staging_trans [OF h2 persist_stages])
  then show ?thesis
    using h2 by (auto simp: stage_identity_def Some r Let_def split: sum.splits prod.splits)
qed (simp add: stage_identity_def)

interpretation engine_step: staged_step "\<lambda>(w, os, sg). apply_engine w os sg"
  by unfold_locales (auto simp: apply_engine_def split: prod.splits)

interpretation identity_step: staged_step "\<lambda>(w, os, sg, armed). stage_identity w os sg armed"
  by unfold_locales (auto simp: stage_identity_stages)

interpretation authored_step: staged_step "\<lambda>(os, sg, armed). stage_authored os sg armed"
  by unfold_locales (auto simp: stage_authored_def write_sidecar_stages split: option.splits sum.splits)

section \<open>The sidecar during a commit\<close>

text \<open>\<open>kept d d'\<close>: every file that is not a temporary one is as it was.\<close>

definition kept :: "disk \<Rightarrow> disk \<Rightarrow> bool" where
  "kept d d' \<longleftrightarrow> (\<forall>p. \<not> temp_file p \<longrightarrow> d' p = d p)"

lemma kept_refl [simp]: "kept d d"
  by (simp add: kept_def)

lemma write_sidecar_disk:
  assumes "write_sidecar os p bytes h = (h', res)" "sidecar_file p"
  shows "res = Inr () \<or> res = Inl SidecarWriteError"
    "res \<noteq> Inr () \<Longrightarrow> kept (h_disk h) (h_disk h')"
    "res = Inr () \<Longrightarrow> h_disk h' p = Some bytes \<and> (\<forall>q. q \<noteq> p \<and> \<not> temp_file q \<longrightarrow> h_disk h' q = h_disk h q)"
proof -
  obtain r d where w: "write_atomic (o_io os) p bytes (h_disk h) = (r, d)" by fastforce
  with assms(1) have h': "h' = h\<lparr>h_disk := d\<rparr>" "res = (case r of Inl _ \<Rightarrow> Inl SidecarWriteError | Inr _ \<Rightarrow> Inr ())"
    by (auto simp: write_sidecar_def)
  show "res = Inr () \<or> res = Inl SidecarWriteError" using h'(2) by (cases r) auto
  have tmp: "temp_file (with_extension p ''tmp'')" "with_extension p ''tmp'' \<noteq> p"
    using sidecar_file_tmp sidecar_not_temp assms(2) by metis+
  note res = write_atomic_result [OF w]
  show "res \<noteq> Inr () \<Longrightarrow> kept (h_disk h) (h_disk h')"
    using h' res tmp by (cases r) (auto simp: kept_def)
  show "res = Inr () \<Longrightarrow> h_disk h' p = Some bytes \<and> (\<forall>q. q \<noteq> p \<and> \<not> temp_file q \<longrightarrow> h_disk h' q = h_disk h q)"
    using h' res tmp by (cases r) auto
qed

end
