(* ===== verification/Transaction.thy ===== *)
theory Transaction
  imports Commit
begin

text \<open>
  The laws of the commit funnel: a plan leaves everything observable alone, a failed
  transaction rolls back to the published state, and a transaction whose steps succeed
  publishes exactly its plan, last.
\<close>

section \<open>Plans\<close>

text \<open>A store that has only counted: document versions drawn and files read, nothing published.\<close>

definition counted :: "content_store \<Rightarrow> content_store \<Rightarrow> bool" where
  "counted s s' \<longleftrightarrow> (\<exists>vc n. s' = s\<lparr>version_counter := vc, disk_reads := n\<rparr>)"

lemma counted_refl [simp]: "counted s s"
proof -
  have "s = s\<lparr>version_counter := version_counter s, disk_reads := disk_reads s\<rparr>" by simp
  then show ?thesis unfolding counted_def by blast
qed

lemma counted_fields:
  "counted s s' \<Longrightarrow> generation s' = generation s \<and> revision s' = revision s \<and> retained s' = retained s
     \<and> retain_cap s' = retain_cap s"
  by (auto simp: counted_def)

lemma stage_counted: "stage xxh3 cs s = (g, s') \<Longrightarrow> counted s s'"
proof (erule stage_store)
  fix vc assume "s' = s\<lparr>version_counter := vc\<rparr>"
  then have "s' = s\<lparr>version_counter := vc, disk_reads := disk_reads s\<rparr>" by simp
  then show ?thesis unfolding counted_def by blast
qed

lemma reingest_counted:
  assumes "stage_reingest xxh3 os root relevant skip s = (g, s')"
  shows "counted s s'"
proof -
  obtain cs s1 where rd: "read_disk_changes os (filter (\<lambda>p. p \<notin> skip) (walk_relevant_files os root relevant)) s
      = (cs, s1)" by fastforce
  with assms have st: "stage xxh3 cs s1 = (g, s')" by (simp add: stage_reingest_def)
  obtain n where "s1 = s\<lparr>disk_reads := n\<rparr>" using read_disk_changes_store [OF rd] by blast
  moreover obtain vc where "s' = s1\<lparr>version_counter := vc\<rparr>" using stage_store [OF st] by blast
  ultimately have "s' = s\<lparr>version_counter := vc, disk_reads := n\<rparr>" by simp
  then show ?thesis unfolding counted_def by blast
qed

text \<open>What every plan guarantees of its staged commit.\<close>

definition plan_ok :: "staged_commit \<Rightarrow> bool" where
  "plan_ok sg \<longleftrightarrow>
     (sg_reconcile sg \<longrightarrow> sg_authored sg = None) \<and>
     (\<forall>ap. sg_authored sg = Some ap \<longrightarrow> sidecar_file (ap_record_path ap))"

lemma stage_head_eq: "stage_head w cs h = (g, h') \<longleftrightarrow> (\<exists>s. stage (w_xxh3 w) cs (h_store h) = (g, s) \<and> h' = h\<lparr>h_store := s\<rparr>)"
  by (auto simp: stage_head_def split: prod.splits)

lemma author_plan_ok: "author_plan w layer i v h = Inr sg \<Longrightarrow> plan_ok sg \<and> \<not> sg_reconcile sg \<and> sg_gen sg = generation (h_store h)"
  by (auto simp: author_plan_def Let_def plan_ok_def stage_unchanged_def split: option.splits sum.splits)

lemma build_plan_head:
  assumes "build_plan w os m h = (h1, res)"
  shows "\<exists>s. h1 = h\<lparr>h_store := s\<rparr> \<and> counted (h_store h) s"
proof -
  have same: "\<exists>s. h = h\<lparr>h_store := s\<rparr> \<and> counted (h_store h) s" by (rule exI [of _ "h_store h"]) simp
  show ?thesis
  proof (cases m)
    case (Overlay cs evs crs chs uns)
    obtain g h' where "stage_head w cs h = (g, h')" by fastforce
    with assms Overlay stage_counted show ?thesis by (auto simp: stage_head_eq)
  next
    case (SyncPath p)
    then show ?thesis
      using assms stage_counted by (auto simp: sync_path_plan_def Let_def stage_head_eq split: prod.splits)
  next
    case SyncAll
    then show ?thesis using assms reingest_counted by (auto split: prod.splits)
  next
    case (Author layer i v)
    then show ?thesis using assms same by (auto split: sum.splits)
  next
    case (Poll evs)
    then show ?thesis using assms stage_counted same
      by (auto simp: build_poll_plan_def stage_head_eq split: prod.splits if_splits)
  qed
qed

lemma build_plan_ok:
  assumes "build_plan w os m h = (h1, Inr (Some sg))"
  shows "plan_ok sg"
proof (cases m)
  case (Author layer i v)
  with assms have "author_plan w layer i v h = Inr sg" by (auto split: sum.splits)
  from author_plan_ok [OF this] show ?thesis by simp
qed (use assms in \<open>auto simp: plan_ok_def sync_path_plan_def Let_def build_poll_plan_def split: prod.splits if_splits\<close>)

lemma build_plan_noop: "build_plan w os m h = (h1, Inr None) \<Longrightarrow> h1 = h \<and> (\<exists>evs. m = Poll evs)"
  by (cases m) (auto simp: sync_path_plan_def Let_def build_poll_plan_def split: prod.splits if_splits sum.splits)

section \<open>The steps of the transaction\<close>

lemma scope_entities_total: "\<exists>es. scope_entities w db ov policy scope = Some es"
  using extract_total by (auto simp: scope_entities_def extract_entities_def split: option.splits)

lemma reconciliation_run:
  obtains es registry rc mints idl where
    "scope_entities w (h_db h) (live_view os h) (h_hash_policy h) scope = Some es"
    "reconcile_impl (w_mint w) (h_registry h) es rv (map_option set scope) (h_mints h) = Some (registry, rc, mints)"
    "run_identity_reconciliation w os scope rv h = Some (h\<lparr>h_registry := registry, h_mints := mints\<rparr>, idl)"
    "idl_created_ids idl = map id_str (created (classify rc es))" "idl_changed_ids idl = map id_str (changed (classify rc es))"
    "idl_deleted_ids idl = map id_str (deleted (classify rc es))" "idl_moved idl = map moved_entity (moved (classify rc es))"
proof -
  obtain es where es: "scope_entities w (h_db h) (live_view os h) (h_hash_policy h) scope = Some es"
    using scope_entities_total [of w "h_db h" "live_view os h" "h_hash_policy h" scope] by auto
  obtain registry rc mints where r:
    "reconcile_impl (w_mint w) (h_registry h) es rv (map_option set scope) (h_mints h) = Some (registry, rc, mints)"
    using reconcile_total [of "w_mint w" "h_registry h" es rv "map_option set scope" "h_mints h"] by auto
  then have "\<exists>idl. run_identity_reconciliation w os scope rv h = Some (h\<lparr>h_registry := registry, h_mints := mints\<rparr>, idl)
      \<and> idl_created_ids idl = map id_str (created (classify rc es)) \<and> idl_changed_ids idl = map id_str (changed (classify rc es))
      \<and> idl_deleted_ids idl = map id_str (deleted (classify rc es)) \<and> idl_moved idl = map moved_entity (moved (classify rc es))"
    by (cases scope) (use es in \<open>simp_all add: run_identity_reconciliation_def reconcile_def reconcile_scoped_def Let_def\<close>)
  then show ?thesis using that es r by blast
qed

lemma produce_layer_produced:
  "produced (h_code_layer h) \<Longrightarrow> produced (fst (produce_layer w os h sg rv))"
  by (auto simp: produce_layer_def Let_def intro: produced_full produced_scoped split: option.splits)

text \<open>A failing identity step has changed no file but temporary ones; a succeeding one has saved the registry.\<close>

lemma persist_identity_disk:
  assumes "persist_identity w os h = (h', res)"
  shows "h_registry h' = h_registry h \<and> h_code_layer h' = h_code_layer h"
    "res \<noteq> Inr () \<Longrightarrow> kept (h_disk h) (h_disk h')"
    "res = Inr () \<Longrightarrow> \<exists>bytes. to_bytes (w_to_vec_pretty w) (h_registry h) = Inr bytes
       \<and> h_disk h' (identity_db_path (h_sidecar h)) = Some bytes
       \<and> (\<forall>q. q \<noteq> identity_db_path (h_sidecar h) \<and> \<not> temp_file q \<longrightarrow> h_disk h' q = h_disk h q)"
proof -
  show "h_registry h' = h_registry h \<and> h_code_layer h' = h_code_layer h"
    using assms by (auto simp: persist_identity_def write_sidecar_def split: sum.splits prod.splits)
  show "res \<noteq> Inr () \<Longrightarrow> kept (h_disk h) (h_disk h')"
    using assms write_sidecar_disk(2) [OF _ sidecar_files(1)]
    by (auto simp: persist_identity_def split: sum.splits)
  assume "res = Inr ()"
  with assms obtain bytes where b: "to_bytes (w_to_vec_pretty w) (h_registry h) = Inr bytes"
    "write_sidecar os (identity_db_path (h_sidecar h)) bytes h = (h', Inr ())"
    by (auto simp: persist_identity_def split: sum.splits)
  with write_sidecar_disk(3) [OF b(2) sidecar_files(1) refl]
  show "\<exists>bytes. to_bytes (w_to_vec_pretty w) (h_registry h) = Inr bytes
       \<and> h_disk h' (identity_db_path (h_sidecar h)) = Some bytes
       \<and> (\<forall>q. q \<noteq> identity_db_path (h_sidecar h) \<and> \<not> temp_file q \<longrightarrow> h_disk h' q = h_disk h q)"
    by blast
qed

lemma stage_identity_result:
  assumes run: "stage_identity w os sg armed h = (h', res)"
  shows stage_identity_fails: "res = Inl e \<Longrightarrow> kept (h_disk h) (h_disk h')"
    and stage_identity_saves: "res = Inr idl \<Longrightarrow> sg_reconcile sg \<Longrightarrow>
      \<exists>bytes. to_bytes (w_to_vec_pretty w) (h_registry h') = Inr bytes
        \<and> h_disk h' (identity_db_path (h_sidecar h)) = Some bytes"
    and stage_identity_registry: "index_sound (h_registry h) \<Longrightarrow> index_sound (h_registry h')"
    and stage_identity_layer: "produced (h_code_layer h) \<Longrightarrow> produced (h_code_layer h')"
    and stage_identity_skip: "\<not> sg_reconcile sg \<Longrightarrow> h' = h"
proof -
  let ?rv = "next_revision (h_store h)"
  obtain es registry rc mints idl' where
    "scope_entities w (h_db h) (live_view os h) (h_hash_policy h) (sg_scope sg) = Some es" and r:
    "reconcile_impl (w_mint w) (h_registry h) es ?rv
       (map_option set (sg_scope sg)) (h_mints h) = Some (registry, rc, mints)"
    "run_identity_reconciliation w os (sg_scope sg) ?rv h = Some (h\<lparr>h_registry := registry, h_mints := mints\<rparr>, idl')"
    by (rule reconciliation_run)
  define h1 where "h1 = h\<lparr>h_registry := registry, h_mints := mints\<rparr>"
  define h2 where "h2 = h1\<lparr>h_code_layer := fst (produce_layer w os h1 sg ?rv)\<rparr>"
  obtain h3 r3 where p: "persist_identity w os h2 = (h3, r3)" by fastforce
  note h3 = persist_identity_disk [OF p]
  have h2: "h_disk h2 = h_disk h" "h_sidecar h2 = h_sidecar h" "h_registry h2 = registry" by (simp_all add: h2_def h1_def)
  have cases: "(h' = h2 \<and> (\<exists>e. res = Inl e)) \<or> (h' = h3 \<and> ((\<exists>e. r3 = Inl e \<and> res = Inl e) \<or> (r3 = Inr () \<and> (\<exists>idl. res = Inr idl))))"
    if "sg_reconcile sg"
    using run that p
    by (auto simp: stage_identity_def r(2) Let_def h1_def [symmetric] h2_def [symmetric] split: sum.splits)
  show "res = Inl e \<Longrightarrow> kept (h_disk h) (h_disk h')"
    using cases h3(2) h2 run by (cases "sg_reconcile sg") (auto simp: stage_identity_def)
  show "\<not> sg_reconcile sg \<Longrightarrow> h' = h" using run by (simp add: stage_identity_def)
  have reg: "h_registry h3 = h_registry h2" "h_code_layer h3 = h_code_layer h2"
    using h3(1) by simp_all
  show "res = Inr idl \<Longrightarrow> sg_reconcile sg \<Longrightarrow>
      \<exists>bytes. to_bytes (w_to_vec_pretty w) (h_registry h') = Inr bytes
        \<and> h_disk h' (identity_db_path (h_sidecar h)) = Some bytes"
    using cases h3(3) h2 reg by auto
  show "index_sound (h_registry h) \<Longrightarrow> index_sound (h_registry h')"
    using cases run reconcile_sound [OF r(1)] h2(3) reg by (cases "sg_reconcile sg") (auto simp: stage_identity_def)
  have "produced (h_code_layer h) \<Longrightarrow> produced (h_code_layer h2)"
    using produce_layer_produced [of h1 w os sg ?rv] by (simp add: h2_def h1_def)
  then show "produced (h_code_layer h) \<Longrightarrow> produced (h_code_layer h')"
    using cases run reg by (cases "sg_reconcile sg") (auto simp: stage_identity_def)
qed

lemma stage_authored_result:
  assumes "stage_authored os sg armed h = (h', res)" "plan_ok sg"
  shows stage_authored_fails: "res = Inl e \<Longrightarrow> kept (h_disk h) (h_disk h')"
    and stage_authored_saves: "res = Inr () \<Longrightarrow> sg_authored sg = Some ap \<Longrightarrow> h_disk h' (ap_record_path ap) = Some (ap_bytes ap)"
    and stage_authored_fields: "h_registry h' = h_registry h \<and> h_code_layer h' = h_code_layer h"
    and stage_authored_skip: "sg_authored sg = None \<Longrightarrow> h' = h \<and> res = Inr ()"
proof -
  have w: "write_sidecar os (ap_record_path ap) (ap_bytes ap) h = (h', res)"
    if "sg_authored sg = Some ap" "res = Inr () \<or> h' \<noteq> h" for ap
    using assms(1) that by (auto simp: stage_authored_def split: sum.splits)
  have path: "sidecar_file (ap_record_path ap)" if "sg_authored sg = Some ap" for ap
    using assms(2) that by (simp add: plan_ok_def)
  show none: "sg_authored sg = None \<Longrightarrow> h' = h \<and> res = Inr ()" using assms(1) by (simp add: stage_authored_def)
  show "res = Inl e \<Longrightarrow> kept (h_disk h) (h_disk h')"
    using none w write_sidecar_disk(2) [OF w path] by (cases "sg_authored sg"; cases "h' = h") auto
  show "res = Inr () \<Longrightarrow> sg_authored sg = Some ap \<Longrightarrow> h_disk h' (ap_record_path ap) = Some (ap_bytes ap)"
    using write_sidecar_disk(3) [OF w path] by blast
  show "h_registry h' = h_registry h \<and> h_code_layer h' = h_code_layer h"
    using assms(1) by (auto simp: stage_authored_def write_sidecar_def split: option.splits sum.splits prod.splits)
qed

lemma apply_engine_fields:
  "apply_engine w os sg h = (h', pc, cs) \<Longrightarrow>
     h_registry h' = h_registry h \<and> h_code_layer h' = h_code_layer h \<and> h_disk h' = h_disk h \<and> h_mints h' = h_mints h"
  by (auto simp: apply_engine_def split: if_splits prod.splits)

section \<open>Failure\<close>

lemma run_staged_error:
  assumes "run_staged w os sg armed h = (h', Inl e)" "plan_ok sg"
  shows "staging (h\<lparr>h_system := publish (h_system h) (sg_gen sg)\<rparr>) h' \<and> kept (h_disk h) (h_disk h')"
proof -
  let ?h0 = "h\<lparr>h_system := publish (h_system h) (sg_gen sg)\<rparr>"
  obtain h1 pc cs where e: "apply_engine w os sg ?h0 = (h1, pc, cs)" by (metis prod_cases3)
  obtain h2 r2 where i: "stage_identity w os sg armed h1 = (h2, r2)" by fastforce
  have s1: "staging ?h0 h1" using engine_step.run_fields(1) [of "(w, os, sg)" ?h0 h1] e by simp
  have s2: "staging ?h0 h2" using identity_step.run_after [of ?h0 h1 "(w, os, sg, armed)" h2] s1 i by simp
  have d1: "h_disk h1 = h_disk h" using apply_engine_fields [OF e] by simp
  show ?thesis
  proof (cases r2)
    case (Inl e2)
    with assms(1) e i have "h' = h2" by (simp add: run_staged_def)
    with s2 stage_identity_fails [OF i Inl] d1 show ?thesis by simp
  next
    case (Inr idl)
    obtain h3 r3 where a: "stage_authored os sg armed h2 = (h3, r3)" by fastforce
    with assms(1) e i Inr have h': "h' = h3" "r3 = Inl e" by (auto simp: run_staged_def split: sum.splits prod.splits)
    then have "sg_authored sg \<noteq> None" using stage_authored_skip [OF a assms(2)] by auto
    then have "h2 = h1" using assms(2) stage_identity_skip [OF i] by (auto simp: plan_ok_def)
    moreover have "staging ?h0 h3" using authored_step.run_after [of ?h0 h2 "(os, sg, armed)" h3] s2 a by simp
    ultimately show ?thesis using stage_authored_fails [OF a assms(2) h'(2)] h'(1) d1 by simp
  qed
qed

lemma commit_error_state:
  assumes "content (h_system h) = generation (h_store h)" "commit w os m h = (h', Inl e)"
  shows "h' = h\<lparr>h_db := h_db h', h_store := h_store h', h_armed := h_armed h', h_disk := h_disk h', h_mints := h_mints h'\<rparr>
    \<and> h_store h' = (h_store h)\<lparr>version_counter := version_counter (h_store h'), disk_reads := disk_reads (h_store h')\<rparr>
    \<and> (\<forall>p. \<not> temp_file p \<longrightarrow> h_disk h' p = h_disk h p)"
proof -
  obtain h1 res where b: "build_plan w os m h = (h1, res)" by fastforce
  obtain s where h1: "h1 = h\<lparr>h_store := s\<rparr>" and s: "counted (h_store h) s" using build_plan_head [OF b] by blast
  have s': "s = (h_store h)\<lparr>version_counter := version_counter s, disk_reads := disk_reads s\<rparr>"
    using s by (auto simp: counted_def)
  show ?thesis
  proof (cases res)
    case (Inl e')
    with assms(2) b have "h' = h1" by (simp add: commit_def)
    with h1 s' show ?thesis by simp
  next
    case (Inr p)
    with assms(2) b obtain sg where p: "p = Some sg" by (cases p) (auto simp: commit_def)
    let ?h0 = "h1\<lparr>h_armed := None\<rparr>"
    obtain h2 where r: "run_staged w os sg (h_armed h1) ?h0 = (h2, Inl e)"
      and h': "h' = rollback \<lparr>bl_published_gen = capture s, bl_registry = h_registry h, bl_authored = h_authored h,
        bl_code_layer = h_code_layer h\<rparr> h2"
      using assms(2) b Inr p h1 by (auto simp: commit_def Let_def split: sum.splits prod.splits)
    have ok: "plan_ok sg" using build_plan_ok b Inr p by blast
    note st = run_staged_error [OF r ok]
    have "h2 = ?h0\<lparr>h_system := publish (h_system h) (sg_gen sg), h_db := h_db h2, h_registry := h_registry h2,
        h_code_layer := h_code_layer h2, h_disk := h_disk h2, h_mints := h_mints h2\<rparr>"
      using staging_eq [OF conjunct1 [OF st]] h1 by simp
    moreover have "publish (publish (h_system h) (sg_gen sg)) (generation s) = h_system h"
      using assms(1) counted_fields [OF s] by (simp add: publish_def)
    ultimately have "h' = h\<lparr>h_store := s, h_armed := None, h_db := h_db h2, h_disk := h_disk h2, h_mints := h_mints h2\<rparr>"
      unfolding h' rollback_def by (cases h; cases h2) (auto simp: capture_def h1)
    with s' conjunct2 [OF st] h1 show ?thesis by (simp add: kept_def)
  qed
qed

text \<open>
  C1.  A failed commit is invisible.  Whatever kind of write fails, at whatever step, the
  revision, the published and every retained generation, the live overlay, the registry, the
  authored records, the code layer, the unsaved buffers and the configuration are as they
  were before, and no sidecar file has changed but temporary ones.  What may differ is the
  type checker's database, the counters of the store and of the identifier source, and the
  test fault, which a commit consumes.
\<close>

theorem commit_rolls_back:
  assumes "content (h_system h) = generation (h_store h)" "commit w os m h = (h', Inl e)"
  shows "h' = h\<lparr>h_db := h_db h', h_store := h_store h', h_armed := h_armed h', h_disk := h_disk h', h_mints := h_mints h'\<rparr>
    \<and> h_store h' = (h_store h)\<lparr>version_counter := version_counter (h_store h'), disk_reads := disk_reads (h_store h')\<rparr>
    \<and> (\<forall>p. \<not> temp_file p \<longrightarrow> h_disk h' p = h_disk h p)"
  using assms by (rule commit_error_state)

section \<open>Success\<close>

definition authored_after :: "staged_commit \<Rightarrow> authored_map \<Rightarrow> authored_map" where
  "authored_after sg m = (case sg_authored sg of None \<Rightarrow> m | Some ap \<Rightarrow> ap_next_store ap)"

text \<open>The effect of a staged commit that reached its publish tail, on every field a reader can see.\<close>

definition published :: "('md, 'db) world \<Rightarrow> staged_commit \<Rightarrow> 'db head \<Rightarrow> 'db head \<Rightarrow> commit_delta \<Rightarrow> bool" where
  "published w sg h h' delta \<longleftrightarrow>
     publish_staged (sg_gen sg) (h_store h) = (h_store h', cm_revision delta) \<and>
     h_system h' = publish (h_system h) (sg_gen sg) \<and>
     h_unsaved h' = (h_unsaved h \<union> set (sg_unsaved_insert sg)) - set (sg_unsaved_remove sg) \<and>
     h_authored h' = authored_after sg (h_authored h) \<and>
     h_root h' = h_root h \<and> h_sidecar h' = h_sidecar h \<and> h_config h' = h_config h \<and>
     (sg_reconcile sg \<longrightarrow> (\<exists>bytes. to_bytes (w_to_vec_pretty w) (h_registry h') = Inr bytes
        \<and> h_disk h' (identity_db_path (h_sidecar h')) = Some bytes)) \<and>
     (\<not> sg_reconcile sg \<longrightarrow> h_registry h' = h_registry h \<and> h_code_layer h' = h_code_layer h) \<and>
     (\<forall>ap. sg_authored sg = Some ap \<longrightarrow> h_disk h' (ap_record_path ap) = Some (ap_bytes ap))"

lemma publish_tail_fields:
  assumes "publish_tail sg identity pc cs h = (h', delta)"
  shows "publish_staged (sg_gen sg) (h_store h) = (h_store h', cm_revision delta)"
    "h_unsaved h' = (h_unsaved h \<union> set (sg_unsaved_insert sg)) - set (sg_unsaved_remove sg)"
    "h_authored h' = authored_after sg (h_authored h)"
    "h_system h' = h_system h" "h_root h' = h_root h" "h_sidecar h' = h_sidecar h" "h_config h' = h_config h"
    "h_registry h' = h_registry h" "h_code_layer h' = h_code_layer h" "h_disk h' = h_disk h" "h_armed h' = h_armed h"
  using assms
  by (auto simp: publish_tail_def Let_def build_commit_delta_def authored_after_def split: prod.splits option.splits)

lemma run_staged_success:
  assumes "run_staged w os sg armed h = (h', Inr delta)" "plan_ok sg"
  shows "published w sg h h' delta"
    "index_sound (h_registry h) \<Longrightarrow> index_sound (h_registry h')"
    "produced (h_code_layer h) \<Longrightarrow> produced (h_code_layer h')"
    "h_armed h' = h_armed h"
proof -
  let ?h0 = "h\<lparr>h_system := publish (h_system h) (sg_gen sg)\<rparr>"
  obtain h1 pc cs where e: "apply_engine w os sg ?h0 = (h1, pc, cs)" by (metis prod_cases3)
  obtain h2 r2 where i: "stage_identity w os sg armed h1 = (h2, r2)" by fastforce
  obtain h3 r3 where a: "stage_authored os sg armed h2 = (h3, r3)" by fastforce
  obtain idl where r2: "r2 = Inr idl" using assms(1) e i by (cases r2) (auto simp: run_staged_def)
  have r3: "r3 = Inr ()" using assms(1) e i a r2 by (cases r3) (auto simp: run_staged_def)
  have t: "publish_tail sg idl pc cs h3 = (h', delta)"
    using assms(1) e i a r2 r3 by (auto simp: run_staged_def split: prod.splits)
  have s1: "staging ?h0 h1" using engine_step.run_fields(1) [of "(w, os, sg)" ?h0 h1] e by simp
  have s2: "staging ?h0 h2" using identity_step.run_after [of ?h0 h1 "(w, os, sg, armed)" h2] s1 i by simp
  have s3: "staging ?h0 h3" using authored_step.run_after [of ?h0 h2 "(os, sg, armed)" h3] s2 a by simp
  note f3 = staging_fields [OF s3] and f = publish_tail_fields [OF t]
  note af = stage_authored_fields [OF a assms(2)] and ef = apply_engine_fields [OF e]
  have saved: "\<exists>bytes. to_bytes (w_to_vec_pretty w) (h_registry h') = Inr bytes
      \<and> h_disk h' (identity_db_path (h_sidecar h')) = Some bytes" if "sg_reconcile sg"
  proof -
    have "h3 = h2" using that assms(2) stage_authored_skip [OF a assms(2)] by (simp add: plan_ok_def)
    with stage_identity_saves [OF i r2 that] f f3 staging_fields(4) [OF s1] show ?thesis by simp
  qed
  have skipped: "h_registry h' = h_registry h \<and> h_code_layer h' = h_code_layer h" if "\<not> sg_reconcile sg"
    using stage_identity_skip [OF i that] af ef f by simp
  show "published w sg h h' delta"
    unfolding published_def using f f3 saved skipped stage_authored_saves [OF a assms(2) r3] by simp
  show "index_sound (h_registry h) \<Longrightarrow> index_sound (h_registry h')"
    using stage_identity_registry [OF i] af ef f by simp
  show "produced (h_code_layer h) \<Longrightarrow> produced (h_code_layer h')"
    using stage_identity_layer [OF i] af ef f by simp
  show "h_armed h' = h_armed h" using f f3 by simp
qed

text \<open>
  The identity part of a commit that went through: the registry it publishes is the
  reconciliation of the old one with the entities of the published content, and the delta
  reports that reconciliation's classes.
\<close>

definition reconciled ::
  "('md, 'db) world \<Rightarrow> outside \<Rightarrow> staged_commit \<Rightarrow> 'db head \<Rightarrow> 'db head \<Rightarrow> commit_delta \<Rightarrow> bool" where
  "reconciled w os sg h h' delta \<longleftrightarrow>
     (\<exists>es rc mints. scope_entities w (h_db h') (live_view os h') (h_hash_policy h') (sg_scope sg) = Some es
        \<and> reconcile_impl (w_mint w) (h_registry h) es (next_revision (h_store h)) (map_option set (sg_scope sg)) (h_mints h)
            = Some (h_registry h', rc, mints)
        \<and> cm_created_ids delta = map id_str (created (classify rc es)) \<and> cm_changed_ids delta = map id_str (changed (classify rc es))
        \<and> cm_deleted_ids delta = map id_str (deleted (classify rc es)) \<and> cm_moved delta = map moved_entity (moved (classify rc es)))"

lemma persist_identity_view:
  "persist_identity w os h = (h', res) \<Longrightarrow> h_db h' = h_db h \<and> live_view os h' = live_view os h \<and> h_hash_policy h' = h_hash_policy h"
  by (auto simp: persist_identity_def write_sidecar_def live_view_def split: sum.splits prod.splits)

lemma stage_identity_reconciles:
  assumes "stage_identity w os sg armed h = (h', Inr idl)" "sg_reconcile sg"
  obtains es rc mints where "scope_entities w (h_db h') (live_view os h') (h_hash_policy h') (sg_scope sg) = Some es"
    "reconcile_impl (w_mint w) (h_registry h) es (next_revision (h_store h)) (map_option set (sg_scope sg)) (h_mints h)
       = Some (h_registry h', rc, mints)"
    "idl_created_ids idl = map id_str (created (classify rc es))" "idl_changed_ids idl = map id_str (changed (classify rc es))"
    "idl_deleted_ids idl = map id_str (deleted (classify rc es))" "idl_moved idl = map moved_entity (moved (classify rc es))"
proof -
  let ?rv = "next_revision (h_store h)"
  obtain es registry rc mints idl' where es: "scope_entities w (h_db h) (live_view os h) (h_hash_policy h) (sg_scope sg) = Some es"
    and r: "reconcile_impl (w_mint w) (h_registry h) es ?rv (map_option set (sg_scope sg)) (h_mints h) = Some (registry, rc, mints)"
    and run: "run_identity_reconciliation w os (sg_scope sg) ?rv h = Some (h\<lparr>h_registry := registry, h_mints := mints\<rparr>, idl')"
    and idl': "idl_created_ids idl' = map id_str (created (classify rc es))" "idl_changed_ids idl' = map id_str (changed (classify rc es))"
    "idl_deleted_ids idl' = map id_str (deleted (classify rc es))" "idl_moved idl' = map moved_entity (moved (classify rc es))" by (rule reconciliation_run)
  let ?h1 = "h\<lparr>h_registry := registry, h_mints := mints\<rparr>"
  let ?h2 = "?h1\<lparr>h_code_layer := fst (produce_layer w os ?h1 sg ?rv)\<rparr>"
  have p: "persist_identity w os ?h2 = (h', Inr ())"
    and idl: "idl_created_ids idl = idl_created_ids idl'" "idl_changed_ids idl = idl_changed_ids idl'" "idl_deleted_ids idl = idl_deleted_ids idl'" "idl_moved idl = idl_moved idl'"
    using assms by (auto simp: stage_identity_def run Let_def split: sum.splits prod.splits)
  have "h_registry h' = registry" using persist_identity_disk(1) [OF p] by simp
  moreover have "scope_entities w (h_db h') (live_view os h') (h_hash_policy h') (sg_scope sg) = Some es"
    using persist_identity_view [OF p] es by (simp add: live_view_def)
  ultimately show ?thesis using that r idl idl' by simp
qed

lemma run_staged_reconciles:
  assumes "run_staged w os sg armed h = (h', Inr delta)" "plan_ok sg" "sg_reconcile sg"
  shows "reconciled w os sg h h' delta"
proof -
  let ?h0 = "h\<lparr>h_system := publish (h_system h) (sg_gen sg)\<rparr>"
  obtain h1 pc cs where e: "apply_engine w os sg ?h0 = (h1, pc, cs)" by (metis prod_cases3)
  obtain h2 r2 where i: "stage_identity w os sg armed h1 = (h2, r2)" by fastforce
  obtain idl where r2: "r2 = Inr idl" using assms(1) e i by (cases r2) (auto simp: run_staged_def)
  have "sg_authored sg = None" using assms(2,3) by (auto simp: plan_ok_def)
  then have t: "publish_tail sg idl pc cs h2 = (h', delta)"
    using assms(1) e i r2 by (auto simp: run_staged_def stage_authored_def split: prod.splits)
  have h1: "h_registry h1 = h_registry h" "h_store h1 = h_store h" "h_mints h1 = h_mints h"
    using e by (auto simp: apply_engine_def split: if_splits prod.splits)
  have h': "h_db h' = h_db h2" "h_system h' = h_system h2" "h_hash_policy h' = h_hash_policy h2" "h_registry h' = h_registry h2"
    "cm_created_ids delta = idl_created_ids idl" "cm_changed_ids delta = idl_changed_ids idl" "cm_deleted_ids delta = idl_deleted_ids idl" "cm_moved delta = idl_moved idl"
    using t \<open>sg_authored sg = None\<close> by (auto simp: publish_tail_def Let_def build_commit_delta_def split: prod.splits)
  obtain es rc mints where "scope_entities w (h_db h2) (live_view os h2) (h_hash_policy h2) (sg_scope sg) = Some es"
    "reconcile_impl (w_mint w) (h_registry h1) es (next_revision (h_store h1)) (map_option set (sg_scope sg)) (h_mints h1)
       = Some (h_registry h2, rc, mints)"
    "idl_created_ids idl = map id_str (created (classify rc es))" "idl_changed_ids idl = map id_str (changed (classify rc es))"
    "idl_deleted_ids idl = map id_str (deleted (classify rc es))" "idl_moved idl = map moved_entity (moved (classify rc es))"
    by (rule stage_identity_reconciles [OF i [unfolded r2] assms(3)])
  then show ?thesis unfolding reconciled_def using h1 h' by (simp add: live_view_def)
qed

lemma commit_success:
  assumes "commit w os m h = (h', Inr (Some delta))"
  obtains h1 sg where "build_plan w os m h = (h1, Inr (Some sg))" "plan_ok sg" "published w sg h1 h' delta"
    "index_sound (h_registry h) \<Longrightarrow> index_sound (h_registry h')"
    "produced (h_code_layer h) \<Longrightarrow> produced (h_code_layer h')" "h_armed h' = None"
proof -
  obtain h1 res where b: "build_plan w os m h = (h1, res)" by fastforce
  with assms obtain sg where res: "res = Inr (Some sg)"
    by (cases res) (auto simp: commit_def split: option.splits)
  have r: "run_staged w os sg (h_armed h1) (h1\<lparr>h_armed := None\<rparr>) = (h', Inr delta)"
    using assms b res by (auto simp: commit_def Let_def split: sum.splits prod.splits)
  obtain s where h1: "h1 = h\<lparr>h_store := s\<rparr>" using build_plan_head [OF b] by blast
  have ok: "plan_ok sg" using build_plan_ok b res by blast
  note su = run_staged_success [OF r ok]
  have "published w sg h1 h' delta" using su(1) unfolding published_def by auto
  then show ?thesis using that b res ok su(2-4) h1 by simp
qed

lemma commit_reconciles:
  assumes "commit w os m h = (h', Inr (Some delta))" "build_plan w os m h = (h1, Inr (Some sg))" "sg_reconcile sg"
  shows "reconciled w os sg h h' delta"
proof -
  have r: "run_staged w os sg (h_armed h1) (h1\<lparr>h_armed := None\<rparr>) = (h', Inr delta)"
    using assms(1,2) by (auto simp: commit_def Let_def split: sum.splits prod.splits)
  obtain s where h1: "h1 = h\<lparr>h_store := s\<rparr>" "counted (h_store h) s" using build_plan_head [OF assms(2)] by blast
  have "reconciled w os sg (h1\<lparr>h_armed := None\<rparr>) h' delta"
    by (rule run_staged_reconciles [OF r build_plan_ok [OF assms(2)] assms(3)])
  then show ?thesis using h1 counted_fields [OF h1(2)] by (simp add: reconciled_def next_revision_def)
qed

lemma commit_noop: "commit w os m h = (h', Inr None) \<Longrightarrow> h' = h"
  using build_plan_noop [of w os m h]
  by (auto simp: commit_def Let_def split: prod.splits sum.splits option.splits)

text \<open>With a working sidecar, serialisable state and no armed fault a planned commit goes through.\<close>

lemma write_sidecar_succeeds: "o_io os = io_ok \<Longrightarrow> \<exists>h'. write_sidecar os p bytes h = (h', Inr ())"
  using write_atomic_ok [of p bytes "h_disk h"] by (auto simp: write_sidecar_def split: prod.splits)

lemma commit_succeeds:
  assumes "build_plan w os m h = (h1, Inr (Some sg))" "o_io os = io_ok" "h_armed h = None"
    and "\<And>j. \<exists>bytes. w_to_vec_pretty w j = Inr bytes"
  shows "\<exists>h' delta. commit w os m h = (h', Inr (Some delta))"
proof -
  obtain s where h1: "h1 = h\<lparr>h_store := s\<rparr>" using build_plan_head [OF assms(1)] by blast
  have p: "\<exists>x'. persist_identity w os x = (x', Inr ())" for x
    using assms(4) [of "to_json_value (h_registry x)"] write_sidecar_succeeds [OF assms(2)]
    by (auto simp: persist_identity_def to_bytes_def)
  have i: "\<exists>x' idl. stage_identity w os sg None x = (x', Inr idl)" for x
  proof -
    obtain es registry rc mints idl where run:
      "run_identity_reconciliation w os (sg_scope sg) (next_revision (h_store x)) x
        = Some (x\<lparr>h_registry := registry, h_mints := mints\<rparr>, idl)" by (rule reconciliation_run)
    let ?x1 = "x\<lparr>h_registry := registry, h_mints := mints\<rparr>"
    obtain x' where "persist_identity w os
        (?x1\<lparr>h_code_layer := fst (produce_layer w os ?x1 sg (next_revision (h_store x)))\<rparr>) = (x', Inr ())"
      using p by blast
    then show ?thesis by (simp add: stage_identity_def run check_fault_def Let_def)
  qed
  have a: "\<exists>x'. stage_authored os sg None x = (x', Inr ())" for x
    using write_sidecar_succeeds [OF assms(2)] by (auto simp: stage_authored_def check_fault_def split: option.splits)
  have "\<exists>x' delta. run_staged w os sg None x = (x', Inr delta)" for x
  proof -
    obtain x1 pc cs where e: "apply_engine w os sg (x\<lparr>h_system := publish (h_system x) (sg_gen sg)\<rparr>) = (x1, pc, cs)"
      by (metis prod_cases3)
    obtain x2 idl where x2: "stage_identity w os sg None x1 = (x2, Inr idl)" using i by blast
    obtain x3 where "stage_authored os sg None x2 = (x3, Inr ())" using a by blast
    with e x2 show ?thesis by (simp add: run_staged_def split: prod.splits)
  qed
  then obtain h' delta where "run_staged w os sg None (h1\<lparr>h_armed := None\<rparr>) = (h', Inr delta)" by blast
  with assms(1,3) h1 show ?thesis by (simp add: commit_def Let_def)
qed

end
