(* ===== verification/Session.thy ===== *)
theory Session
  imports Transaction
begin

text \<open>
  The session (\<open>rust/src/project/methods.rs\<close>, \<open>open.rs\<close> and the state types of
  \<open>project.rs\<close>): opening a project, the write methods over the commit funnel, the watcher
  queue, snapshots, reload and close.

  A \<open>project\<close> is the Python-facing object: the head, absent once closed, the queue of watcher
  events, and whether a watcher runs.  Each method takes the operating system as it finds it.
  Locks are held for the whole of a method, so a method is one step.
\<close>

section \<open>State\<close>

record 'db project =
  pj_inner :: "'db head option"
  pj_pending :: "change_event list"
  pj_watching :: bool

text \<open>The read clone, and the frozen state behind a snapshot with the overlay its database reads.\<close>

record 'db ty_state =
  ts_db :: 'db
  ts_system :: overlay_system
  ts_root :: path
  ts_registry :: identity_registry
  ts_hash_policy :: hash_policy
  ts_hash_policies :: "(str, hash_policy) hash_map"
  ts_default_hash_profile :: str
  ts_authored :: "authored_map option"
  ts_code_layer :: "code_layer option"

record 'db snapshot =
  sn_state :: "'db ty_state"
  sn_revision :: revision
  sn_config :: validated_config
  sn_is_head :: bool

definition servable_code_layer :: "'db head \<Rightarrow> code_layer option" where
  "servable_code_layer h = (if layer_is_empty (h_code_layer h) then None else Some (h_code_layer h))"

definition read_clone :: "outside \<Rightarrow> 'db head \<Rightarrow> 'db ty_state" where
  "read_clone os h =
     \<lparr>ts_db = h_db h, ts_system = live_view os h, ts_root = h_root h, ts_registry = h_registry h,
      ts_hash_policy = h_hash_policy h, ts_hash_policies = h_hash_policies h,
      ts_default_hash_profile = h_default_hash_profile h, ts_authored = None,
      ts_code_layer = servable_code_layer h\<rparr>"

definition lock_state ::
  "('db head \<Rightarrow> 'db head \<times> (commit_error, 'a) result) \<Rightarrow> 'db project \<Rightarrow> 'db project \<times> (commit_error, 'a) result" where
  "lock_state f pj =
     (case pj_inner pj of
        None \<Rightarrow> (pj, Inl ProjectClosedError)
      | Some h \<Rightarrow> (case f h of (h', res) \<Rightarrow> (pj\<lparr>pj_inner := Some h'\<rparr>, res)))"

definition state_engine :: "('md, 'db) world \<Rightarrow> 'db ty_state \<Rightarrow> engine" where
  "state_engine w st =
     analysis_engine (read_view w (ts_db st) (ts_system st) (ts_root st) (ts_registry st) (ts_hash_policies st) (ts_default_hash_profile st))"

definition full_code_delta_for :: "('md, 'db) world \<Rightarrow> 'db ty_state \<Rightarrow> revision \<Rightarrow> code_delta" where
  "full_code_delta_for w st rv =
     (case ts_code_layer st of
        Some l \<Rightarrow> diff_from l code_layer_new rv True
      | None \<Rightarrow> snd (produce_code_delta (state_engine w st) code_layer_new rv True))"

section \<open>Building heads and frozen states\<close>

text \<open>Discover, clamp to the root, configure, build; defaults on any failure.\<close>

definition clamp_root :: "('md, 'db) world \<Rightarrow> path \<Rightarrow> 'md \<Rightarrow> 'md" where
  "clamp_root w root md =
     (if w_meta_root w md = root then md
      else w_meta_new w (case file_name root of Some n \<Rightarrow> n | None \<Rightarrow> ''root'') root)"

definition build_database :: "('md, 'db) world \<Rightarrow> path \<Rightarrow> overlay_system \<Rightarrow> 'db" where
  "build_database w root sys =
     (case rbind (w_discover w root sys) (\<lambda>md.
           rbind (w_configure w sys (clamp_root w root md)) (\<lambda>md'. w_fallible w md' sys)) of
        Inr db \<Rightarrow> db
      | Inl _ \<Rightarrow> w_use_defaults w (w_meta_new w ''tyo3-project'' root) sys)"

text \<open>\<open>None\<close>: the default profile does not exist, and indexing it panics.\<close>

definition build_head_with_config ::
  "('md, 'db) world \<Rightarrow> outside \<Rightarrow> path \<Rightarrow> content_store \<Rightarrow> identity_registry \<Rightarrow> validated_config \<Rightarrow> disk \<Rightarrow> nat
   \<Rightarrow> 'db head option" where
  "build_head_with_config w os root initial_store registry config d mints =
     (let sys = overlay_live (o_native os) (capture initial_store)
      in (case hash_policy_for config ''code'' of
            None \<Rightarrow> None
          | Some policy \<Rightarrow>
              Some \<lparr>h_db = build_database w root sys, h_root = root, h_store = initial_store, h_system = sys,
                    h_registry = registry, h_hash_policy = policy,
                    h_hash_policies = map (\<lambda>(name, p). (name, hash_policy_from p)) (profiles (vc_raw config)),
                    h_default_hash_profile = sp_default_hash_profile (spine (vc_raw config)), h_config = config,
                    h_sidecar = sidecar_new root, h_authored = [], h_code_layer = code_layer_new, h_unsaved = {},
                    h_armed = None, h_disk = d, h_mints = mints\<rparr>))"

definition materialize_initial_code_layer :: "('md, 'db) world \<Rightarrow> outside \<Rightarrow> 'db head \<Rightarrow> 'db head" where
  "materialize_initial_code_layer w os h =
     h\<lparr>h_code_layer := fst (produce_code_delta (head_engine w os h) code_layer_new (revision (h_store h)) True)\<rparr>"

definition build_frozen ::
  "('md, 'db) world \<Rightarrow> outside \<Rightarrow> path \<Rightarrow> generation \<Rightarrow> revision \<Rightarrow> (str, hash_policy) hash_map \<Rightarrow> str \<Rightarrow> 'db ty_state" where
  "build_frozen w os root g rv policies default_profile =
     (let sys = overlay_frozen (o_native os) g rv
      in \<lparr>ts_db = build_database w root sys, ts_system = sys, ts_root = root, ts_registry = registry_default,
          ts_hash_policy = (case map_of policies default_profile of Some p \<Rightarrow> p | None \<Rightarrow> hash_policy_default),
          ts_hash_policies = policies, ts_default_hash_profile = default_profile, ts_authored = None,
          ts_code_layer = None\<rparr>)"

section \<open>Opening\<close>

text \<open>The library calls and outcomes that only opening a project uses.\<close>

record open_env =
  op_parse_toml :: "str \<Rightarrow> (str, cvalue) result"
  op_de_config :: "cvalue \<Rightarrow> (str, raw_config) result"
  op_env :: "str \<Rightarrow> str option"
  op_from_utf8 :: "bytes \<Rightarrow> (str, str) result"
  op_from_str :: "str \<Rightarrow> (str, json) result"
  op_decode_doc :: "bytes \<Rightarrow> (str, authored_doc) result"
  op_is_dir :: "path \<Rightarrow> bool"
  op_read_dir :: "path \<Rightarrow> record_file list option"
  op_io_gitignore :: io_plan
  op_io_layout :: io_plan

definition config_error_to_pyerr :: "config_error \<Rightarrow> commit_error" where
  "config_error_to_pyerr e = (case e of UnknownSchemaVersion _ \<Rightarrow> FormatVersionError | _ \<Rightarrow> PyConfigError)"

definition config_file :: "open_env \<Rightarrow> disk \<Rightarrow> path \<Rightarrow> (str, str) result option" where
  "config_file op d p = map_option (op_from_utf8 op) (d p)"

definition load_config :: "open_env \<Rightarrow> disk \<Rightarrow> sidecar \<Rightarrow> (commit_error, validated_config) result" where
  "load_config op d sc =
     (case raw_load (op_parse_toml op) (op_de_config op) (op_env op) (config_file op d (config_path sc))
             (config_file op d (config_local_path sc)) (config_file op d (secrets_path sc)) of
        Inl e \<Rightarrow> Inl (config_error_to_pyerr e)
      | Inr raw \<Rightarrow>
          (case validate raw of
             None \<Rightarrow> Inl Panicked
           | Some (Inl e) \<Rightarrow> Inl (config_error_to_pyerr e)
           | Some (Inr vc) \<Rightarrow> Inr vc))"

definition prepare_sidecar :: "open_env \<Rightarrow> sidecar \<Rightarrow> validated_config \<Rightarrow> disk \<Rightarrow> disk \<times> (commit_error, unit) result" where
  "prepare_sidecar op sc config d =
     (if \<not> sidecar_exists (op_is_dir op) sc then (d, Inr ())
      else
        (case (if gitignore_cache (vc_raw config)
               then ensure_gitignore_cache_policy (op_from_utf8 op) (op_io_gitignore op) sc d else (Inr (), d)) of
           (Inl _, d1) \<Rightarrow> (d1, Inl PyConfigError)
         | (Inr _, d1) \<Rightarrow>
             (case ensure_layout_marker (op_io_layout op) sc d1 of
                (Inl _, d2) \<Rightarrow> (d2, Inl PyConfigError)
              | (Inr _, d2) \<Rightarrow> (d2, Inr ()))))"

text \<open>An unreadable or malformed registry starts fresh; an unknown format version is an error.\<close>

definition load_registry :: "open_env \<Rightarrow> disk \<Rightarrow> sidecar \<Rightarrow> (commit_error, identity_registry) result" where
  "load_registry op d sc =
     (case d (identity_db_path sc) of
        None \<Rightarrow> Inr registry_default
      | Some bytes \<Rightarrow>
          (case from_bytes (op_from_utf8 op) (op_from_str op) bytes of
             Inr registry \<Rightarrow> Inr registry
           | Inl (UnknownVersion _) \<Rightarrow> Inl FormatVersionError
           | Inl _ \<Rightarrow> Inr registry_default))"

definition initial_store :: "('md, 'db) world \<Rightarrow> outside \<Rightarrow> path \<Rightarrow> validated_config \<Rightarrow> content_store" where
  "initial_store w os root config =
     fst (ingest_project (w_xxh3 w) (o_disk os) root (is_project_relevant (w_py_ext w))
       (with_retain_cap (sp_retain_cap (spine (vc_raw config)))))"

text \<open>Identity, code layer and authored records of a freshly built head.\<close>

definition populate_head :: "('md, 'db) world \<Rightarrow> outside \<Rightarrow> open_env \<Rightarrow> 'db head \<Rightarrow> 'db head \<times> (commit_error, unit) result" where
  "populate_head w os op h =
     (case run_identity_reconciliation w os None (revision (h_store h)) h of
        None \<Rightarrow> (h, Inl Panicked)
      | Some (h1, _) \<Rightarrow>
          (case persist_identity w os (materialize_initial_code_layer w os h1) of
             (h2, Inl e) \<Rightarrow> (h2, Inl e)
           | (h2, Inr _) \<Rightarrow>
               (case load_authored_records (op_decode_doc op) (\<lambda>layer. op_read_dir op (authored_dir (h_sidecar h2) layer))
                       (h_config h2) of
                  Inl _ \<Rightarrow> (h2, Inl FormatVersionError)
                | Inr authored \<Rightarrow> (h2\<lparr>h_authored := authored\<rparr>, Inr ()))))"

definition open_project ::
  "('md, 'db) world \<Rightarrow> outside \<Rightarrow> open_env \<Rightarrow> path \<Rightarrow> disk \<Rightarrow> nat \<Rightarrow> disk \<times> (commit_error, 'db project) result" where
  "open_project w os op root d mints =
     (let sc = sidecar_new root in
      (case load_config op d sc of
         Inl e \<Rightarrow> (d, Inl e)
       | Inr config \<Rightarrow>
           (case prepare_sidecar op sc config d of
              (d1, Inl e) \<Rightarrow> (d1, Inl e)
            | (d1, Inr _) \<Rightarrow>
                (case load_registry op d1 sc of
                   Inl e \<Rightarrow> (d1, Inl e)
                 | Inr registry \<Rightarrow>
                     (case build_head_with_config w os root (initial_store w os root config) registry config d1 mints of
                        None \<Rightarrow> (d1, Inl Panicked)
                      | Some h \<Rightarrow>
                          (case populate_head w os op h of
                             (h', Inl e) \<Rightarrow> (h_disk h', Inl e)
                           | (h', Inr _) \<Rightarrow>
                               (h_disk h', Inr \<lparr>pj_inner = Some h', pj_pending = [], pj_watching = False\<rparr>)))))))"

section \<open>Writes\<close>

text \<open>A write that must publish: a commit without a delta is reported as a failure.\<close>

definition commit_dto_to_py :: "'db head \<times> (commit_error, commit_delta option) result \<Rightarrow> 'db head \<times> (commit_error, commit_delta) result" where
  "commit_dto_to_py c =
     (case c of
        (h, Inl e) \<Rightarrow> (h, Inl e)
      | (h, Inr None) \<Rightarrow> (h, Inl CommitFailed)
      | (h, Inr (Some delta)) \<Rightarrow> (h, Inr delta))"

definition is_created :: "change_event \<Rightarrow> bool" where
  "is_created ev = (case ev of EvCreated _ _ \<Rightarrow> True | _ \<Rightarrow> False)"

text \<open>The edits in the order the hash map yields them; \<open>edit\<close> is the case of one.\<close>

definition edits_mutation :: "('md, 'db) world \<Rightarrow> outside \<Rightarrow> (path \<times> str) list \<Rightarrow> 'db head \<Rightarrow> mutation" where
  "edits_mutation w os edits h =
     (let resolved = map (\<lambda>(p, text). (resolve_sync_path (h_root h) p, text)) edits;
          events = map (\<lambda>(p, _). classify_overlay_edit w os h p) resolved;
          classified = zip (map fst resolved) events
      in Overlay (map (\<lambda>(p, text). Insert p text) resolved) events
           (map fst (filter (\<lambda>(_, ev). is_created ev) classified))
           (map fst (filter (\<lambda>(_, ev). \<not> is_created ev) classified))
           (map fst resolved))"

definition edit ::
  "('md, 'db) world \<Rightarrow> outside \<Rightarrow> path \<Rightarrow> str \<Rightarrow> 'db project \<Rightarrow> 'db project \<times> (commit_error, commit_delta) result" where
  "edit w os p text = lock_state (\<lambda>h. commit_dto_to_py (commit w os (edits_mutation w os [(p, text)] h) h))"

definition edit_many ::
  "('md, 'db) world \<Rightarrow> outside \<Rightarrow> (path \<times> str) list \<Rightarrow> 'db project \<Rightarrow> 'db project \<times> (commit_error, commit_delta) result" where
  "edit_many w os edits = lock_state (\<lambda>h. commit_dto_to_py (commit w os (edits_mutation w os edits h) h))"

definition edit_virtual ::
  "('md, 'db) world \<Rightarrow> outside \<Rightarrow> path \<Rightarrow> str \<Rightarrow> 'db project \<Rightarrow> 'db project \<times> (commit_error, commit_delta) result" where
  "edit_virtual w os uri text =
     lock_state (\<lambda>h.
       let is_new = \<not> w_try_virtual w (h_db h) uri;
           event = (if is_new then EvCreatedVirtual uri else EvChangedVirtual uri);
           m = Overlay [InsertVirtual uri text] [event] (if is_new then [uri] else []) (if is_new then [] else [uri]) []
       in commit_dto_to_py (commit w os m h))"

definition author ::
  "('md, 'db) world \<Rightarrow> outside \<Rightarrow> (str \<Rightarrow> (str, json) result) \<Rightarrow> str \<Rightarrow> str \<Rightarrow> str \<Rightarrow> 'db project
   \<Rightarrow> 'db project \<times> (commit_error, commit_delta) result" where
  "author w os from_str layer i value_json =
     lock_state (\<lambda>h.
       case from_str value_json of
         Inl _ \<Rightarrow> (h, Inl PyValueError)
       | Inr value \<Rightarrow> commit_dto_to_py (commit w os (Author layer i value) h))"

definition registered_layer :: "bool \<Rightarrow> bool \<Rightarrow> layer_cfg" where
  "registered_layer history review =
     \<lparr>l_origin = Authored, l_depends_on = [], l_generator = None, l_generator_version = None, l_hash_profile = None,
      l_store = None, l_serving = Stale, l_recompute = Lazy, l_key_locality = None, l_entity_kinds = [],
      l_history = history, l_review_on_change = review\<rparr>"

definition register_layer :: "str \<Rightarrow> bool \<Rightarrow> bool \<Rightarrow> validated_config \<Rightarrow> (commit_error, validated_config) result" where
  "register_layer name history review vc =
     (case map_of (layers (vc_raw vc)) name of
        Some existing \<Rightarrow> if l_origin existing \<noteq> Authored then Inl PyConfigError else Inr vc
      | None \<Rightarrow>
          Inr (vc\<lparr>vc_raw := (vc_raw vc)\<lparr>layers := bt_insert name (registered_layer history review) (layers (vc_raw vc))\<rparr>,
                  vc_topo_order := (if name \<in> set (vc_topo_order vc) then vc_topo_order vc else vc_topo_order vc @ [name])\<rparr>))"

definition register_authored_layer :: "str \<Rightarrow> bool \<Rightarrow> bool \<Rightarrow> 'db project \<Rightarrow> 'db project \<times> (commit_error, unit) result" where
  "register_authored_layer name history review =
     lock_state (\<lambda>h.
       case register_layer name history review (h_config h) of
         Inl e \<Rightarrow> (h, Inl e)
       | Inr vc \<Rightarrow> (h\<lparr>h_config := vc\<rparr>, Inr ()))"

definition sync_path ::
  "('md, 'db) world \<Rightarrow> outside \<Rightarrow> path \<Rightarrow> 'db project \<Rightarrow> 'db project \<times> (commit_error, commit_delta) result" where
  "sync_path w os p = lock_state (\<lambda>h. commit_dto_to_py (commit w os (SyncPath (resolve_sync_path (h_root h) p)) h))"

definition discard ::
  "('md, 'db) world \<Rightarrow> outside \<Rightarrow> path \<Rightarrow> 'db project \<Rightarrow> 'db project \<times> (commit_error, commit_delta) result" where
  "discard w os p = lock_state (\<lambda>h. commit_dto_to_py (commit w os (SyncPath (resolve_sync_path (h_root h) p)) h))"

definition sync_all ::
  "('md, 'db) world \<Rightarrow> outside \<Rightarrow> 'db project \<Rightarrow> 'db project \<times> (commit_error, commit_delta) result" where
  "sync_all w os = lock_state (\<lambda>h. commit_dto_to_py (commit w os SyncAll h))"

definition fault_inject :: "str \<Rightarrow> 'db project \<Rightarrow> 'db project \<times> (commit_error, unit) result" where
  "fault_inject stg = lock_state (\<lambda>h. (h\<lparr>h_armed := Some stg\<rparr>, Inr ()))"

section \<open>The watcher queue\<close>

text \<open>
  The watcher's thread appends; \<open>unwatch\<close> stops it and leaves the queue; a poll drains it.
  Starting the watcher may fail in the operating system, before the project is looked at.
\<close>

definition watch :: "bool \<Rightarrow> 'db project \<Rightarrow> 'db project \<times> (commit_error, unit) result" where
  "watch started pj =
     (if \<not> started then (pj, Inl PyRuntimeError)
      else
        (case pj_inner pj of
           None \<Rightarrow> (pj, Inl ProjectClosedError)
         | Some _ \<Rightarrow> (pj\<lparr>pj_watching := True\<rparr>, Inr ())))"

definition watch_handler :: "change_event list \<Rightarrow> 'db project \<Rightarrow> 'db project" where
  "watch_handler changes pj = pj\<lparr>pj_pending := pj_pending pj @ changes\<rparr>"

definition unwatch :: "'db project \<Rightarrow> 'db project" where
  "unwatch pj = pj\<lparr>pj_watching := False\<rparr>"

definition inject_event :: "path \<Rightarrow> str \<times> path \<Rightarrow> change_event list \<Rightarrow> (commit_error, change_event list) result" where
  "inject_event root change events =
     (case change of (kind, p) \<Rightarrow>
        let abs = resolve_sync_path root p in
        if kind = ''created'' then Inr (events @ [EvCreated abs CreatedFile])
        else if kind = ''changed'' then Inr (events @ [EvChanged abs ChangedContent])
        else if kind = ''deleted'' then Inr (events @ [EvDeleted abs DeletedAny])
        else if kind = ''rescan'' then Inr (events @ [EvRescan])
        else Inl PyValueError)"

definition inject_changes :: "(str \<times> path) list \<Rightarrow> 'db project \<Rightarrow> 'db project \<times> (commit_error, unit) result" where
  "inject_changes changes pj =
     (case pj_inner pj of
        None \<Rightarrow> (pj, Inl ProjectClosedError)
      | Some h \<Rightarrow>
          (case fold_result (inject_event (h_root h)) changes [] of
             Inl e \<Rightarrow> (pj, Inl e)
           | Inr events \<Rightarrow> (pj\<lparr>pj_pending := pj_pending pj @ events\<rparr>, Inr ())))"

definition poll_changes ::
  "('md, 'db) world \<Rightarrow> outside \<Rightarrow> 'db project \<Rightarrow> 'db project \<times> (commit_error, commit_delta option) result" where
  "poll_changes w os pj =
     (let events = pj_pending pj;
          pj' = pj\<lparr>pj_pending := []\<rparr>
      in if events = [] then (pj', Inr None) else lock_state (commit w os (Poll events)) pj')"

section \<open>Reading and lifecycle\<close>

definition take_snapshot ::
  "('md, 'db) world \<Rightarrow> outside \<Rightarrow> revision option \<Rightarrow> 'db project \<Rightarrow> (commit_error, 'db snapshot) result" where
  "take_snapshot w os at pj =
     (case pj_inner pj of
        None \<Rightarrow> Inl ProjectClosedError
      | Some h \<Rightarrow>
          (case (case at of
                   None \<Rightarrow> Inr (capture (h_store h), revision (h_store h))
                 | Some r \<Rightarrow>
                     (case generation_at (h_store h) r of
                        None \<Rightarrow> Inl (RevisionEvictedError (oldest_retained (h_store h)))
                      | Some g \<Rightarrow> Inr (g, r))) of
             Inl e \<Rightarrow> Inl e
           | Inr (g, rv) \<Rightarrow>
               Inr \<lparr>sn_state = (build_frozen w os (h_root h) g rv (h_hash_policies h) (h_default_hash_profile h))
                      \<lparr>ts_registry := h_registry h, ts_authored := Some (h_authored h),
                       ts_code_layer := (if at = None then servable_code_layer h else None)\<rparr>,
                    sn_revision = rv, sn_config = h_config h, sn_is_head = (at = None)\<rparr>))"

definition reload :: "('md, 'db) world \<Rightarrow> outside \<Rightarrow> 'db project \<Rightarrow> 'db project \<times> (commit_error, unit) result" where
  "reload w os =
     lock_state (\<lambda>h.
       case build_head_with_config w os (h_root h) (h_store h) (h_registry h) (h_config h) (h_disk h) (h_mints h) of
         None \<Rightarrow> (h, Inl Panicked)
       | Some h' \<Rightarrow> (h', Inr ()))"

definition close :: "'db project \<Rightarrow> 'db project" where
  "close pj = pj\<lparr>pj_watching := False, pj_inner := None\<rparr>"

end
