(* ===== verification/Isolation.thy ===== *)
theory Isolation
  imports Session
begin

text \<open>
  What holds in every state a session can reach: the invariant of the head over all methods,
  the stability of snapshots, and the end-to-end effect of the write methods.
\<close>

section \<open>The head's invariant\<close>

text \<open>
  \<open>hist\<close> is the list of generations published so far.  The live overlay shows the last one,
  the registry's indexes are sound, the code layer is one a producer made.
\<close>

definition head_inv :: "('md, 'db) world \<Rightarrow> nat \<Rightarrow> 'db head \<Rightarrow> generation list \<Rightarrow> bool" where
  "head_inv w cap h hist \<longleftrightarrow>
     store_reach (w_xxh3 w) cap (h_store h) hist \<and>
     content (h_system h) = generation (h_store h) \<and> frozen (h_system h) = None \<and>
     index_sound (h_registry h) \<and> produced (h_code_layer h)"

lemma plan_store:
  assumes r: "store_reach (w_xxh3 w) cap (h_store h) hist" and b: "build_plan w os m h = (h1, Inr (Some sg))"
    and p: "publish_staged (sg_gen sg) (h_store h1) = (s', rv)"
  shows "store_reach (w_xxh3 w) cap s' (hist @ [sg_gen sg])"
proof -
  have staged: ?thesis if "stage_head w cs h = (sg_gen sg, h1)" for cs
    using that r p committed [of "w_xxh3 w" cap "h_store h" hist cs] by (auto simp: stage_head_eq)
  have same: ?thesis if "h1 = h" "sg_gen sg = stage_unchanged (h_store h)"
    using that r p committed_same [of "w_xxh3 w" cap "h_store h" hist s' rv] by (simp add: stage_unchanged_def)
  show ?thesis
  proof (cases m)
    case (Overlay cs evs crs chs uns)
    with b staged [of cs] show ?thesis by (auto split: prod.splits)
  next
    case (SyncPath q)
    with b staged show ?thesis by (auto simp: sync_path_plan_def Let_def split: prod.splits)
  next
    case SyncAll
    let ?ps = "filter (\<lambda>q. q \<notin> h_unsaved h) (walk_relevant_files (o_disk os) (h_root h) (is_project_relevant (w_py_ext w)))"
    obtain cs s1 where rd: "read_disk_changes (o_disk os) ?ps (h_store h) = (cs, s1)" by fastforce
    with b SyncAll have "stage (w_xxh3 w) cs s1 = (sg_gen sg, h_store h1)"
      by (auto simp: stage_reingest_def split: prod.splits)
    from committed [OF reread [OF r rd] this p] show ?thesis .
  next
    case (Author layer i v)
    with b have a: "author_plan w layer i v h = Inr sg" and "h1 = h" by (auto split: sum.splits)
    with author_plan_ok [OF a] same show ?thesis by (simp add: stage_unchanged_def)
  next
    case (Poll evs)
    with b staged same show ?thesis by (auto simp: build_poll_plan_def split: prod.splits if_splits)
  qed
qed

text \<open>The store after an abandoned plan.\<close>

lemma plan_dropped:
  assumes r: "store_reach (w_xxh3 w) cap (h_store h) hist" and b: "build_plan w os m h = (h1, res)"
  shows "store_reach (w_xxh3 w) cap (h_store h1) hist"
proof -
  have staged: ?thesis if "stage_head w cs h = (g, h1)" for cs g
    using that r dropped [of "w_xxh3 w" cap "h_store h" hist cs g] by (auto simp: stage_head_eq)
  show ?thesis
  proof (cases m)
    case (Overlay cs evs crs chs uns)
    with b staged [of cs] show ?thesis by (auto split: prod.splits)
  next
    case (SyncPath q)
    with b staged show ?thesis by (auto simp: sync_path_plan_def Let_def split: prod.splits)
  next
    case SyncAll
    let ?ps = "filter (\<lambda>q. q \<notin> h_unsaved h) (walk_relevant_files (o_disk os) (h_root h) (is_project_relevant (w_py_ext w)))"
    obtain cs s1 where rd: "read_disk_changes (o_disk os) ?ps (h_store h) = (cs, s1)" by fastforce
    obtain g s2 where st: "stage (w_xxh3 w) cs s1 = (g, s2)" by fastforce
    with b SyncAll rd have "h_store h1 = s2" by (auto simp: stage_reingest_def)
    with dropped [OF reread [OF r rd] st] show ?thesis by simp
  next
    case (Author layer i v)
    with b r show ?thesis by (auto split: sum.splits)
  next
    case (Poll evs)
    with b r staged show ?thesis by (auto simp: build_poll_plan_def split: prod.splits if_splits)
  qed
qed

text \<open>A failed commit leaves the head with the store its plan left.\<close>

lemma commit_error_store:
  assumes "commit w os m h = (h', Inl e)"
  obtains h1 res where "build_plan w os m h = (h1, res)" "h_store h' = h_store h1" "h_unsaved h' = h_unsaved h1"
proof -
  obtain h1 res where b: "build_plan w os m h = (h1, res)" by fastforce
  show ?thesis
  proof (cases res)
    case (Inl e')
    with assms b that show ?thesis by (simp add: commit_def)
  next
    case (Inr p)
    with assms b obtain sg where p: "p = Some sg" by (cases p) (auto simp: commit_def)
    obtain h2 r2 where r: "run_staged w os sg (h_armed h1) (h1\<lparr>h_armed := None\<rparr>) = (h2, r2)" by fastforce
    with assms b Inr p have r2: "r2 = Inl e" and h': "h_store h' = h_store h2" "h_unsaved h' = h_unsaved h2"
      by (auto simp: commit_def Let_def rollback_def split: sum.splits)
    have "plan_ok sg" using build_plan_ok b Inr p by blast
    with run_staged_error r r2 have "staging (h1\<lparr>h_armed := None, h_system := publish (h_system h1) (sg_gen sg)\<rparr>) h2"
      by fastforce
    from staging_fields [OF this] h' that [OF b] show ?thesis by simp
  qed
qed

lemma commit_inv:
  assumes inv: "head_inv w cap h hist" and c: "commit w os m h = (h', res)"
  shows "\<exists>ext. head_inv w cap h' (hist @ ext)"
proof (cases res)
  case (Inl e)
  with c have c: "commit w os m h = (h', Inl e)" by simp
  have live: "content (h_system h) = generation (h_store h)" using inv by (simp add: head_inv_def)
  note st = commit_error_state [OF live c]
  have "h_system h' = h_system h" "h_registry h' = h_registry h" "h_code_layer h' = h_code_layer h"
    by (subst conjunct1 [OF st], simp)+
  moreover have "generation (h_store h') = generation (h_store h)"
    by (subst conjunct1 [OF conjunct2 [OF st]], simp)
  moreover have "store_reach (w_xxh3 w) cap (h_store h') hist"
    using commit_error_store [OF c] plan_dropped inv by (metis head_inv_def)
  ultimately have "head_inv w cap h' (hist @ [])" using inv by (simp add: head_inv_def)
  then show ?thesis by blast
next
  case (Inr d)
  show ?thesis
  proof (cases d)
    case None
    with c Inr commit_noop inv show ?thesis by (metis append_Nil2)
  next
    case (Some delta)
    with c Inr have "commit w os m h = (h', Inr (Some delta))" by simp
    then obtain h1 sg where b: "build_plan w os m h = (h1, Inr (Some sg))" and pub: "published w sg h1 h' delta"
      and keep: "index_sound (h_registry h) \<Longrightarrow> index_sound (h_registry h')"
        "produced (h_code_layer h) \<Longrightarrow> produced (h_code_layer h')" by (rule commit_success) blast
    obtain s where h1: "h1 = h\<lparr>h_store := s\<rparr>" and s: "counted (h_store h) s" using build_plan_head [OF b] by blast
    have p: "publish_staged (sg_gen sg) (h_store h1) = (h_store h', cm_revision delta)"
      and sys: "h_system h' = publish (h_system h) (sg_gen sg)" using pub h1 by (simp_all add: published_def)
    have "store_reach (w_xxh3 w) cap (h_store h') (hist @ [sg_gen sg])"
      using plan_store [OF _ b p] inv by (simp add: head_inv_def)
    then have "head_inv w cap h' (hist @ [sg_gen sg])"
      using inv keep sys publish_fields [OF p] counted_fields [OF s] h1 by (simp add: head_inv_def publish_def)
    then show ?thesis by blast
  qed
qed

section \<open>Opening and reloading\<close>

lemma from_value_sound:
  assumes "from_value v = Inr r"
  shows "index_sound r"
proof -
  have "index_sound r" if "index_sound r0"
    "fold_result (\<lambda>entry registry. rbind (parse_anchor entry) (\<lambda>a. Inr (registry_insert a registry))) xs r0 = Inr r" for xs r0
    using that by (induction xs arbitrary: r0) (auto simp: rbind_Inr_iff intro: index_sound_insert)
  with assms index_sound_default show ?thesis
    by (fastforce simp: from_value_def rbind_Inr_iff split: if_splits)
qed

lemma load_registry_sound: "load_registry op d sc = Inr r \<Longrightarrow> index_sound r"
  by (auto simp: load_registry_def from_bytes_def from_json_def index_sound_default
      split: option.splits sum.splits format_error.splits dest: from_value_sound)

lemma build_head_fields:
  assumes "build_head_with_config w os root s registry config d mints = Some h"
  shows "h_store h = s" "h_system h = overlay_live (o_native os) (generation s)" "h_registry h = registry"
    "h_code_layer h = code_layer_new" "h_authored h = []" "h_unsaved h = {}" "h_disk h = d" "h_root h = root"
    "h_config h = config" "h_armed h = None"
  using assms by (auto simp: build_head_with_config_def Let_def capture_def split: option.splits)

lemma build_head_inv:
  assumes "build_head_with_config w os root s registry config d mints = Some h"
    and "store_reach (w_xxh3 w) cap s hist" "index_sound registry"
  shows "head_inv w cap h hist"
  using assms(2,3) build_head_fields [OF assms(1)] produced_cold by (simp add: head_inv_def overlay_live_def)

lemma initial_store_reach:
  "\<exists>g. store_reach (w_xxh3 w) (sp_retain_cap (spine (vc_raw config))) (initial_store w os root config) [content_map_new, g]"
proof -
  let ?cap = "sp_retain_cap (spine (vc_raw config))"
  obtain s r where i: "ingest_project (w_xxh3 w) (o_disk os) root (is_project_relevant (w_py_ext w)) (with_retain_cap ?cap) = (s, r)"
    by fastforce
  from ingest [OF opened i] i show ?thesis by (auto simp: initial_store_def)
qed

lemma populate_inv:
  assumes inv: "head_inv w cap h hist" and p: "populate_head w os op h = (h', res)"
  shows "head_inv w cap h' hist"
proof -
  obtain es registry rc mints idl where
    "scope_entities w (h_db h) (live_view os h) (h_hash_policy h) None = Some es" and r:
    "reconcile_impl (w_mint w) (h_registry h) es (revision (h_store h))
       (map_option set None) (h_mints h) = Some (registry, rc, mints)"
    "run_identity_reconciliation w os None (revision (h_store h)) h = Some (h\<lparr>h_registry := registry, h_mints := mints\<rparr>, idl)"
    by (rule reconciliation_run)
  define h1 where "h1 = materialize_initial_code_layer w os (h\<lparr>h_registry := registry, h_mints := mints\<rparr>)"
  have reg: "index_sound registry" using reconcile_sound [OF r(1)] inv by (simp add: head_inv_def)
  have h1: "head_inv w cap h1 hist"
    using inv reg by (simp add: h1_def materialize_initial_code_layer_def head_inv_def produced_full)
  obtain h2 r2 where pe: "persist_identity w os h1 = (h2, r2)" by fastforce
  have "staging h1 h2" using persist_stages [of h1 w os] pe by simp
  from staging_fields [OF this] have h2: "head_inv w cap h2 hist"
    using h1 persist_identity_disk(1) [OF pe] by (simp add: head_inv_def)
  have "h' = h2 \<or> (\<exists>a. h' = h2\<lparr>h_authored := a\<rparr>)"
    using p pe r(2) by (auto simp: populate_head_def h1_def [symmetric] split: sum.splits)
  with h2 show ?thesis by (auto simp: head_inv_def)
qed

lemma open_inv:
  assumes "open_project w os op root d mints = (d', Inr pj)" "pj_inner pj = Some h"
  shows "\<exists>cap hist. head_inv w cap h hist"
proof -
  obtain config d1 registry h0 where "load_registry op d1 (sidecar_new root) = Inr registry"
    and h0: "build_head_with_config w os root (initial_store w os root config) registry config d1 mints = Some h0"
    and po: "populate_head w os op h0 = (h, Inr ())"
    using assms by (auto simp: open_project_def Let_def split: sum.splits prod.splits option.splits)
  then have "index_sound registry" using load_registry_sound by blast
  moreover obtain g where
    "store_reach (w_xxh3 w) (sp_retain_cap (spine (vc_raw config))) (initial_store w os root config) [content_map_new, g]"
    using initial_store_reach by blast
  ultimately have "head_inv w (sp_retain_cap (spine (vc_raw config))) h0 [content_map_new, g]" using build_head_inv [OF h0] by blast
  from populate_inv [OF this po] show ?thesis by blast
qed

section \<open>Sessions\<close>

text \<open>
  The contract of every method of a project: a head it leaves behind continues the published
  history of the head it found.
\<close>

definition continues :: "('md, 'db) world \<Rightarrow> 'db project \<Rightarrow> 'db project \<Rightarrow> bool" where
  "continues w pj pj' \<longleftrightarrow>
     (\<forall>h'. pj_inner pj' = Some h' \<longrightarrow>
        (\<exists>h. pj_inner pj = Some h \<and> (\<forall>cap hist. head_inv w cap h hist \<longrightarrow> (\<exists>ext. head_inv w cap h' (hist @ ext)))))"

lemma continues_refl: "pj_inner pj' = pj_inner pj \<Longrightarrow> continues w pj pj'"
  by (auto simp: continues_def intro: exI [of _ "[]"])

lemma continues_trans: "continues w a b \<Longrightarrow> continues w b c \<Longrightarrow> continues w a c"
  unfolding continues_def by (metis append_assoc)

locale session_method =
  fixes w :: "('md, 'db) world" and call :: "'x \<Rightarrow> 'db project \<Rightarrow> 'db project"
  assumes method_continues: "continues w pj (call x pj)"
begin

lemma methods_continue: "continues w pj (fold call xs pj)"
proof (induction xs arbitrary: pj)
  case (Cons x xs)
  then show ?case using continues_trans method_continues by fastforce
qed (simp add: continues_refl)

end

lemma lock_state_continues:
  assumes "\<And>h cap hist. head_inv w cap h hist \<Longrightarrow> \<exists>ext. head_inv w cap (fst (f h)) (hist @ ext)"
  shows "continues w pj (fst (lock_state f pj))"
  using assms by (auto simp: continues_def lock_state_def split: option.splits prod.splits) (metis fst_conv)

lemma commit_continues:
  "head_inv w cap h hist \<Longrightarrow> \<exists>ext. head_inv w cap (fst (commit_dto_to_py (commit w os m h))) (hist @ ext)"
  using commit_inv [of w cap h hist os m] by (auto simp: commit_dto_to_py_def split: prod.splits sum.splits option.splits)

lemma unchanged_continues: "head_inv w cap h hist \<Longrightarrow> \<exists>ext. head_inv w cap h (hist @ ext)"
  by (rule exI [of _ "[]"]) simp

interpretation m_edit: session_method w "\<lambda>(os, p, text) pj. fst (edit w os p text pj)" for w
  by unfold_locales (auto simp: edit_def intro: lock_state_continues commit_continues)

interpretation m_edit_many: session_method w "\<lambda>(os, edits) pj. fst (edit_many w os edits pj)" for w
  by unfold_locales (auto simp: edit_many_def intro: lock_state_continues commit_continues)

interpretation m_edit_virtual: session_method w "\<lambda>(os, uri, text) pj. fst (edit_virtual w os uri text pj)" for w
  by unfold_locales (auto simp: edit_virtual_def Let_def intro!: lock_state_continues commit_continues)

lemma author_continues: "continues w pj (fst (author w os from_str layer i v pj))"
  unfolding author_def
  by (rule lock_state_continues, cases "from_str v") (simp_all add: unchanged_continues commit_continues)

interpretation m_author: session_method w "\<lambda>(os, from_str, layer, i, v) pj. fst (author w os from_str layer i v pj)" for w
  by unfold_locales (simp add: author_continues split: prod.splits)

interpretation m_register: session_method w "\<lambda>(name, history, review) pj. fst (register_authored_layer name history review pj)"
  for w
  by unfold_locales
    (auto simp: register_authored_layer_def head_inv_def intro!: lock_state_continues exI [of _ "[]"] split: sum.splits)

interpretation m_sync_path: session_method w "\<lambda>(os, p) pj. fst (sync_path w os p pj)" for w
  by unfold_locales (auto simp: sync_path_def intro: lock_state_continues commit_continues)

interpretation m_discard: session_method w "\<lambda>(os, p) pj. fst (discard w os p pj)" for w
  by unfold_locales (auto simp: discard_def intro: lock_state_continues commit_continues)

interpretation m_sync_all: session_method w "\<lambda>os pj. fst (sync_all w os pj)" for w
  by unfold_locales (auto simp: sync_all_def intro: lock_state_continues commit_continues)

interpretation m_fault: session_method w "\<lambda>stg pj. fst (fault_inject stg pj)" for w
  by unfold_locales (auto simp: fault_inject_def head_inv_def intro!: lock_state_continues exI [of _ "[]"])

interpretation m_queue: session_method w "\<lambda>changes pj. watch_handler changes pj" for w
  by unfold_locales (simp add: watch_handler_def continues_refl)

interpretation m_watch: session_method w "\<lambda>started pj. fst (watch started pj)" for w
  by unfold_locales (auto simp: watch_def intro: continues_refl split: option.splits)

interpretation m_inject: session_method w "\<lambda>changes pj. fst (inject_changes changes pj)" for w
  by unfold_locales (auto simp: inject_changes_def intro: continues_refl split: option.splits sum.splits)

interpretation m_unwatch: session_method w "\<lambda>_ pj. unwatch pj" for w
  by unfold_locales (simp add: unwatch_def continues_refl)

lemma poll_continues: "continues w pj (fst (poll_changes w os pj))"
proof -
  let ?pj = "pj\<lparr>pj_pending := []\<rparr>"
  have "continues w ?pj (fst (lock_state (commit w os (Poll evs)) ?pj))" for evs
    by (rule lock_state_continues) (use commit_inv in \<open>metis prod.collapse\<close>)
  moreover have "continues w pj ?pj" by (rule continues_refl) simp
  ultimately show ?thesis
    using continues_trans [of w pj ?pj "fst (lock_state (commit w os (Poll (pj_pending pj))) ?pj)"]
    by (simp add: poll_changes_def Let_def)
qed

interpretation m_poll: session_method w "\<lambda>os pj. fst (poll_changes w os pj)" for w
  by unfold_locales (rule poll_continues)

lemma reload_continues: "continues w pj (fst (reload w os pj))"
  unfolding reload_def
proof (rule lock_state_continues)
  fix h cap hist assume inv: "head_inv w cap h hist"
  show "\<exists>ext. head_inv w cap (fst (case build_head_with_config w os (h_root h) (h_store h) (h_registry h) (h_config h) (h_disk h) (h_mints h)
          of None \<Rightarrow> (h, Inl Panicked) | Some h' \<Rightarrow> (h', Inr ()))) (hist @ ext)"
  proof (cases "build_head_with_config w os (h_root h) (h_store h) (h_registry h) (h_config h) (h_disk h) (h_mints h)")
    case None
    then show ?thesis using unchanged_continues [OF inv] by simp
  next
    case (Some h')
    have "head_inv w cap h' hist" using build_head_inv [OF Some, of cap hist] inv unfolding head_inv_def by blast
    then show ?thesis using Some unchanged_continues by fastforce
  qed
qed

interpretation m_reload: session_method w "\<lambda>os pj. fst (reload w os pj)" for w
  by unfold_locales (rule reload_continues)

interpretation m_close: session_method w "\<lambda>_ pj. close pj" for w
  by unfold_locales (simp add: close_def continues_def)

text \<open>The methods in any order.\<close>

inductive project_step :: "('md, 'db) world \<Rightarrow> 'db project \<Rightarrow> 'db project \<Rightarrow> bool" for w where
  step_edit: "project_step w pj (fst (edit w os p text pj))"
| step_edit_many: "project_step w pj (fst (edit_many w os edits pj))"
| step_edit_virtual: "project_step w pj (fst (edit_virtual w os uri text pj))"
| step_author: "project_step w pj (fst (author w os from_str layer i v pj))"
| step_register: "project_step w pj (fst (register_authored_layer name history review pj))"
| step_sync_path: "project_step w pj (fst (sync_path w os p pj))"
| step_discard: "project_step w pj (fst (discard w os p pj))"
| step_sync_all: "project_step w pj (fst (sync_all w os pj))"
| step_fault: "project_step w pj (fst (fault_inject stg pj))"
| step_queue: "project_step w pj (watch_handler changes pj)"
| step_watch: "project_step w pj (fst (watch started pj))"
| step_inject: "project_step w pj (fst (inject_changes injected pj))"
| step_unwatch: "project_step w pj (unwatch pj)"
| step_poll: "project_step w pj (fst (poll_changes w os pj))"
| step_reload: "project_step w pj (fst (reload w os pj))"
| step_close: "project_step w pj (close pj)"

inductive session :: "('md, 'db) world \<Rightarrow> 'db project \<Rightarrow> bool" for w where
  session_open: "open_project w os op root d mints = (d', Inr pj) \<Longrightarrow> session w pj"
| session_step: "session w pj \<Longrightarrow> project_step w pj pj' \<Longrightarrow> session w pj'"

lemmas method_laws =
  m_edit.method_continues [where x = "(a, b, c)" for a b c, simplified]
  m_edit_many.method_continues [where x = "(a, b)" for a b, simplified]
  m_edit_virtual.method_continues [where x = "(a, b, c)" for a b c, simplified]
  m_author.method_continues [where x = "(a, b, c, d, e)" for a b c d e, simplified]
  m_register.method_continues [where x = "(a, b, c)" for a b c, simplified]
  m_sync_path.method_continues [where x = "(a, b)" for a b, simplified]
  m_discard.method_continues [where x = "(a, b)" for a b, simplified]
  m_sync_all.method_continues m_fault.method_continues m_queue.method_continues m_watch.method_continues m_inject.method_continues m_unwatch.method_continues
  m_poll.method_continues m_reload.method_continues m_close.method_continues

lemma step_continues: "project_step w pj pj' \<Longrightarrow> continues w pj pj'"
  by (induction rule: project_step.induct) (rule method_laws)+

lemma steps_continue: "(project_step w)\<^sup>*\<^sup>* pj pj' \<Longrightarrow> continues w pj pj'"
  by (induction rule: rtranclp_induct) (auto intro: continues_refl continues_trans step_continues)

lemma session_inv: "session w pj \<Longrightarrow> pj_inner pj = Some h \<Longrightarrow> \<exists>cap hist. head_inv w cap h hist"
proof (induction arbitrary: h rule: session.induct)
  case (session_open os op root d mints d' pj)
  then show ?case using open_inv by blast
next
  case (session_step pj pj')
  then show ?case using step_continues [OF session_step.hyps(2)] unfolding continues_def by blast
qed

section \<open>Snapshots\<close>

lemma store_reach_cap: "store_reach xxh3 cap s hist \<Longrightarrow> retain_cap s = cap"
proof (induction rule: store_reach.induct)
  case (ingest s hist os root rel s' r)
  then obtain cs s1 where "read_disk_changes os (walk_relevant_files os root rel) s = (cs, s1)" "apply_batch xxh3 cs s1 = (s', r)"
    by (auto simp: ingest_project_def split: prod.splits)
  with ingest show ?case
    by (auto simp: apply_batch_def mutate_def record_retained_def Let_def elim!: read_disk_changes_store split: prod.splits)
next
  case (committed s hist cs g s1 s' r)
  then show ?case using publish_fields counted_fields [OF stage_counted] by fastforce
next
  case (dropped s hist cs g s')
  then show ?case using counted_fields [OF stage_counted] by fastforce
qed (auto simp: with_retain_cap_def apply_batch_def mutate_def publish_staged_def record_retained_def Let_def
    elim!: read_disk_changes_store split: prod.splits)

text \<open>What a snapshot pins, given the published history.\<close>

lemma snapshot_pins:
  assumes inv: "head_inv w cap h hist" and "0 < cap" and pj: "pj_inner pj = Some h"
    and sn: "take_snapshot w os at pj = Inr sn"
  shows "ts_system (sn_state sn) = overlay_frozen (o_native os) (hist ! sn_revision sn) (sn_revision sn)"
    and "sn_revision sn < length hist"
proof -
  have win: "window cap (h_store h) hist" using store_reach_window inv assms(2) by (auto simp: head_inv_def)
  have "\<exists>g. ts_system (sn_state sn) = overlay_frozen (o_native os) g (sn_revision sn)
      \<and> g = hist ! sn_revision sn \<and> sn_revision sn < length hist"
  proof (cases at)
    case None
    have "generation (h_store h) = hist ! revision (h_store h)" "revision (h_store h) < length hist"
      using win by (auto simp: window_def last_conv_nth)
    with None sn pj show ?thesis by (auto simp: take_snapshot_def build_frozen_def Let_def capture_def)
  next
    case (Some r)
    with sn pj obtain g where g: "generation_at (h_store h) r = Some g"
      by (auto simp: take_snapshot_def split: option.splits)
    with win have "g = hist ! r" "r < length hist"
      by (auto simp: window_def generation_at_def map_of_drop_enumerate split: if_splits)
    with Some g sn pj show ?thesis by (auto simp: take_snapshot_def build_frozen_def Let_def)
  qed
  then show "ts_system (sn_state sn) = overlay_frozen (o_native os) (hist ! sn_revision sn) (sn_revision sn)"
    "sn_revision sn < length hist" by auto
qed

lemma snapshot_available:
  assumes "head_inv w cap h hist" "0 < cap" "pj_inner pj = Some h"
  shows "(\<exists>sn. take_snapshot w os (Some q) pj = Inr sn) \<longleftrightarrow>
    q \<le> revision (h_store h) \<and> revision (h_store h) < q + cap"
proof -
  have win: "window cap (h_store h) hist" using store_reach_window assms(1,2) by (auto simp: head_inv_def)
  then have "length hist = Suc (revision (h_store h))" by (cases hist) (auto simp: window_def)
  with win assms(2) have "generation_at (h_store h) q \<noteq> None \<longleftrightarrow> q \<le> revision (h_store h) \<and> revision (h_store h) < q + cap"
    by (auto simp: window_def generation_at_def map_of_drop_enumerate split: if_splits)
  then show ?thesis using assms(3) by (auto simp: take_snapshot_def split: option.splits)
qed

section \<open>Properties\<close>

text \<open>
  C3.  The session invariant: whatever sequence of method calls led to a project, succeeding
  or failing, the live overlay the analysis reads shows exactly the published head
  generation, the registry's path and hash indexes agree with its anchors, and the code
  layer's reverse-dependency and file indexes are exact.
\<close>

theorem session_consistent:
  assumes "session w pj" "pj_inner pj = Some h"
  shows "content (h_system h) = generation (h_store h) \<and> frozen (h_system h) = None \<and> index_sound (h_registry h)
    \<and> reverse_deps (h_code_layer h) = derived_reverse_deps (h_code_layer h) \<and> files_exact (h_code_layer h)"
proof -
  obtain cap hist where inv: "head_inv w cap h hist" using session_inv [OF assms] by blast
  then show ?thesis using produced_inv [of "h_code_layer h"] layer_inv_index by (simp add: head_inv_def)
qed

text \<open>
  C2.  Snapshot isolation.  A snapshot pins the content of its revision: whatever is written
  to the session afterwards (edits, syncs, polls, authored records, failed commits,
  reloads), a snapshot of the same revision taken later shows the same files.  And time
  travel reaches exactly the last \<open>retain_cap\<close> revisions: a snapshot at \<open>q\<close> is granted iff
  \<open>q\<close> is among them.
\<close>

theorem snapshot_isolation:
  assumes "session w pj" "(project_step w)\<^sup>*\<^sup>* pj pj'" "pj_inner pj = Some h" "0 < retain_cap (h_store h)"
  shows "(\<forall>at at' sn sn'. take_snapshot w os at pj = Inr sn \<and> take_snapshot w os' at' pj' = Inr sn' \<and> sn_revision sn' = sn_revision sn
      \<longrightarrow> content (ts_system (sn_state sn')) = content (ts_system (sn_state sn)))
    \<and> ((\<exists>sn. take_snapshot w os (Some q) pj = Inr sn) \<longleftrightarrow>
        q \<le> revision (h_store h) \<and> revision (h_store h) < q + retain_cap (h_store h))"
proof (intro conjI allI impI)
  obtain cap hist where inv: "head_inv w cap h hist" using session_inv [OF assms(1,3)] by blast
  have cap: "cap = retain_cap (h_store h)" using inv store_reach_cap by (auto simp: head_inv_def)
  then have pos: "0 < cap" using assms(4) by simp
  show "(\<exists>sn. take_snapshot w os (Some q) pj = Inr sn) \<longleftrightarrow>
      q \<le> revision (h_store h) \<and> revision (h_store h) < q + retain_cap (h_store h)"
    using snapshot_available [OF inv pos assms(3)] cap by simp
  fix at at' sn sn'
  assume a: "take_snapshot w os at pj = Inr sn \<and> take_snapshot w os' at' pj' = Inr sn' \<and> sn_revision sn' = sn_revision sn"
  obtain h' where h': "pj_inner pj' = Some h'" using a by (cases "pj_inner pj'") (auto simp: take_snapshot_def)
  obtain ext where ext: "head_inv w cap h' (hist @ ext)"
    using steps_continue [OF assms(2)] h' assms(3) inv unfolding continues_def by (metis option.inject)
  show "content (ts_system (sn_state sn')) = content (ts_system (sn_state sn))"
    using a snapshot_pins [OF inv pos assms(3) conjunct1 [OF a]]
      snapshot_pins [OF ext pos h' conjunct1 [OF conjunct2 [OF a]]]
    by (simp add: overlay_frozen_def nth_append)
qed

end
