(* ===== verification/Writes.thy ===== *)
theory Writes
  imports Isolation
begin

text \<open>
  The write methods end to end: what an edit publishes, that disk events and rescans respect
  unsaved buffers, which identities an edit touches, and what a reload forgets.
\<close>

section \<open>Edits\<close>

lemma edit_plan:
  obtains h1 sg where "build_plan w os (edits_mutation w os [(p, text)] h) h = (h1, Inr (Some sg))"
    "stage (w_xxh3 w) [Insert (resolve_sync_path (h_root h) p) text] (h_store h) = (sg_gen sg, h_store h1)"
    "sg_unsaved_insert sg = [resolve_sync_path (h_root h) p]" "sg_unsaved_remove sg = []" "sg_reconcile sg"
    "is_python_path w (resolve_sync_path (h_root h) p) \<Longrightarrow> sg_scope sg = Some [resolve_sync_path (h_root h) p]"
    "h1 = h\<lparr>h_store := h_store h1\<rparr>"
proof -
  let ?abs = "resolve_sync_path (h_root h) p"
  obtain g s where st: "stage (w_xxh3 w) [Insert ?abs text] (h_store h) = (g, s)" by fastforce
  have "\<exists>h1 sg. build_plan w os (edits_mutation w os [(p, text)] h) h = (h1, Inr (Some sg)) \<and> sg_gen sg = g \<and> h1 = h\<lparr>h_store := s\<rparr>
      \<and> sg_unsaved_insert sg = [?abs] \<and> sg_unsaved_remove sg = [] \<and> sg_reconcile sg
      \<and> (is_python_path w ?abs \<longrightarrow> sg_scope sg = Some [?abs])"
    using st by (simp add: edits_mutation_def stage_head_def Let_def identity_scope_from_events_def classify_overlay_edit_def
        List.map_filter_def)
  then show ?thesis using that st by fastforce
qed

text \<open>
  C13.  An edit publishes.  With a working sidecar, a registry that serialises and no armed
  test fault, \<open>edit\<close> always succeeds: the revision advances by one and is the one reported,
  reading the resolved path through the live overlay gives the new text, every other path
  shows what it showed, the path joins the unsaved buffers, and the reconciled registry is on
  disk.
\<close>

theorem edit_publishes:
  assumes "pj_inner pj = Some h" "o_io os = io_ok" "h_armed h = None"
    and "\<forall>j. \<exists>bytes. w_to_vec_pretty w j = Inr bytes"
  shows "\<exists>pj' h' delta. edit w os p text pj = (pj', Inr delta) \<and> pj_inner pj' = Some h'
    \<and> revision (h_store h') = revision (h_store h) + 1 \<and> cm_revision delta = revision (h_store h')
    \<and> read_to_string (h_system h') (resolve_sync_path (h_root h) p) = Inr text
    \<and> (\<forall>q. q \<noteq> resolve_sync_path (h_root h) p \<longrightarrow> visible (generation (h_store h')) q = visible (generation (h_store h)) q)
    \<and> h_unsaved h' = insert (resolve_sync_path (h_root h) p) (h_unsaved h)
    \<and> (\<exists>bytes. to_bytes (w_to_vec_pretty w) (h_registry h') = Inr bytes
         \<and> h_disk h' (identity_db_path (h_sidecar h')) = Some bytes)"
proof -
  let ?abs = "resolve_sync_path (h_root h) p"
  obtain h1 sg where b: "build_plan w os (edits_mutation w os [(p, text)] h) h = (h1, Inr (Some sg))"
    and st: "stage (w_xxh3 w) [Insert ?abs text] (h_store h) = (sg_gen sg, h_store h1)"
    and sg: "sg_unsaved_insert sg = [?abs]" "sg_unsaved_remove sg = []" "sg_reconcile sg"
    and h1: "h1 = h\<lparr>h_store := h_store h1\<rparr>" by (rule edit_plan)
  obtain h' delta where c: "commit w os (edits_mutation w os [(p, text)] h) h = (h', Inr (Some delta))"
    using commit_succeeds [OF b assms(2,3)] assms(4) by blast
  have e: "edit w os p text pj = (pj\<lparr>pj_inner := Some h'\<rparr>, Inr delta)"
    using assms(1) c by (simp add: edit_def lock_state_def commit_dto_to_py_def)
  obtain h1' sg' where "build_plan w os (edits_mutation w os [(p, text)] h) h = (h1', Inr (Some sg'))"
    "published w sg' h1' h' delta" by (rule commit_success [OF c])
  with b have pub: "published w sg h1 h' delta" by simp
  have f: "h_system h1 = h_system h" "h_unsaved h1 = h_unsaved h" by (subst h1, simp)+
  have pb: "publish_staged (sg_gen sg) (h_store h1) = (h_store h', cm_revision delta)" using pub by (simp add: published_def)
  note pf = publish_fields [OF pb] and cf = counted_fields [OF stage_counted [OF st]]
  have vis: "visible (sg_gen sg) q = (if q = ?abs then Some (Some text) else visible (generation (h_store h)) q)" for q
    using stage_visible [OF st, of q] by auto
  have sys: "h_system h' = publish (h_system h) (sg_gen sg)" using pub f by (simp add: published_def)
  have "read_to_string (h_system h') ?abs = Inr text"
    using vis [of ?abs] sys
    by (auto simp: read_to_string_def overlay_document_def publish_def visible_def split: option.splits document.splits)
  moreover have "h_unsaved h' = insert ?abs (h_unsaved h)" using pub sg f by (simp add: published_def)
  moreover have "\<exists>bytes. to_bytes (w_to_vec_pretty w) (h_registry h') = Inr bytes
      \<and> h_disk h' (identity_db_path (h_sidecar h')) = Some bytes" using pub sg(3) unfolding published_def by blast
  ultimately show ?thesis using e pf cf vis by simp
qed

section \<open>Unsaved buffers\<close>

lemma poll_event_avoids:
  assumes "p \<in> unsaved" "\<forall>c\<in>set cs. \<forall>x. change_effect c p x = x"
    and "poll_event disk unsaved ev (cs, ks, a, b, c) = (cs', ks', a', b', c')"
  shows "\<forall>c\<in>set cs'. \<forall>x. change_effect c p x = x"
  using assms by (auto simp: poll_event_def disk_change_def split: option.splits if_splits change_event.splits sum.splits)

lemma poll_events_avoid:
  assumes "p \<in> unsaved" "\<forall>c\<in>set cs. \<forall>x. change_effect c p x = x"
    and "fold (poll_event disk unsaved) evs (cs, ks, a, b, c) = (cs', ks', a', b', c')"
  shows "\<forall>c\<in>set cs'. \<forall>x. change_effect c p x = x"
  using assms
proof (induction evs arbitrary: cs ks a b c)
  case (Cons ev evs)
  obtain cs1 ks1 a1 b1 c1 where one: "poll_event disk unsaved ev (cs, ks, a, b, c) = (cs1, ks1, a1, b1, c1)"
    by (metis prod_cases5)
  from Cons.IH [OF Cons.prems(1) poll_event_avoids [OF Cons.prems(1,2) one]] Cons.prems(3) one show ?case by simp
qed simp

lemma fold_avoids: "\<forall>c\<in>set cs. \<forall>x. change_effect c p x = x \<Longrightarrow> fold (\<lambda>c. change_effect c p) cs x = x"
  by (induction cs) auto

text \<open>Neither plan touches the buffer or the set of unsaved paths.\<close>

lemma disk_plans_avoid:
  assumes "p \<in> h_unsaved h" "build_plan w os m h = (h1, Inr (Some sg))" "m = Poll evs \<or> m = SyncAll"
  shows "visible (sg_gen sg) p = visible (generation (h_store h)) p" "sg_unsaved_insert sg = []" "sg_unsaved_remove sg = []"
proof -
  show "sg_unsaved_insert sg = []" "sg_unsaved_remove sg = []"
    using assms(2,3) by (auto simp: build_poll_plan_def split: prod.splits if_splits)
  show "visible (sg_gen sg) p = visible (generation (h_store h)) p"
  proof (cases "m = SyncAll")
    case True
    with assms(2) have "stage_reingest (w_xxh3 w) (o_disk os) (h_root h) (is_project_relevant (w_py_ext w)) (h_unsaved h) (h_store h)
        = (sg_gen sg, h_store h1)" by (auto split: prod.splits)
    with reingest_visible assms(1) show ?thesis by metis
  next
    case False
    with assms(3) have m: "build_plan w os m h = build_poll_plan w os evs h" by auto
    obtain cs ks a b c where f: "fold (poll_event (o_disk os) (h_unsaved h)) evs ([], [], [], [], []) = (cs, ks, a, b, c)"
      by (metis prod_cases5)
    have avoid: "\<forall>c\<in>set cs. \<forall>x. change_effect c p x = x" using poll_events_avoid [OF assms(1) _ f] by simp
    show ?thesis
    proof (cases "EvRescan \<in> set evs")
      case True
      then have "evs \<noteq> []" by auto
      with True assms(2) m show ?thesis by (auto simp: build_poll_plan_def stage_unchanged_def)
    next
      case False
      with assms(2) m f have "stage (w_xxh3 w) cs (h_store h) = (sg_gen sg, h_store h1)"
        by (auto simp: build_poll_plan_def stage_head_def split: prod.splits if_splits)
      from stage_visible [OF this, of p] fold_avoids [OF avoid] show ?thesis by simp
    qed
  qed
qed

lemma commit_keeps_buffer:
  assumes p: "p \<in> h_unsaved h" and c: "commit w os m h = (h', res)" and m: "m = Poll evs \<or> m = SyncAll"
  shows "visible (generation (h_store h')) p = visible (generation (h_store h)) p \<and> p \<in> h_unsaved h'"
proof (cases res)
  case (Inl e)
  with c obtain h1 r where b: "build_plan w os m h = (h1, r)" and h': "h_store h' = h_store h1" "h_unsaved h' = h_unsaved h1"
    by (auto elim: commit_error_store)
  obtain s where "h1 = h\<lparr>h_store := s\<rparr>" "counted (h_store h) s" using build_plan_head [OF b] by blast
  with counted_fields h' p show ?thesis by fastforce
next
  case (Inr d)
  show ?thesis
  proof (cases d)
    case None
    with Inr c commit_noop p show ?thesis by metis
  next
    case (Some delta)
    with Inr c have "commit w os m h = (h', Inr (Some delta))" by simp
    then obtain h1 sg where b: "build_plan w os m h = (h1, Inr (Some sg))" and pub: "published w sg h1 h' delta"
      by (rule commit_success)
    obtain s where "h1 = h\<lparr>h_store := s\<rparr>" using build_plan_head [OF b] by blast
    moreover have "generation (h_store h') = sg_gen sg" using pub publish_fields by (auto simp: published_def)
    ultimately show ?thesis using disk_plans_avoid [OF p b m] pub p by (simp add: published_def)
  qed
qed

lemma quiet_events:
  assumes "\<forall>ev\<in>set evs. \<forall>q. system_path ev = Some q \<longrightarrow> q \<in> unsaved"
  shows "fold (poll_event disk unsaved) evs st = st"
proof -
  have "poll_event disk unsaved ev st = st" if "ev \<in> set evs" for ev
    using assms that by (auto simp: poll_event_def split: option.splits prod.splits)
  then show ?thesis by (induction evs) auto
qed

text \<open>
  C14.  Unsaved buffers win.  Neither folding the watcher's events nor a rescan of the whole
  project changes what an unsaved buffer shows, whether the commit succeeds or fails, and
  the buffer stays unsaved.  A batch of events that all concern unsaved buffers (or no path at
  all) is dropped without a commit: the project is unchanged but for the drained queue.
\<close>

theorem unsaved_buffers_win:
  assumes "pj_inner pj = Some h"
  shows "(\<forall>p h'. p \<in> h_unsaved h \<and> (pj_inner (fst (poll_changes w os pj)) = Some h' \<or> pj_inner (fst (sync_all w os pj)) = Some h')
      \<longrightarrow> visible (generation (h_store h')) p = visible (generation (h_store h)) p \<and> p \<in> h_unsaved h')
    \<and> ((\<forall>ev\<in>set (pj_pending pj). ev \<noteq> EvRescan \<and> (\<forall>q. system_path ev = Some q \<longrightarrow> q \<in> h_unsaved h))
      \<longrightarrow> poll_changes w os pj = (pj\<lparr>pj_pending := []\<rparr>, Inr None))"
proof (intro conjI allI impI)
  fix p h' assume a: "p \<in> h_unsaved h \<and> (pj_inner (fst (poll_changes w os pj)) = Some h' \<or> pj_inner (fst (sync_all w os pj)) = Some h')"
  have "h' = h \<or> (\<exists>m res. commit w os m h = (h', res) \<and> (m = Poll (pj_pending pj) \<or> m = SyncAll))"
    using a assms
    by (auto simp: poll_changes_def sync_all_def lock_state_def commit_dto_to_py_def Let_def
        split: prod.splits if_splits sum.splits option.splits)
  with commit_keeps_buffer a
  show "visible (generation (h_store h')) p = visible (generation (h_store h)) p" "p \<in> h_unsaved h'" by blast+
next
  assume q: "\<forall>ev\<in>set (pj_pending pj). ev \<noteq> EvRescan \<and> (\<forall>q. system_path ev = Some q \<longrightarrow> q \<in> h_unsaved h)"
  then have "fold (poll_event (o_disk os) (h_unsaved h)) (pj_pending pj) ([], [], [], [], []) = ([], [], [], [], [])"
    by (intro quiet_events) blast
  moreover have "EvRescan \<notin> set (pj_pending pj)" using q by blast
  ultimately have "commit w os (Poll (pj_pending pj)) h = (h, Inr None)"
    by (simp add: commit_def build_poll_plan_def)
  then show "poll_changes w os pj = (pj\<lparr>pj_pending := []\<rparr>, Inr None)"
    using assms by (simp add: poll_changes_def lock_state_def Let_def)
qed

section \<open>Identity\<close>

text \<open>
  C15.  An edit leaves the identities of other files alone.  After a successful edit of a
  Python file whose absolute path has no colon (a colon would end the file part of a qualified
  path early), on a head with a sound path index and a generator of fresh ids, every anchor of
  another file is exactly as it was, status and revision included, and the reported delta does
  not name it as created, changed, deleted or moved.  Nothing is assumed of the entities of
  the edited file: redefinitions and overloads may share a path.
\<close>

theorem edit_local:
  assumes "pj_inner pj = Some h" "edit w os p text pj = (pj', Inr delta)" "pj_inner pj' = Some h'"
    and "is_python_path w (resolve_sync_path (h_root h) p)" "CHR '':'' \<notin> set (resolve_sync_path (h_root h) p)"
    and "index_sound (h_registry h)" "fresh_mint (w_mint w) (h_registry h) (h_mints h)"
    and "registry_get (h_registry h) i = Some a" "anchor_file (a_qualified_path a) \<noteq> Some (resolve_sync_path (h_root h) p)"
  shows "registry_get (h_registry h') i = Some a
    \<and> id_str i \<notin> set (cm_created_ids delta) \<union> set (cm_changed_ids delta) \<union> set (cm_deleted_ids delta)
        \<union> md_id ` set (cm_moved delta)"
proof -
  let ?abs = "resolve_sync_path (h_root h) p"
  obtain h1 sg where b: "build_plan w os (edits_mutation w os [(p, text)] h) h = (h1, Inr (Some sg))"
    and sg: "sg_reconcile sg" "is_python_path w ?abs \<Longrightarrow> sg_scope sg = Some [?abs]"
    by (rule edit_plan [of w os p "text" h]) blast
  have c: "commit w os (edits_mutation w os [(p, text)] h) h = (h', Inr (Some delta))"
    using assms(1-3) by (auto simp: edit_def lock_state_def commit_dto_to_py_def split: prod.splits sum.splits option.splits)
  obtain es rc mints where es: "scope_entities w (h_db h') (live_view os h') (h_hash_policy h') (Some [?abs]) = Some es"
    and r: "reconcile_impl (w_mint w) (h_registry h) es (next_revision (h_store h)) (Some {?abs}) (h_mints h) = Some (h_registry h', rc, mints)"
    and d: "cm_created_ids delta = map id_str (created (classify rc es))" "cm_changed_ids delta = map id_str (changed (classify rc es))"
      "cm_deleted_ids delta = map id_str (deleted (classify rc es))" "cm_moved delta = map moved_entity (moved (classify rc es))"
    using commit_reconciles [OF c b sg(1)] sg(2) [OF assms(4)] by (auto simp: reconciled_def)
  have "\<forall>e\<in>set es. \<exists>f\<in>{?abs}. anchor_file (e_qualified_path e) = Some f"
    using es assms(5) extracted_anchor_file [of "w_xxh3 w" "w_py_ext w" _ _ "{?abs}" es] by (fastforce simp: scope_entities_def)
  then have l: "registry_get (h_registry h') i = Some a" "i \<notin> set (retired rc)" "i \<notin> binding_id ` snd ` set (bindings rc)"
    using scoped_reconcile_local [of "w_mint w" "h_registry h" es "next_revision (h_store h)" "{?abs}" "h_mints h", unfolded reconcile_scoped_def, OF r]
      assms(6-9) by auto
  have "i \<notin> set (created (classify rc es))" "i \<notin> set (changed (classify rc es))"
    using l(3) by (force simp: created_iff changed_iff image_iff)+
  moreover have "id_str i \<notin> md_id ` set (cm_moved delta)"
    using l(3) moved_D [of _ rc es] by (force simp: d(4) moved_entity_def dest: durable_id.expand)
  moreover have "id_str i \<in> set (map id_str xs) \<longleftrightarrow> i \<in> set xs" for xs by (auto dest: durable_id.expand)
  ultimately show ?thesis using l(1,2) d classify_fields(3) by simp
qed

section \<open>Reload\<close>

text \<open>
  A reload forgets the authored records, and the next authored write makes the loss
  permanent: it keeps that record only, with an empty history, and overwrites the record
  file on disk with it, whatever history was there before.
\<close>

theorem reload_loses_authored_history:
  assumes "reload w os pj = (pj1, Inr ())" "author w os' from_str layer i v pj1 = (pj2, Inr delta)"
  shows "\<exists>h2 version bytes. pj_inner pj2 = Some h2 \<and> h_authored h2 = [((layer, i), \<lparr>ar_current = version, ar_history = []\<rparr>)]
    \<and> doc_to_bytes (w_encode_doc w) \<lparr>ad_format_version = authored_format_version, ad_layer = layer, ad_durable_id = i,
         ad_current = version, ad_history = []\<rparr> = Inr bytes
    \<and> h_disk h2 (record_path (h_sidecar h2) layer i) = Some bytes"
proof -
  obtain h h1 where "pj_inner pj = Some h" and h1: "pj_inner pj1 = Some h1"
    and bh: "build_head_with_config w os (h_root h) (h_store h) (h_registry h) (h_config h) (h_disk h) (h_mints h) = Some h1"
    using assms(1) by (auto simp: reload_def lock_state_def split: option.splits prod.splits)
  note a1 = build_head_fields(5) [OF bh]
  obtain val h2 where c: "commit w os' (Author layer i val) h1 = (h2, Inr (Some delta))" and h2: "pj_inner pj2 = Some h2"
    using assms(2) h1
    by (auto simp: author_def lock_state_def commit_dto_to_py_def split: sum.splits prod.splits option.splits)
  from c obtain hp sg where b: "build_plan w os' (Author layer i val) h1 = (hp, Inr (Some sg))"
    and pub: "published w sg hp h2 delta" by (rule commit_success)
  from b have "author_plan w layer i val h1 = Inr sg" and hp: "hp = h1" by (auto split: sum.splits)
  then obtain version bytes where "sg_authored sg = Some \<lparr>ap_next_store = [((layer, i), \<lparr>ar_current = version, ar_history = []\<rparr>)],
      ap_record_path = record_path (h_sidecar h1) layer i, ap_bytes = bytes, ap_id = i\<rparr>"
    and "doc_to_bytes (w_encode_doc w) \<lparr>ad_format_version = authored_format_version, ad_layer = layer, ad_durable_id = i,
         ad_current = version, ad_history = []\<rparr> = Inr bytes"
    by (auto simp: author_plan_def Let_def a1 authored_put_def records_get_def split: option.splits sum.splits)
  with pub h2 hp show ?thesis by (auto simp: published_def authored_after_def)
qed

end
