(* ===== verification/Reads.thy ===== *)
theory Reads
  imports Session
begin

text \<open>
  Reads through the three handles (\<open>rust/src/project/identity_ops.rs\<close>, \<open>head_view.rs\<close>, and the
  read methods of \<open>methods.rs\<close> and \<open>snapshot.rs\<close>): the project, a snapshot, and the floating
  view of the live head, whose reads a concurrent write can cancel and which retries them.

  A snapshot handle is absent once closed.  The retry loop runs beside other threads: the
  functions \<open>pjs\<close>, \<open>oss\<close> and \<open>cancelled\<close> give the project, the operating system and the
  cancellation as each attempt finds them.
\<close>

section \<open>Errors and state\<close>

datatype read_error =
    StateError commit_error
  | PathResolutionError str
  | PositionReadError position_error
  | ReadPanicked

fun into_pyerr :: "analysis_error \<Rightarrow> read_error" where
  "into_pyerr (PathError e) = PathResolutionError e"
| "into_pyerr (PositionError e) = PositionReadError e"
| "into_pyerr RangePanic = ReadPanicked"
| "into_pyerr Diverges = ReadPanicked"

definition py_result :: "(analysis_error, 'a) result \<Rightarrow> (read_error, 'a) result" where
  "py_result m = (case m of Inl e \<Rightarrow> Inl (into_pyerr e) | Inr x \<Rightarrow> Inr x)"

definition state_view :: "('md, 'db) world \<Rightarrow> 'db ty_state \<Rightarrow> read_state" where
  "state_view w st =
     read_view w (ts_db st) (ts_system st) (ts_root st) (ts_registry st) (ts_hash_policies st) (ts_default_hash_profile st)"

definition read_state_of :: "'db head option \<Rightarrow> ('db head \<Rightarrow> 'a) \<Rightarrow> (read_error, 'a) result" where
  "read_state_of inner f = (case inner of None \<Rightarrow> Inl (StateError ProjectClosedError) | Some h \<Rightarrow> Inr (f h))"

definition clone_locked_state :: "outside \<Rightarrow> 'db project \<Rightarrow> (read_error, 'db ty_state) result" where
  "clone_locked_state os pj = read_state_of (pj_inner pj) (read_clone os)"

section \<open>Identity reads\<close>

definition locate :: "identity_registry \<Rightarrow> str \<Rightarrow> str option" where
  "locate registry durable_id = map_option a_qualified_path (registry_get registry (DurableId durable_id))"

definition identity_needs_review :: "validated_config \<Rightarrow> authored_map option \<Rightarrow> identity_registry \<Rightarrow> str list" where
  "identity_needs_review config authored registry =
     (case authored of None \<Rightarrow> [] | Some a \<Rightarrow> needs_review_ids config a registry)"

definition orphaned :: "identity_registry \<Rightarrow> str list" where
  "orphaned registry = map (\<lambda>a. id_str (a_id a)) (filter (\<lambda>a. a_status a = Orphaned) (map snd (by_id registry)))"

section \<open>The project\<close>

definition project_id_for ::
  "('md, 'db) world \<Rightarrow> outside \<Rightarrow> 'db project \<Rightarrow> path \<Rightarrow> u32 \<Rightarrow> u32 \<Rightarrow> (read_error, str option) result" where
  "project_id_for w os pj p line col =
     rbind (clone_locked_state os pj) (\<lambda>st. py_result (id_for (state_view w st) p line col))"

definition project_locate :: "'db project \<Rightarrow> str \<Rightarrow> (read_error, str option) result" where
  "project_locate pj durable_id = read_state_of (pj_inner pj) (\<lambda>h. locate (h_registry h) durable_id)"

definition project_needs_review :: "'db project \<Rightarrow> (read_error, str list) result" where
  "project_needs_review pj =
     read_state_of (pj_inner pj) (\<lambda>h. identity_needs_review (h_config h) (Some (h_authored h)) (h_registry h))"

definition project_orphaned :: "'db project \<Rightarrow> (read_error, str list) result" where
  "project_orphaned pj = read_state_of (pj_inner pj) (\<lambda>h. orphaned (h_registry h))"

definition project_full_code_delta :: "('md, 'db) world \<Rightarrow> outside \<Rightarrow> 'db project \<Rightarrow> (read_error, code_delta) result" where
  "project_full_code_delta w os pj =
     read_state_of (pj_inner pj) (\<lambda>h. full_code_delta_for w (read_clone os h) (revision (h_store h)))"

definition project_head :: "'db project \<Rightarrow> (read_error, revision) result" where
  "project_head pj = read_state_of (pj_inner pj) (\<lambda>h. revision (h_store h))"

section \<open>Snapshots\<close>

definition state_read_clone :: "'db ty_state \<Rightarrow> 'db ty_state" where
  "state_read_clone st = st\<lparr>ts_authored := None\<rparr>"

definition snapshot_clone :: "'db snapshot option \<Rightarrow> (read_error, 'db ty_state) result" where
  "snapshot_clone sn =
     (case sn of None \<Rightarrow> Inl (StateError ProjectClosedError) | Some s \<Rightarrow> Inr (state_read_clone (sn_state s)))"

definition open_snapshot :: "'db snapshot option \<Rightarrow> ('db snapshot \<Rightarrow> 'a) \<Rightarrow> (read_error, 'a) result" where
  "open_snapshot sn f = (case sn of None \<Rightarrow> Inl (StateError PyRuntimeError) | Some s \<Rightarrow> Inr (f s))"

definition snapshot_files :: "('md, 'db) world \<Rightarrow> 'db snapshot option \<Rightarrow> (read_error, path list) result" where
  "snapshot_files w sn = rbind (snapshot_clone sn) (\<lambda>st. Inr (compute_files (state_view w st)))"

definition snapshot_full_code_delta :: "('md, 'db) world \<Rightarrow> 'db snapshot option \<Rightarrow> (read_error, code_delta) result" where
  "snapshot_full_code_delta w sn =
     rbind (snapshot_clone sn) (\<lambda>st. Inr (full_code_delta_for w st (case sn of Some s \<Rightarrow> sn_revision s | None \<Rightarrow> 0)))"

definition snapshot_document_symbols ::
  "('md, 'db) world \<Rightarrow> 'db snapshot option \<Rightarrow> path \<Rightarrow> (read_error, symbol_dto list) result" where
  "snapshot_document_symbols w sn p =
     rbind (snapshot_clone sn) (\<lambda>st. py_result (compute_document_symbols (state_view w st) p))"

definition snapshot_id_for ::
  "('md, 'db) world \<Rightarrow> 'db snapshot option \<Rightarrow> path \<Rightarrow> u32 \<Rightarrow> u32 \<Rightarrow> (read_error, str option) result" where
  "snapshot_id_for w sn p line col =
     rbind (snapshot_clone sn) (\<lambda>st. py_result (id_for (state_view w st) p line col))"

definition snapshot_locate :: "'db snapshot option \<Rightarrow> str \<Rightarrow> (read_error, str option) result" where
  "snapshot_locate sn durable_id = open_snapshot sn (\<lambda>s. locate (ts_registry (sn_state s)) durable_id)"

definition snapshot_needs_review :: "'db snapshot option \<Rightarrow> (read_error, str list) result" where
  "snapshot_needs_review sn =
     open_snapshot sn (\<lambda>s. identity_needs_review (sn_config s) (ts_authored (sn_state s)) (ts_registry (sn_state s)))"

definition snapshot_orphaned :: "'db snapshot option \<Rightarrow> (read_error, str list) result" where
  "snapshot_orphaned sn = open_snapshot sn (\<lambda>s. orphaned (ts_registry (sn_state s)))"

definition snapshot_close :: "'db snapshot option \<Rightarrow> 'db snapshot option" where
  "snapshot_close sn = None"

section \<open>The floating view\<close>

definition max_head_retries :: nat where
  "max_head_retries = 200"

function head_attempts ::
  "(nat \<Rightarrow> 'db project) \<Rightarrow> (nat \<Rightarrow> outside) \<Rightarrow> (nat \<Rightarrow> bool) \<Rightarrow> ('db ty_state \<Rightarrow> 'a) \<Rightarrow> nat \<Rightarrow> (read_error, 'a) result" where
  "head_attempts pjs oss cancelled f attempts =
     (case clone_locked_state (oss attempts) (pjs attempts) of
        Inl e \<Rightarrow> Inl e
      | Inr st \<Rightarrow>
          if \<not> cancelled attempts then Inr (f st)
          else if attempts + 1 \<ge> max_head_retries then Inl (StateError PyRuntimeError)
          else head_attempts pjs oss cancelled f (attempts + 1))"
  by pat_completeness auto
termination
  by (relation "measure (\<lambda>(_, _, _, _, attempts). max_head_retries - attempts)") auto

declare head_attempts.simps [simp del]

definition read_head_with_retry ::
  "(nat \<Rightarrow> 'db project) \<Rightarrow> (nat \<Rightarrow> outside) \<Rightarrow> (nat \<Rightarrow> bool) \<Rightarrow> ('db ty_state \<Rightarrow> 'a) \<Rightarrow> (read_error, 'a) result" where
  "read_head_with_retry pjs oss cancelled f = head_attempts pjs oss cancelled f 0"

definition head_view_files ::
  "('md, 'db) world \<Rightarrow> (nat \<Rightarrow> 'db project) \<Rightarrow> (nat \<Rightarrow> outside) \<Rightarrow> (nat \<Rightarrow> bool) \<Rightarrow> (read_error, path list) result" where
  "head_view_files w pjs oss cancelled = read_head_with_retry pjs oss cancelled (\<lambda>st. compute_files (state_view w st))"

definition head_view_id_for ::
  "('md, 'db) world \<Rightarrow> (nat \<Rightarrow> 'db project) \<Rightarrow> (nat \<Rightarrow> outside) \<Rightarrow> (nat \<Rightarrow> bool) \<Rightarrow> path \<Rightarrow> u32 \<Rightarrow> u32
   \<Rightarrow> (read_error, str option) result" where
  "head_view_id_for w pjs oss cancelled p line col =
     rbind (read_head_with_retry pjs oss cancelled (\<lambda>st. py_result (id_for (state_view w st) p line col))) (\<lambda>r. r)"

section \<open>Properties\<close>

lemma skip_cancelled:
  "k \<le> n \<Longrightarrow> n < max_head_retries \<Longrightarrow> \<forall>j<n. cancelled j \<and> pj_inner (pjs j) \<noteq> None \<Longrightarrow>
   head_attempts pjs oss cancelled f k = head_attempts pjs oss cancelled f n"
proof (induction "n - k" arbitrary: k)
  case (Suc d)
  then have "k < n" "Suc k \<le> n" by simp_all
  with Suc.prems have "cancelled k" "pj_inner (pjs k) \<noteq> None" "\<not> max_head_retries \<le> Suc k" by auto
  then have "head_attempts pjs oss cancelled f k = head_attempts pjs oss cancelled f (Suc k)"
    by (subst head_attempts.simps) (auto simp: clone_locked_state_def read_state_of_def)
  also have "\<dots> = head_attempts pjs oss cancelled f n" using Suc by simp
  finally show ?case .
qed simp

text \<open>
  C23.  A floating read ends, whatever the writers do.  After \<open>n\<close> cancelled attempts it answers
  from the head as the next attempt finds it, reports the project closed if it has been
  closed by then, and gives up with an error after two hundred cancellations.
\<close>

theorem head_read_retries:
  assumes "\<forall>k<n. cancelled k \<and> pj_inner (pjs k) \<noteq> None"
  shows "(n < 200 \<and> \<not> cancelled n \<and> pj_inner (pjs n) = Some h \<longrightarrow>
        read_head_with_retry pjs oss cancelled f = Inr (f (read_clone (oss n) h)))
    \<and> (n < 200 \<and> pj_inner (pjs n) = None \<longrightarrow> read_head_with_retry pjs oss cancelled f = Inl (StateError ProjectClosedError))
    \<and> (200 \<le> n \<longrightarrow> read_head_with_retry pjs oss cancelled f = Inl (StateError PyRuntimeError))"
proof (intro conjI impI)
  assume n: "n < 200 \<and> \<not> cancelled n \<and> pj_inner (pjs n) = Some h"
  then have "read_head_with_retry pjs oss cancelled f = head_attempts pjs oss cancelled f n"
    using skip_cancelled [of 0 n cancelled pjs oss f] assms by (simp add: read_head_with_retry_def max_head_retries_def)
  with n show "read_head_with_retry pjs oss cancelled f = Inr (f (read_clone (oss n) h))"
    by (subst (asm) head_attempts.simps) (simp add: clone_locked_state_def read_state_of_def)
next
  assume n: "n < 200 \<and> pj_inner (pjs n) = None"
  then have "read_head_with_retry pjs oss cancelled f = head_attempts pjs oss cancelled f n"
    using skip_cancelled [of 0 n cancelled pjs oss f] assms by (simp add: read_head_with_retry_def max_head_retries_def)
  with n show "read_head_with_retry pjs oss cancelled f = Inl (StateError ProjectClosedError)"
    by (subst (asm) head_attempts.simps) (simp add: clone_locked_state_def read_state_of_def)
next
  assume n: "200 \<le> n"
  then have "read_head_with_retry pjs oss cancelled f = head_attempts pjs oss cancelled f 199"
    using skip_cancelled [of 0 199 cancelled pjs oss f] assms by (simp add: read_head_with_retry_def max_head_retries_def)
  moreover have "cancelled 199" "pj_inner (pjs 199) \<noteq> None" using assms n by auto
  ultimately show "read_head_with_retry pjs oss cancelled f = Inl (StateError PyRuntimeError)"
    by (subst (asm) head_attempts.simps) (auto simp: clone_locked_state_def read_state_of_def max_head_retries_def)
qed

text \<open>
  The handles agree on identity.  A snapshot answers where an entity is, which need
  review and which are orphaned exactly as the project did when the snapshot was taken.  That
  holds for a snapshot of an older revision too, whose content is that revision's: its
  identity reads do not travel in time.
\<close>

lemma handles_agree:
  assumes "take_snapshot w os at pj = Inr sn"
  shows "snapshot_locate (Some sn) d = project_locate pj d \<and> snapshot_needs_review (Some sn) = project_needs_review pj
    \<and> snapshot_orphaned (Some sn) = project_orphaned pj"
  using assms
  by (auto simp: take_snapshot_def snapshot_locate_def snapshot_needs_review_def snapshot_orphaned_def project_locate_def
      project_needs_review_def project_orphaned_def open_snapshot_def read_state_of_def split: option.splits)

end
