(* ===== verification/Queries.thy ===== *)
theory Queries
  imports Analysis
begin

text \<open>
  The remaining analysis queries (\<open>rust/src/project/analysis.rs\<close>): checking, semantic tokens,
  hints, signature help, completions, folding and hover, whose answers \<open>Conversions\<close> turns into
  transfer objects; and what holds of all queries: when they fail, and that the ranges they
  report are well formed.
\<close>

section \<open>Queries\<close>

definition compute_check :: "read_state \<Rightarrow> check_result" where
  "compute_check st =
     \<lparr>cr_diagnostics = convert_diagnostics (rs_checker st) (ide_check (rs_ide st)), cr_files_checked = None, cr_elapsed_ms = None\<rparr>"

definition compute_check_file :: "read_state \<Rightarrow> path \<Rightarrow> (analysis_error, check_result) result" where
  "compute_check_file st p =
     rbind (resolve_file_and_source st p) (\<lambda>(f, _).
       let matching = filter (\<lambda>d. diagnostic_matches_file d f) (ide_check (rs_ide st))
       in Inr \<lparr>cr_diagnostics = convert_diagnostic_refs (rs_checker st) matching, cr_files_checked = Some 1, cr_elapsed_ms = None\<rparr>)"

definition compute_semantic_tokens ::
  "read_state \<Rightarrow> path \<Rightarrow> u32 option \<Rightarrow> u32 option \<Rightarrow> u32 option \<Rightarrow> u32 option
   \<Rightarrow> (analysis_error, semantic_token_dto list) result" where
  "compute_semantic_tokens st p start_line start_col end_line end_col =
     rbind (resolve_file_and_source st p) (\<lambda>(f, source).
       let li = ck_line_index (rs_checker st) source in
       rbind (semantic_token_range source li start_line start_col end_line end_col) (\<lambda>r.
         Inr (convert_semantic_tokens li (ide_semantic_tokens (rs_ide st) f r))))"

text \<open>The whole text as a range, its length kept to 32 bits.\<close>

definition full_text_range :: "str \<Rightarrow> text_range" where
  "full_text_range source = (0, unat (of_nat (utf8_len source) :: u32))"

definition compute_inlay_hints :: "read_state \<Rightarrow> path \<Rightarrow> (analysis_error, inlay_hint_dto list) result" where
  "compute_inlay_hints st p =
     rbind (resolve_file_and_source st p) (\<lambda>(f, source).
       let li = ck_line_index (rs_checker st) source
       in Inr (map (convert_inlay_hint li) (ide_inlay_hints (rs_ide st) f (full_text_range source))))"

definition compute_hints :: "read_state \<Rightarrow> path \<Rightarrow> (analysis_error, hint_dto list) result" where
  "compute_hints st p =
     rbind (resolve_file_and_source st p) (\<lambda>(f, source).
       let li = ck_line_index (rs_checker st) source in Inr (map (convert_hint li) (ide_hints (rs_ide st) f)))"

definition compute_signature_help ::
  "read_state \<Rightarrow> path \<Rightarrow> u32 \<Rightarrow> u32 \<Rightarrow> (analysis_error, signature_help_dto option) result" where
  "compute_signature_help st p line column =
     rbind (at_position st p line column) (\<lambda>(f, _, offset).
       Inr (map_option convert_signature_help (ide_signature_help (rs_ide st) f offset)))"

definition compute_completions ::
  "read_state \<Rightarrow> path \<Rightarrow> u32 \<Rightarrow> u32 \<Rightarrow> bool \<Rightarrow> (analysis_error, completion_dto list) result" where
  "compute_completions st p line column auto_import =
     rbind (at_position st p line column) (\<lambda>(f, _, offset).
       Inr (convert_completions (ide_completion (rs_ide st) auto_import f offset)))"

definition compute_folding_ranges :: "read_state \<Rightarrow> path \<Rightarrow> (analysis_error, folding_range_dto list) result" where
  "compute_folding_ranges st p =
     rbind (resolve_file_and_source st p) (\<lambda>(f, source).
       let li = ck_line_index (rs_checker st) source in Inr (map (convert_folding_range li) (ide_folding_ranges (rs_ide st) f)))"

definition compute_hover :: "read_state \<Rightarrow> path \<Rightarrow> u32 \<Rightarrow> u32 \<Rightarrow> (analysis_error, hover_dto option) result" where
  "compute_hover st p line column =
     rbind (at_position st p line column) (\<lambda>(f, li, offset).
       case ide_hover (rs_ide st) f offset of
         None \<Rightarrow> Inr None
       | Some (r, display) \<Rightarrow> Inr (Some (convert_hover_markdown_with_index li f r (display Markdown))))"

section \<open>Checking one file\<close>

lemma matches_file_iff: "diagnostic_matches_file d f \<longleftrightarrow> dd_file (convert_diagnostic ck d) = Some f"
  by (auto simp: diagnostic_matches_file_def convert_diagnostic_def extract_file_and_range_def split: option.splits unified_file.splits)

text \<open>
  Checking a file is checking the project and keeping the file's diagnostics: the same
  diagnostics, in the same order, with the same ranges, severities and codes, and no others.
  The check of a file fails exactly when its path does not resolve, with the resolver's error.
\<close>

theorem check_file_is_filtered_check:
  "compute_check_file st p =
     (case resolve_file (rs_checker st) (rs_root st) p of
        Inl e \<Rightarrow> Inl (PathError e)
      | Inr f \<Rightarrow> Inr \<lparr>cr_diagnostics = filter (\<lambda>d. dd_file d = Some f) (cr_diagnostics (compute_check st)),
                   cr_files_checked = Some 1, cr_elapsed_ms = None\<rparr>)"
  by (simp add: compute_check_file_def compute_check_def resolve_file_and_source_def convert_diagnostics_def
      convert_diagnostic_refs_def matches_file_iff [where ck = "rs_checker st"] filter_map comp_def Let_def split: sum.splits)

section \<open>Queries at a position\<close>

definition query_answers :: "read_state \<Rightarrow> path \<Rightarrow> u32 \<Rightarrow> u32 \<Rightarrow> bool" where
  "query_answers st p line column \<longleftrightarrow>
     (case resolve_file (rs_checker st) (rs_root st) p of
        Inl _ \<Rightarrow> False
      | Inr f \<Rightarrow> position_valid (ck_source (rs_checker st) f) (file_index (rs_checker st) f) line column)"

lemma at_position_ok_iff: "(\<exists>x. at_position st p line column = Inr x) \<longleftrightarrow> query_answers st p line column"
proof (cases "resolve_file (rs_checker st) (rs_root st) p")
  case (Inr f)
  let ?r = "position_to_offset_with_index (ck_source (rs_checker st) f) (file_index (rs_checker st) f) line column"
  have "(\<exists>off. ?r = Inr off) \<longleftrightarrow> position_valid (ck_source (rs_checker st) f) (file_index (rs_checker st) f) line column"
    by (simp add: position_ok_iff)
  with Inr show ?thesis
    by (cases ?r) (auto simp: at_position_def resolve_file_and_source_def query_answers_def file_index_def Let_def)
qed (simp add: at_position_def resolve_file_and_source_def query_answers_def)

lemma at_position_query:
  assumes "\<And>x. \<exists>y. k x = Inr y"
  shows "rbind (at_position st p line column) k = Inl e \<longleftrightarrow> at_position st p line column = Inl e"
proof (cases "at_position st p line column")
  case (Inr x)
  with assms [of x] show ?thesis by auto
qed simp

lemmas position_queries = compute_navigate_def compute_find_references_def compute_document_highlights_def compute_type_hierarchy_def
  compute_supertypes_def compute_selection_ranges_def compute_can_rename_def compute_rename_def compute_signature_help_def
  compute_completions_def compute_hover_def

text \<open>
  Queries at a position fail alike.  Each of the eleven queries that take a file and a
  position answers exactly when the path resolves and the position lies in the file, and
  otherwise reports the error of the common opening: the resolver's message, or which bound the
  position breaks.  None of them fails for what the type checker answers.
\<close>

theorem position_queries_fail_alike:
  "(\<forall>e. (compute_navigate st p line column navigate = Inl e \<longleftrightarrow> at_position st p line column = Inl e)
      \<and> (compute_find_references st p line column decl = Inl e \<longleftrightarrow> at_position st p line column = Inl e)
      \<and> (compute_document_highlights st p line column = Inl e \<longleftrightarrow> at_position st p line column = Inl e)
      \<and> (compute_type_hierarchy st p line column = Inl e \<longleftrightarrow> at_position st p line column = Inl e)
      \<and> (compute_supertypes st p line column = Inl e \<longleftrightarrow> at_position st p line column = Inl e)
      \<and> (compute_selection_ranges st p line column = Inl e \<longleftrightarrow> at_position st p line column = Inl e)
      \<and> (compute_can_rename st p line column = Inl e \<longleftrightarrow> at_position st p line column = Inl e)
      \<and> (compute_rename st p line column new_name = Inl e \<longleftrightarrow> at_position st p line column = Inl e)
      \<and> (compute_signature_help st p line column = Inl e \<longleftrightarrow> at_position st p line column = Inl e)
      \<and> (compute_completions st p line column auto_import = Inl e \<longleftrightarrow> at_position st p line column = Inl e)
      \<and> (compute_hover st p line column = Inl e \<longleftrightarrow> at_position st p line column = Inl e))
   \<and> ((\<exists>x. at_position st p line column = Inr x) \<longleftrightarrow>
        (\<exists>f. resolve_file (rs_checker st) (rs_root st) p = Inr f
          \<and> 1 \<le> line \<and> 1 \<le> column \<and> unat line \<le> li_line_count (file_index (rs_checker st) f)
          \<and> unat column \<le> length (line_text (ck_source (rs_checker st) f) (unat line - 1)) + 1))"
proof -
  have "(\<exists>x. at_position st p line column = Inr x) \<longleftrightarrow>
        (\<exists>f. resolve_file (rs_checker st) (rs_root st) p = Inr f
          \<and> 1 \<le> line \<and> 1 \<le> column \<and> unat line \<le> li_line_count (file_index (rs_checker st) f)
          \<and> unat column \<le> length (line_text (ck_source (rs_checker st) f) (unat line - 1)) + 1)"
    unfolding at_position_ok_iff query_answers_def position_valid_def by (auto split: sum.splits)
  then show ?thesis
    unfolding position_queries
    by (intro conjI allI at_position_query) (auto simp: Let_def split: option.splits prod.splits)
qed

section \<open>Well-formed ranges\<close>

definition range_ok :: "range_dto \<Rightarrow> bool" where
  "range_ok r = (case r of Range (Position l c) (Position l' c') \<Rightarrow> 1 \<le> l \<and> 1 \<le> c \<and> 1 \<le> c' \<and> (l < l' \<or> l = l' \<and> c \<le> c'))"

text \<open>
  What a line index guarantees of the offsets of its text: lines and columns count from one,
  fit in 32 bits, and later offsets are not at earlier positions.
\<close>

definition index_ok :: "nat \<Rightarrow> line_index \<Rightarrow> bool" where
  "index_ok n li \<longleftrightarrow>
     (\<forall>a \<le> n. 1 \<le> fst (li_source_location li a) \<and> 1 \<le> snd (li_source_location li a)
        \<and> fst (li_source_location li a) < 2 ^ 32 \<and> snd (li_source_location li a) < 2 ^ 32)
     \<and> (\<forall>a b. a \<le> b \<and> b \<le> n \<longrightarrow> li_source_location li a \<le> li_source_location li b)"

definition range_fits :: "checker \<Rightarrow> path \<Rightarrow> text_range \<Rightarrow> bool" where
  "range_fits ck f r \<longleftrightarrow> fst r \<le> snd r \<and> snd r \<le> utf8_len (ck_source ck f)"

lemma word_of_nat_order:
  assumes "a < 2 ^ 32" "b < 2 ^ 32"
  shows "(of_nat a :: u32) \<le> of_nat b \<longleftrightarrow> a \<le> b" "(of_nat a :: u32) < of_nat b \<longleftrightarrow> a < b"
  using assms by (simp_all add: word_le_nat_alt word_less_nat_alt unat_of_nat)

lemma range_ok_converted:
  assumes "index_ok (utf8_len (ck_source ck f)) li" "range_fits ck f r"
  shows "range_ok (range_to_dto_with_index li r)"
proof -
  obtain l c l' c' where loc: "li_source_location li (fst r) = (l, c)" "li_source_location li (snd r) = (l', c')" by fastforce
  have le: "fst r \<le> utf8_len (ck_source ck f)" "snd r \<le> utf8_len (ck_source ck f)" "fst r \<le> snd r" using assms(2) by (auto simp: range_fits_def)
  note at = assms(1) [unfolded index_ok_def, THEN conjunct1, rule_format]
  note b = at [OF le(1), unfolded loc fst_conv snd_conv] at [OF le(2), unfolded loc fst_conv snd_conv]
  have "(l, c) \<le> (l', c')" using assms(1) [unfolded index_ok_def, THEN conjunct2, rule_format, of "fst r" "snd r"] le loc by simp
  then have "l < l' \<or> l = l' \<and> c \<le> c'" by (auto simp: less_eq_prod_def)
  then have order: "(of_nat l :: u32) < of_nat l' \<or> (of_nat l :: u32) = of_nat l' \<and> (of_nat c :: u32) \<le> of_nat c'"
    by (elim disjE conjE) (simp_all only: word_of_nat_order [of l l'] word_of_nat_order [of c c'] b simp_thms)
  have "\<And>n. 1 \<le> n \<Longrightarrow> n < 2 ^ 32 \<Longrightarrow> (1 :: u32) \<le> of_nat n" using word_of_nat_order(1) [of 1] by simp
  then have ones: "(1 :: u32) \<le> of_nat l" "(1 :: u32) \<le> of_nat c" "(1 :: u32) \<le> of_nat c'" using b by blast+
  have "range_to_dto_with_index li r = Range (Position (of_nat l) (of_nat c)) (Position (of_nat l') (of_nat c'))"
    using b by (simp add: range_to_dto_with_index_def location_to_dto_def loc)
  with order ones show ?thesis by (simp only: range_ok_def range_dto.case position_dto.case simp_thms)
qed

text \<open>Every range and position the type checker and the parser report lies in the file it is reported for.\<close>

definition targets_fit :: "checker \<Rightarrow> ide_target list \<Rightarrow> bool" where
  "targets_fit ck ts \<longleftrightarrow> (\<forall>t\<in>set ts. range_fits ck (it_file t) (it_full_range t) \<and> range_fits ck (it_file t) (it_focus_range t))"

definition references_fit :: "checker \<Rightarrow> ide_reference list \<Rightarrow> bool" where
  "references_fit ck rs \<longleftrightarrow> (\<forall>r\<in>set rs. range_fits ck (ir_file r) (ir_range r))"

definition items_fit :: "checker \<Rightarrow> ide_item list \<Rightarrow> bool" where
  "items_fit ck xs \<longleftrightarrow> (\<forall>x\<in>set xs. range_fits ck (ii_file x) (ii_full_range x) \<and> range_fits ck (ii_file x) (ii_selection_range x))"

definition symbol_fits :: "checker \<Rightarrow> path \<Rightarrow> symbol_info \<Rightarrow> bool" where
  "symbol_fits ck f x \<longleftrightarrow> range_fits ck f (si_full_range x) \<and> range_fits ck f (si_name_range x)"

definition ide_ranges_fit :: "checker \<Rightarrow> ide \<Rightarrow> bool" where
  "ide_ranges_fit ck i \<longleftrightarrow>
     (\<forall>d\<in>set (ide_check i). \<forall>s f r. dg_primary_annotation d = Some s \<and> sp_file s = TyFile f \<and> sp_range s = Some r \<longrightarrow> range_fits ck f r)
     \<and> (\<forall>f r. \<forall>t\<in>set (ide_semantic_tokens i f r). range_fits ck f (stk_range t))
     \<and> (\<forall>f. \<forall>x\<in>set (ide_folding_ranges i f). range_fits ck f (fst x))
     \<and> (\<forall>f. \<forall>h\<in>set (ide_hints i f). range_fits ck f (hn_range h))
     \<and> (\<forall>f r. \<forall>h\<in>set (ide_inlay_hints i f r). range_fits ck f (ih_position h, ih_position h))
     \<and> (\<forall>f off h. ide_hover i f off = Some h \<longrightarrow> range_fits ck f (fst h))
     \<and> (\<forall>f off. \<forall>r\<in>set (ide_selection_range i f off). range_fits ck f r)
     \<and> (\<forall>f off r. ide_can_rename i f off = Some r \<longrightarrow> range_fits ck f r)
     \<and> (\<forall>f r d. \<forall>x\<in>set (ide_code_actions i f r d). \<forall>y\<in>set (if_edits x). range_fits ck f (fst y))
     \<and> (\<forall>f off decl rs. ide_find_references i f off decl = Some rs \<longrightarrow> references_fit ck rs)
     \<and> (\<forall>f off rs. ide_document_highlights i f off = Some rs \<longrightarrow> references_fit ck rs)
     \<and> (\<forall>f off name rs. ide_rename i f off name = Some rs \<longrightarrow> references_fit ck rs)
     \<and> (\<forall>f off ts. ide_navigate i f off = Some ts \<longrightarrow> targets_fit ck ts)
     \<and> (\<forall>f off ts. ide_goto_declaration i f off = Some ts \<longrightarrow> targets_fit ck ts)
     \<and> (\<forall>f off ts. ide_goto_type_definition i f off = Some ts \<longrightarrow> targets_fit ck ts)
     \<and> (\<forall>f off x. ide_prepare_type_hierarchy i f off = Some x \<longrightarrow> items_fit ck [x])
     \<and> (\<forall>f off. items_fit ck (ide_supertypes i f off) \<and> items_fit ck (ide_subtypes i f off))
     \<and> (\<forall>query. \<forall>x\<in>set (ide_workspace_symbols i query). symbol_fits ck (iw_file x) (iw_symbol x))
     \<and> (\<forall>f. \<forall>j\<in>set (all_symbols (ck_symbols ck f)). symbol_fits ck f (hs_info (ck_symbols ck f) j))
     \<and> (\<forall>f. \<forall>t\<in>set (concat (map preorder (ck_parsed ck f))). \<forall>x\<in>set (sites_of (ide_model i f) t). range_fits ck f (ns_range x))"

lemma ide_fitD:
  assumes "ide_ranges_fit ck i"
  shows "d \<in> set (ide_check i) \<Longrightarrow> dg_primary_annotation d = Some s \<Longrightarrow> sp_file s = TyFile f \<Longrightarrow> sp_range s = Some r \<Longrightarrow> range_fits ck f r"
    "t \<in> set (ide_semantic_tokens i f rg) \<Longrightarrow> range_fits ck f (stk_range t)"
    "x \<in> set (ide_folding_ranges i f) \<Longrightarrow> range_fits ck f (fst x)"
    "h \<in> set (ide_hints i f) \<Longrightarrow> range_fits ck f (hn_range h)"
    "ih \<in> set (ide_inlay_hints i f fr) \<Longrightarrow> range_fits ck f (ih_position ih, ih_position ih)"
    "ide_hover i f off = Some (r, display) \<Longrightarrow> range_fits ck f r"
    "r \<in> set (ide_selection_range i f off) \<Longrightarrow> range_fits ck f r"
    "ide_can_rename i f off = Some r \<Longrightarrow> range_fits ck f r"
    "fix \<in> set (ide_code_actions i f fr rule) \<Longrightarrow> y \<in> set (if_edits fix) \<Longrightarrow> range_fits ck f (fst y)"
    "ide_find_references i f off decl = Some rs \<Longrightarrow> references_fit ck rs"
    "ide_document_highlights i f off = Some rs \<Longrightarrow> references_fit ck rs"
    "ide_rename i f off name = Some rs \<Longrightarrow> references_fit ck rs"
    "ide_navigate i f off = Some ts \<Longrightarrow> targets_fit ck ts"
    "ide_goto_declaration i f off = Some ts \<Longrightarrow> targets_fit ck ts"
    "ide_goto_type_definition i f off = Some ts \<Longrightarrow> targets_fit ck ts"
    "ide_prepare_type_hierarchy i f off = Some item \<Longrightarrow> items_fit ck [item]"
    "items_fit ck (ide_supertypes i f off)" "items_fit ck (ide_subtypes i f off)"
    "ws \<in> set (ide_workspace_symbols i query) \<Longrightarrow> symbol_fits ck (iw_file ws) (iw_symbol ws)"
    "j \<in> set (all_symbols (ck_symbols ck f)) \<Longrightarrow> symbol_fits ck f (hs_info (ck_symbols ck f) j)"
    "\<forall>t\<in>set (concat (map preorder (ck_parsed ck f))). \<forall>x\<in>set (sites_of (ide_model i f) t). range_fits ck f (ns_range x)"
  using assms by (unfold ide_ranges_fit_def, elim conjE, (blast | metis fst_conv))+

section \<open>The ranges of an answer\<close>

text \<open>
  The queries of the read handles, with the ranges their answers hold; the position of an inlay
  hint counts as an empty range.  Signature help and completions hold none.
\<close>

datatype query =
    Check
  | CheckFile path
  | DocumentSymbols path
  | WorkspaceSymbols str
  | GotoDefinition path u32 u32
  | GotoDeclaration path u32 u32
  | GotoTypeDefinition path u32 u32
  | FindReferences path u32 u32 bool
  | DocumentHighlights path u32 u32
  | SemanticTokens path "u32 option" "u32 option" "u32 option" "u32 option"
  | InlayHints path
  | Hints path
  | CodeActions path u32 u32 u32 u32 str
  | SelectionRanges path u32 u32
  | FoldingRanges path
  | FileOccurrences path
  | TypeHierarchy path u32 u32
  | ClassSupertypes path u32 u32
  | CanRename path u32 u32
  | Rename path u32 u32 str
  | Hover path u32 u32

definition answered :: "('a \<Rightarrow> 'b list) \<Rightarrow> ('e, 'a) result \<Rightarrow> 'b list" where
  "answered ranges res = (case res of Inl _ \<Rightarrow> [] | Inr a \<Rightarrow> ranges a)"

definition opt :: "'a option \<Rightarrow> 'a list" where
  "opt x = (case x of None \<Rightarrow> [] | Some y \<Rightarrow> [y])"

definition diagnostic_ranges :: "check_result \<Rightarrow> range_dto list" where
  "diagnostic_ranges c = concat (map (\<lambda>d. opt (dd_range d)) (cr_diagnostics c))"

definition symbol_ranges :: "symbol_dto list \<Rightarrow> range_dto list" where
  "symbol_ranges ss = concat (map (\<lambda>s. sy_range s # opt (sy_selection_range s)) ss)"

definition target_ranges :: "definition_target list \<Rightarrow> range_dto list" where
  "target_ranges ts = concat (map (\<lambda>t. dt_range t # opt (dt_selection_range t)) ts)"

definition item_ranges :: "hierarchy_item_dto list \<Rightarrow> range_dto list" where
  "item_ranges xs = concat (map (\<lambda>x. [hd_full_range x, hd_selection_range x]) xs)"

fun answer_ranges :: "read_state \<Rightarrow> query \<Rightarrow> range_dto list" where
  "answer_ranges st Check = diagnostic_ranges (compute_check st)"
| "answer_ranges st (CheckFile p) = answered diagnostic_ranges (compute_check_file st p)"
| "answer_ranges st (DocumentSymbols p) = answered symbol_ranges (compute_document_symbols st p)"
| "answer_ranges st (WorkspaceSymbols q) = symbol_ranges (compute_workspace_symbols st q)"
| "answer_ranges st (GotoDefinition p l c) = answered target_ranges (compute_navigate st p l c (ide_navigate (rs_ide st)))"
| "answer_ranges st (GotoDeclaration p l c) = answered target_ranges (compute_navigate st p l c (ide_goto_declaration (rs_ide st)))"
| "answer_ranges st (GotoTypeDefinition p l c) = answered target_ranges (compute_navigate st p l c (ide_goto_type_definition (rs_ide st)))"
| "answer_ranges st (FindReferences p l c decl) = answered (map rf_range) (compute_find_references st p l c decl)"
| "answer_ranges st (DocumentHighlights p l c) = answered (map rf_range) (compute_document_highlights st p l c)"
| "answer_ranges st (SemanticTokens p sl sc el ec) = answered (map std_range) (compute_semantic_tokens st p sl sc el ec)"
| "answer_ranges st (InlayHints p) = answered (map (\<lambda>h. Range (ihd_position h) (ihd_position h))) (compute_inlay_hints st p)"
| "answer_ranges st (Hints p) = answered (\<lambda>hs. concat (map (\<lambda>h. opt (hnd_range h)) hs)) (compute_hints st p)"
| "answer_ranges st (CodeActions p sl sc el ec d) =
     answered (\<lambda>fs. concat (map (\<lambda>x. map (\<lambda>(_, r, _). r) (qf_edits x)) fs)) (compute_code_actions st p sl sc el ec d)"
| "answer_ranges st (SelectionRanges p l c) = answered (\<lambda>rs. rs) (compute_selection_ranges st p l c)"
| "answer_ranges st (FoldingRanges p) = answered (map fr_range) (compute_folding_ranges st p)"
| "answer_ranges st (FileOccurrences p) = answered (map oc_range) (compute_file_occurrences st p)"
| "answer_ranges st (TypeHierarchy p l c) =
     answered (\<lambda>h. concat (map (\<lambda>t. item_ranges (th_item t # th_supertypes t @ th_subtypes t)) (opt h))) (compute_type_hierarchy st p l c)"
| "answer_ranges st (ClassSupertypes p l c) = answered item_ranges (compute_supertypes st p l c)"
| "answer_ranges st (CanRename p l c) = answered opt (compute_can_rename st p l c)"
| "answer_ranges st (Rename p l c name) = answered (\<lambda>e. concat (map (\<lambda>x. map snd (we_edits x)) (opt e))) (compute_rename st p l c name)"
| "answer_ranges st (Hover p l c) = answered (\<lambda>h. map hv_range (opt h)) (compute_hover st p l c)"

lemma in_opt [simp]: "x \<in> set (opt y) \<longleftrightarrow> y = Some x"
  by (auto simp: opt_def split: option.splits)

lemma in_answered: "r \<in> set (answered ranges res) \<longleftrightarrow> (\<exists>a. res = Inr a \<and> r \<in> set (ranges a))"
  by (auto simp: answered_def split: sum.splits)

lemma convert_targets_map: "convert_navigation_targets ck ts = map (convert_navigation_target ck) ts"
proof -
  have "fold (\<lambda>t acc. acc @ [convert_navigation_target ck t]) ts acc = acc @ map (convert_navigation_target ck) ts" for acc
    by (induction ts arbitrary: acc) auto
  then show ?thesis by (simp add: convert_navigation_targets_def)
qed

lemma at_position_index: "at_position st p line column = Inr (f, li, off) \<Longrightarrow> li = file_index (rs_checker st) f"
  by (auto simp: at_position_def resolve_file_and_source_def file_index_def rbind_def Let_def split: sum.splits)

text \<open>Each range of an answer is the converted form of one the type checker reported for some file.\<close>

definition converted :: "read_state \<Rightarrow> range_dto \<Rightarrow> bool" where
  "converted st r \<longleftrightarrow> (\<exists>f x. range_fits (rs_checker st) f x \<and> r = range_to_dto_with_index (file_index (rs_checker st) f) x)"

lemma convertedI: "range_fits (rs_checker st) f x \<Longrightarrow> converted st (range_to_dto_with_index (file_index (rs_checker st) f) x)"
  unfolding converted_def by blast

lemma rbind_Inr: "rbind res k = Inr y \<longleftrightarrow> (\<exists>x. res = Inr x \<and> k x = Inr y)"
  by (cases res) auto

lemma resolved_index:
  "resolve_file_and_source st p = Inr (f, source) \<Longrightarrow> ck_line_index (rs_checker st) source = file_index (rs_checker st) f"
  by (auto simp: resolve_file_and_source_def file_index_def split: sum.splits)

lemmas answer_simps = in_answered rbind_Inr Let_def

lemma at_answered:
  "r \<in> set (answered ranges (rbind (at_position st p l c) (\<lambda>(f, li, off). Inr (h f li off))))
   \<longleftrightarrow> (\<exists>f off. at_position st p l c = Inr (f, file_index (rs_checker st) f, off) \<and> r \<in> set (ranges (h f (file_index (rs_checker st) f) off)))"
  by (auto simp: answer_simps dest: at_position_index)

lemma targets_converted:
  "targets_fit (rs_checker st) ts \<Longrightarrow> r \<in> set (target_ranges (convert_navigation_targets (rs_checker st) ts)) \<Longrightarrow> converted st r"
  by (auto simp: target_ranges_def convert_targets_map convert_navigation_target_def Let_def targets_fit_def intro!: convertedI)

lemma items_converted:
  "items_fit (rs_checker st) xs \<Longrightarrow> r \<in> set (item_ranges (convert_hierarchy_items (rs_checker st) xs)) \<Longrightarrow> converted st r"
  by (auto simp: item_ranges_def convert_hierarchy_items_def convert_hierarchy_item_def Let_def items_fit_def intro!: convertedI)

lemma references_converted:
  "references_fit (rs_checker st) rs \<Longrightarrow> r \<in> set (map rf_range (convert_references (rs_checker st) rs)) \<Longrightarrow> converted st r"
  by (auto simp: convert_references_uncached convert_reference_with_index_def references_fit_def intro!: convertedI)

lemma symbol_converted:
  "symbol_fits (rs_checker st) f x \<Longrightarrow>
   r \<in> set (symbol_ranges [convert_symbol (file_index (rs_checker st) f) f x cn qn du ch chs]) \<Longrightarrow> converted st r"
  by (auto simp: symbol_ranges_def convert_symbol_def symbol_fits_def intro!: convertedI)

lemma symbol_rangesE:
  assumes "r \<in> set (symbol_ranges ss)"
  obtains s where "s \<in> set ss" "r \<in> set (symbol_ranges [s])"
  using assms by (auto simp: symbol_ranges_def)

lemma symbol_walk_range:
  "collect_symbols_recursive fuel cx pn pi i ss = Some ss' \<Longrightarrow> i \<in> set (all_symbols (sw_hierarchical cx)) \<Longrightarrow>
   \<forall>s\<in>set ss. \<exists>j\<in>set (all_symbols (sw_hierarchical cx)). \<exists>pn pi. s = symbol_of cx j pn pi \<Longrightarrow>
   \<forall>s\<in>set ss'. \<exists>j\<in>set (all_symbols (sw_hierarchical cx)). \<exists>pn pi. s = symbol_of cx j pn pi"
proof (induction fuel arbitrary: pn pi i ss ss')
  case (Suc fuel)
  from Suc.prems(1) have "fold_option (collect_symbols_recursive fuel cx (Some (dotted_under pn (si_name (hs_info (sw_hierarchical cx) i))))
      (Some (qualified_under (sw_file_path cx) pi (si_name (hs_info (sw_hierarchical cx) i)))))
    (children (sw_hierarchical cx) i) (ss @ [symbol_of cx i pn pi]) = Some ss'" by (simp add: Let_def)
  then show ?case
    by (rule fold_option_preserves) (use Suc.prems(2,3) Suc.IH children_all in \<open>auto\<close>)
qed simp

lemma document_symbols_range:
  assumes "document_symbols cx = Some ss" "s \<in> set ss"
  shows "\<exists>j\<in>set (all_symbols (sw_hierarchical cx)). \<exists>pn pi. s = symbol_of cx j pn pi"
proof -
  have "\<forall>s\<in>set ss. \<exists>j\<in>set (all_symbols (sw_hierarchical cx)). \<exists>pn pi. s = symbol_of cx j pn pi"
    using assms(1) unfolding document_symbols_def
  proof (rule fold_option_preserves)
    fix i ss ss' assume "i \<in> set (hs_iter (sw_hierarchical cx))" "\<forall>s\<in>set ss. \<exists>j\<in>set (all_symbols (sw_hierarchical cx)). \<exists>pn pi. s = symbol_of cx j pn pi"
      "collect_symbols_recursive (length (all_symbols (sw_hierarchical cx))) cx None None i ss = Some ss'"
    then show "\<forall>s\<in>set ss'. \<exists>j\<in>set (all_symbols (sw_hierarchical cx)). \<exists>pn pi. s = symbol_of cx j pn pi"
      using symbol_walk_range by (simp add: all_symbols_def)
  qed simp
  with assms(2) show ?thesis by blast
qed

lemma occurrences_converted:
  assumes "resolve_file_and_source st p = Inr (f, source)"
    and "\<forall>t\<in>set (concat (map preorder (ck_parsed (rs_checker st) f))). \<forall>x\<in>set (sites_of (ide_model (rs_ide st) f) t). range_fits (rs_checker st) f (ns_range x)"
    and "oc \<in> set (convert_file_occurrences (rs_checker st) (ide_model (rs_ide st)) f (ck_line_index (rs_checker st) source))"
  shows "converted st (oc_range oc)"
proof -
  obtain x where "x \<in> set (concat (map (sites_of (ide_model (rs_ide st) f)) (concat (map preorder (ck_parsed (rs_checker st) f)))))"
      "site_reported (ck_source (rs_checker st)) f (ck_line_index (rs_checker st) source) x oc"
    using occurrences_sites [of "rs_checker st" f "ck_line_index (rs_checker st) source" "ide_model (rs_ide st)"] assms(3)
    unfolding list_all2_conv_all_nth in_set_conv_nth [of oc] by (metis nth_mem)
  with assms(2) resolved_index [OF assms(1)] show ?thesis by (auto simp: site_reported_def intro!: convertedI)
qed

lemma file_answers_converted:
  assumes "ide_ranges_fit (rs_checker st) (rs_ide st)"
  shows "r \<in> set (answer_ranges st Check) \<Longrightarrow> converted st r" "r \<in> set (answer_ranges st (CheckFile p)) \<Longrightarrow> converted st r"
    "r \<in> set (answer_ranges st (SemanticTokens p sl sc el ec)) \<Longrightarrow> converted st r"
    "r \<in> set (answer_ranges st (InlayHints p)) \<Longrightarrow> converted st r" "r \<in> set (answer_ranges st (Hints p)) \<Longrightarrow> converted st r"
    "r \<in> set (answer_ranges st (CodeActions p l c l' c' d)) \<Longrightarrow> converted st r"
    "r \<in> set (answer_ranges st (FoldingRanges p)) \<Longrightarrow> converted st r"
    "r \<in> set (answer_ranges st (FileOccurrences p)) \<Longrightarrow> converted st r"
proof -
  note fit = ide_fitD [OF assms]
  have diagnostic: "dd_range (convert_diagnostic (rs_checker st) d) = Some r \<Longrightarrow> d \<in> set (ide_check (rs_ide st)) \<Longrightarrow> converted st r" for d
    by (auto simp: convert_diagnostic_def extract_file_and_range_def intro!: convertedI split: option.splits unified_file.splits
        intro: fit(1) simp del: split_paired_All split_paired_Ex)
  then show "r \<in> set (answer_ranges st Check) \<Longrightarrow> converted st r" "r \<in> set (answer_ranges st (CheckFile p)) \<Longrightarrow> converted st r"
    by (auto simp: answer_simps diagnostic_ranges_def compute_check_def compute_check_file_def convert_diagnostics_def convert_diagnostic_refs_def)
  show "r \<in> set (answer_ranges st (SemanticTokens p sl sc el ec)) \<Longrightarrow> converted st r"
    by (auto simp: answer_simps compute_semantic_tokens_def convert_semantic_tokens_def resolved_index intro!: convertedI fit(2))
  show "r \<in> set (answer_ranges st (InlayHints p)) \<Longrightarrow> converted st r"
  proof -
    have "Range (location_to_dto (li_source_location li a)) (location_to_dto (li_source_location li a)) = range_to_dto_with_index li (a, a)" for li a
      by (simp add: range_to_dto_with_index_def)
    then show "r \<in> set (answer_ranges st (InlayHints p)) \<Longrightarrow> converted st r"
      by (auto simp: answer_simps compute_inlay_hints_def convert_inlay_hint_def resolved_index intro!: convertedI fit(5))
  qed
  show "r \<in> set (answer_ranges st (Hints p)) \<Longrightarrow> converted st r"
    by (auto simp: answer_simps compute_hints_def convert_hint_def resolved_index intro!: convertedI fit(4))
  have edits: "x \<in> set (ide_code_actions (rs_ide st) f fr d) \<Longrightarrow> (rg, t) \<in> set (if_edits x) \<Longrightarrow> range_fits (rs_checker st) f rg" for x f fr rg t
    using fit(9) by fastforce
  show "r \<in> set (answer_ranges st (CodeActions p l c l' c' d)) \<Longrightarrow> converted st r"
    by (clarsimp simp: answer_simps compute_code_actions_def convert_quick_fix_def resolved_index simp del: split_paired_Ex)
      (rule convertedI, erule (1) edits)
  show "r \<in> set (answer_ranges st (FoldingRanges p)) \<Longrightarrow> converted st r"
    by (auto simp: answer_simps compute_folding_ranges_def convert_folding_range_def resolved_index intro!: convertedI dest!: fit(3))
  show "r \<in> set (answer_ranges st (FileOccurrences p)) \<Longrightarrow> converted st r"
    by (auto simp: answer_simps compute_file_occurrences_def intro: occurrences_converted [OF _ fit(21)])
qed

lemma map_cached_fresh: "map_cached ck file_of convert rs (\<lambda>_. None) = map (\<lambda>r. convert r (file_index ck (file_of r))) rs"
  by (rule map_cached_eq) simp

lemma workspace_symbols_converted:
  assumes "ide_ranges_fit (rs_checker st) (rs_ide st)" "r \<in> set (answer_ranges st (WorkspaceSymbols q))"
  shows "converted st r"
proof -
  from assms(2) obtain s where "s \<in> set (compute_workspace_symbols st q)" "r \<in> set (symbol_ranges [s])" by (auto elim: symbol_rangesE)
  then show ?thesis using symbol_converted [OF ide_fitD(19) [OF assms(1)]] by (auto simp: compute_workspace_symbols_def map_cached_fresh)
qed

lemma document_symbols_converted:
  assumes "ide_ranges_fit (rs_checker st) (rs_ide st)" "r \<in> set (answer_ranges st (DocumentSymbols p))"
  shows "converted st r"
proof -
  from assms(2) obtain ss s where ss: "compute_document_symbols st p = Inr ss" "s \<in> set ss" "r \<in> set (symbol_ranges [s])"
    by (auto simp: in_answered elim: symbol_rangesE)
  then obtain f source where f: "resolve_file_and_source st p = Inr (f, source)"
    by (auto simp: compute_document_symbols_def rbind_Inr)
  define cx where "cx = \<lparr>sw_hierarchical = ck_symbols (rs_checker st) f, sw_normal_form = file_normal_form (rs_checker st) f,
    sw_line_index = ck_line_index (rs_checker st) source, sw_file_path = f, sw_registry = rs_registry st,
    sw_hash_policies = (if rs_hash_policies st = [] then None else Some (rs_hash_policies st)),
    sw_default_profile = (if rs_hash_policies st = [] then None else Some (rs_default_hash_profile st)), sw_xxh3 = rs_xxh3 st\<rparr>"
  have d: "document_symbols cx = Some ss"
    using ss(1) f by (cases "document_symbols cx") (simp_all add: compute_document_symbols_def Let_def ok_or_def cx_def)
  have cx: "sw_hierarchical cx = ck_symbols (rs_checker st) f" "sw_line_index cx = file_index (rs_checker st) f" "sw_file_path cx = f"
    by (simp_all add: cx_def resolved_index [OF f])
  obtain j pn pi where j: "j \<in> set (all_symbols (ck_symbols (rs_checker st) f))" "s = symbol_of cx j pn pi"
    using document_symbols_range [OF d ss(2)] cx by auto
  then show ?thesis using symbol_converted [OF ide_fitD(20) [OF assms(1) j(1)]] ss(3) cx by (auto simp: symbol_of_def Let_def)
qed

lemma position_answers_converted:
  assumes "ide_ranges_fit (rs_checker st) (rs_ide st)"
  shows "r \<in> set (answer_ranges st (GotoDefinition p l c)) \<Longrightarrow> converted st r" "r \<in> set (answer_ranges st (GotoDeclaration p l c)) \<Longrightarrow> converted st r"
    "r \<in> set (answer_ranges st (GotoTypeDefinition p l c)) \<Longrightarrow> converted st r" "r \<in> set (answer_ranges st (FindReferences p l c decl)) \<Longrightarrow> converted st r"
    "r \<in> set (answer_ranges st (DocumentHighlights p l c)) \<Longrightarrow> converted st r" "r \<in> set (answer_ranges st (SelectionRanges p l c)) \<Longrightarrow> converted st r"
    "r \<in> set (answer_ranges st (TypeHierarchy p l c)) \<Longrightarrow> converted st r" "r \<in> set (answer_ranges st (ClassSupertypes p l c)) \<Longrightarrow> converted st r"
    "r \<in> set (answer_ranges st (CanRename p l c)) \<Longrightarrow> converted st r" "r \<in> set (answer_ranges st (Rename p l c name)) \<Longrightarrow> converted st r"
    "r \<in> set (answer_ranges st (Hover p l c)) \<Longrightarrow> converted st r"
proof -
  note fit = ide_fitD [OF assms]
  have targets: "r \<in> set (answered target_ranges (compute_navigate st p l c fn)) \<Longrightarrow> converted st r"
    if "\<And>f off ts. fn f off = Some ts \<Longrightarrow> targets_fit (rs_checker st) ts" for fn
    by (auto simp: compute_navigate_def at_answered target_ranges_def [of "[]"] split: option.splits intro: targets_converted that)
  show "r \<in> set (answer_ranges st (GotoDefinition p l c)) \<Longrightarrow> converted st r" "r \<in> set (answer_ranges st (GotoDeclaration p l c)) \<Longrightarrow> converted st r"
    "r \<in> set (answer_ranges st (GotoTypeDefinition p l c)) \<Longrightarrow> converted st r"
    using targets [OF fit(13)] targets [OF fit(14)] targets [OF fit(15)] by simp_all
  show "r \<in> set (answer_ranges st (FindReferences p l c decl)) \<Longrightarrow> converted st r"
    by (auto simp: compute_find_references_def at_answered split: option.splits intro: references_converted [OF fit(10) [OF sym], simplified])
  show "r \<in> set (answer_ranges st (DocumentHighlights p l c)) \<Longrightarrow> converted st r"
    by (auto simp: compute_document_highlights_def at_answered split: option.splits intro: references_converted [OF fit(11) [OF sym], simplified])
  show "r \<in> set (answer_ranges st (SelectionRanges p l c)) \<Longrightarrow> converted st r"
    by (auto simp: compute_selection_ranges_def at_answered intro!: convertedI fit(7))
  show "r \<in> set (answer_ranges st (CanRename p l c)) \<Longrightarrow> converted st r"
    by (auto simp: compute_can_rename_def at_answered intro!: convertedI fit(8))
  show "r \<in> set (answer_ranges st (Hover p l c)) \<Longrightarrow> converted st r"
    by (clarsimp simp: answer_simps compute_hover_def split: option.split_asm)
      (auto simp: convert_hover_markdown_with_index_def dest!: at_position_index intro!: convertedI fit(6))
  show "r \<in> set (answer_ranges st (Rename p l c name)) \<Longrightarrow> converted st r"
    using fit(12) by (fastforce simp: compute_rename_def at_answered convert_rename_edits_def map_cached_fresh references_fit_def intro!: convertedI)
  have items: "r \<in> set (item_ranges (convert_hierarchy_item (rs_checker st) x # xs)) \<Longrightarrow> items_fit (rs_checker st) [x] \<Longrightarrow>
      (r \<in> set (item_ranges xs) \<Longrightarrow> converted st r) \<Longrightarrow> converted st r" for x xs
    using items_converted [of st "[x]" r] by (auto simp: item_ranges_def convert_hierarchy_items_def)
  have both: "r \<in> set (item_ranges (xs @ ys)) \<longleftrightarrow> r \<in> set (item_ranges xs) \<or> r \<in> set (item_ranges ys)" for xs ys
    by (simp add: item_ranges_def)
  show "r \<in> set (answer_ranges st (TypeHierarchy p l c)) \<Longrightarrow> converted st r"
    by (clarsimp simp: answer_simps compute_type_hierarchy_def split: option.split_asm)
      (erule items, erule fit(16), auto simp: both intro: items_converted fit(17,18))
  show "r \<in> set (answer_ranges st (ClassSupertypes p l c)) \<Longrightarrow> converted st r"
    by (clarsimp simp: answer_simps compute_supertypes_def split: option.split_asm)
      (auto simp: item_ranges_def [of "[]"] intro: items_converted fit(17))
qed

text \<open>
  C22.  Answers are well formed.  When line indexes count from one, stay within 32 bits and follow
  their text, and every range the type checker and the parser report lies in the file it is
  reported for, then every range in the answer of every query is one: positions start at line and
  column one, and no range ends before it starts.  This covers all ranges of all queries of the
  read handles: diagnostics, document and workspace symbols, navigation targets and hierarchy items
  with their selection ranges, references, highlights, semantic tokens, hints, quick-fix and rename
  edits, selection and folding ranges, occurrences, the renamable range and hover, and the
  positions of inlay hints; signature help and completions report no range.
\<close>

theorem answers_well_formed:
  assumes "\<forall>f. index_ok (utf8_len (ck_source (rs_checker st) f)) (file_index (rs_checker st) f)"
    and "ide_ranges_fit (rs_checker st) (rs_ide st)"
  shows "\<forall>r\<in>set (answer_ranges st q). range_ok r"
proof
  fix r assume r: "r \<in> set (answer_ranges st q)"
  have "converted st r"
    using r by (cases q; hypsubst) (erule file_answers_converted [OF assms(2)] position_answers_converted [OF assms(2)]
        document_symbols_converted [OF assms(2)] workspace_symbols_converted [OF assms(2)])+
  with assms(1) range_ok_converted show "range_ok r" unfolding converted_def by blast
qed

text \<open>A fold in a file of four characters with one function.\<close>

theorem answers_well_formed_witness:
  "let st = sample_state\<lparr>rs_checker := sample_checker\<lparr>ck_source := \<lambda>_. sample_source, ck_symbols := \<lambda>_. \<lparr>hs_iter = [0], hs_children = [],
         hs_info = \<lambda>_. \<lparr>si_name = ''f'', si_kind = IFunction, si_deprecated = False, si_name_range = (0, 1), si_full_range = (0, 4)\<rparr>\<rparr>\<rparr>, rs_ide := sample_ide\<lparr>ide_folding_ranges := \<lambda>_. [((1, 4), None)]\<rparr>\<rparr>
   in answer_ranges st (FoldingRanges ''a.py'') \<noteq> [] \<and> (\<forall>r\<in>set (answer_ranges st (FoldingRanges ''a.py'')). range_ok r)"
proof -
  let ?ck = "sample_checker\<lparr>ck_source := \<lambda>_. sample_source, ck_symbols := \<lambda>_. \<lparr>hs_iter = [0], hs_children = [],
    hs_info = \<lambda>_. \<lparr>si_name = ''f'', si_kind = IFunction, si_deprecated = False, si_name_range = (0, 1), si_full_range = (0, 4)\<rparr>\<rparr>\<rparr>"
  let ?st = "sample_state\<lparr>rs_checker := ?ck, rs_ide := sample_ide\<lparr>ide_folding_ranges := \<lambda>_. [((1, 4), None)]\<rparr>\<rparr>"
  have len: "utf8_len sample_source = 4" by (simp add: sample_source_def utf8_len_def utf8_width_def)
  have "index_ok 4 sample_index" by (auto simp: index_ok_def sample_index_def less_eq_prod_def)
  then have i: "\<forall>f. index_ok (utf8_len (ck_source (rs_checker ?st) f)) (file_index (rs_checker ?st) f)"
    by (simp add: len file_index_def sample_state_def) (simp add: sample_checker_def)
  have r: "ide_ranges_fit (rs_checker ?st) (rs_ide ?st)"
    by (simp add: ide_ranges_fit_def sample_state_def sample_ide_def range_fits_def len items_fit_def symbol_fits_def all_symbols_def)
      (simp add: sample_checker_def)
  have "answer_ranges ?st (FoldingRanges ''a.py'') \<noteq> []"
    by (simp add: answered_def compute_folding_ranges_def resolve_file_and_source_def resolve_file_def sample_state_def sample_checker_def Let_def
        is_absolute_def join_path_def suffix_def)
  with answers_well_formed [OF i r] show ?thesis by (simp only: Let_def) blast
qed

end
