(* ===== verification/Handles.thy ===== *)
theory Handles
  imports Reads Queries
begin

text \<open>
  The query methods of the two read handles: of a snapshot (\<open>PySnapshot\<close>,
  \<open>rust/src/project/snapshot.rs\<close>), which answers from its pinned state, and of the floating view
  (\<open>PyHeadView\<close>, \<open>rust/src/project/head_view.rs\<close>), which answers from the live head under the
  retry loop.  Each method runs one analysis query and turns its error into a Python exception.
\<close>

section \<open>Snapshots\<close>

definition snapshot_read ::
  "('md, 'db) world \<Rightarrow> 'db snapshot option \<Rightarrow> (read_state \<Rightarrow> (analysis_error, 'a) result) \<Rightarrow> (read_error, 'a) result" where
  "snapshot_read w sn query = rbind (snapshot_clone sn) (\<lambda>st. py_result (query (state_view w st)))"

definition snapshot_revision :: "'db snapshot \<Rightarrow> revision" where
  "snapshot_revision sn = sn_revision sn"

definition snapshot_check ::
  "('md, 'db) world \<Rightarrow> 'db snapshot option \<Rightarrow> (read_error, check_result) result" where
  "snapshot_check w sn = snapshot_read w sn (\<lambda>st. Inr (compute_check st))"

definition snapshot_check_file ::
  "('md, 'db) world \<Rightarrow> 'db snapshot option \<Rightarrow> path \<Rightarrow> (read_error, check_result) result" where
  "snapshot_check_file w sn p = snapshot_read w sn (\<lambda>st. compute_check_file st p)"

definition snapshot_workspace_symbols ::
  "('md, 'db) world \<Rightarrow> 'db snapshot option \<Rightarrow> str \<Rightarrow> (read_error, symbol_dto list) result" where
  "snapshot_workspace_symbols w sn query = snapshot_read w sn (\<lambda>st. Inr (compute_workspace_symbols st query))"

definition snapshot_goto_definition ::
  "('md, 'db) world \<Rightarrow> 'db snapshot option \<Rightarrow> path \<Rightarrow> u32 \<Rightarrow> u32 \<Rightarrow> (read_error, definition_target list) result" where
  "snapshot_goto_definition w sn p line column = snapshot_read w sn (\<lambda>st. compute_navigate st p line column (ide_navigate (rs_ide st)))"

definition snapshot_goto_declaration ::
  "('md, 'db) world \<Rightarrow> 'db snapshot option \<Rightarrow> path \<Rightarrow> u32 \<Rightarrow> u32 \<Rightarrow> (read_error, definition_target list) result" where
  "snapshot_goto_declaration w sn p line column = snapshot_read w sn (\<lambda>st. compute_navigate st p line column (ide_goto_declaration (rs_ide st)))"

definition snapshot_goto_type_definition ::
  "('md, 'db) world \<Rightarrow> 'db snapshot option \<Rightarrow> path \<Rightarrow> u32 \<Rightarrow> u32 \<Rightarrow> (read_error, definition_target list) result" where
  "snapshot_goto_type_definition w sn p line column = snapshot_read w sn (\<lambda>st. compute_navigate st p line column (ide_goto_type_definition (rs_ide st)))"

definition snapshot_find_references ::
  "('md, 'db) world \<Rightarrow> 'db snapshot option \<Rightarrow> path \<Rightarrow> u32 \<Rightarrow> u32 \<Rightarrow> bool \<Rightarrow> (read_error, reference_dto list) result" where
  "snapshot_find_references w sn p line column include_declaration = snapshot_read w sn (\<lambda>st. compute_find_references st p line column include_declaration)"

definition snapshot_semantic_tokens ::
  "('md, 'db) world \<Rightarrow> 'db snapshot option \<Rightarrow> path \<Rightarrow> u32 option \<Rightarrow> u32 option \<Rightarrow> u32 option \<Rightarrow> u32 option \<Rightarrow> (read_error, semantic_token_dto list) result" where
  "snapshot_semantic_tokens w sn p start_line start_col end_line end_col = snapshot_read w sn (\<lambda>st. compute_semantic_tokens st p start_line start_col end_line end_col)"

definition snapshot_inlay_hints ::
  "('md, 'db) world \<Rightarrow> 'db snapshot option \<Rightarrow> path \<Rightarrow> (read_error, inlay_hint_dto list) result" where
  "snapshot_inlay_hints w sn p = snapshot_read w sn (\<lambda>st. compute_inlay_hints st p)"

definition snapshot_hints ::
  "('md, 'db) world \<Rightarrow> 'db snapshot option \<Rightarrow> path \<Rightarrow> (read_error, hint_dto list) result" where
  "snapshot_hints w sn p = snapshot_read w sn (\<lambda>st. compute_hints st p)"

definition snapshot_code_actions ::
  "('md, 'db) world \<Rightarrow> 'db snapshot option \<Rightarrow> path \<Rightarrow> u32 \<Rightarrow> u32 \<Rightarrow> u32 \<Rightarrow> u32 \<Rightarrow> str \<Rightarrow> (read_error, quick_fix_dto list) result" where
  "snapshot_code_actions w sn p start_line start_col end_line end_col diagnostic_id = snapshot_read w sn (\<lambda>st. compute_code_actions st p start_line start_col end_line end_col diagnostic_id)"

definition snapshot_selection_ranges ::
  "('md, 'db) world \<Rightarrow> 'db snapshot option \<Rightarrow> path \<Rightarrow> u32 \<Rightarrow> u32 \<Rightarrow> (read_error, range_dto list) result" where
  "snapshot_selection_ranges w sn p line column = snapshot_read w sn (\<lambda>st. compute_selection_ranges st p line column)"

definition snapshot_folding_ranges ::
  "('md, 'db) world \<Rightarrow> 'db snapshot option \<Rightarrow> path \<Rightarrow> (read_error, folding_range_dto list) result" where
  "snapshot_folding_ranges w sn p = snapshot_read w sn (\<lambda>st. compute_folding_ranges st p)"

definition snapshot_signature_help ::
  "('md, 'db) world \<Rightarrow> 'db snapshot option \<Rightarrow> path \<Rightarrow> u32 \<Rightarrow> u32 \<Rightarrow> (read_error, signature_help_dto option) result" where
  "snapshot_signature_help w sn p line column = snapshot_read w sn (\<lambda>st. compute_signature_help st p line column)"

definition snapshot_completions ::
  "('md, 'db) world \<Rightarrow> 'db snapshot option \<Rightarrow> path \<Rightarrow> u32 \<Rightarrow> u32 \<Rightarrow> bool \<Rightarrow> (read_error, completion_dto list) result" where
  "snapshot_completions w sn p line column auto_import = snapshot_read w sn (\<lambda>st. compute_completions st p line column auto_import)"

definition snapshot_file_occurrences ::
  "('md, 'db) world \<Rightarrow> 'db snapshot option \<Rightarrow> path \<Rightarrow> (read_error, occurrence list) result" where
  "snapshot_file_occurrences w sn p = snapshot_read w sn (\<lambda>st. compute_file_occurrences st p)"

definition snapshot_type_hierarchy ::
  "('md, 'db) world \<Rightarrow> 'db snapshot option \<Rightarrow> path \<Rightarrow> u32 \<Rightarrow> u32 \<Rightarrow> (read_error, type_hierarchy_dto option) result" where
  "snapshot_type_hierarchy w sn p line column = snapshot_read w sn (\<lambda>st. compute_type_hierarchy st p line column)"

definition snapshot_class_supertypes ::
  "('md, 'db) world \<Rightarrow> 'db snapshot option \<Rightarrow> path \<Rightarrow> u32 \<Rightarrow> u32 \<Rightarrow> (read_error, hierarchy_item_dto list) result" where
  "snapshot_class_supertypes w sn p line column = snapshot_read w sn (\<lambda>st. compute_supertypes st p line column)"

definition snapshot_document_highlights ::
  "('md, 'db) world \<Rightarrow> 'db snapshot option \<Rightarrow> path \<Rightarrow> u32 \<Rightarrow> u32 \<Rightarrow> (read_error, reference_dto list) result" where
  "snapshot_document_highlights w sn p line column = snapshot_read w sn (\<lambda>st. compute_document_highlights st p line column)"

definition snapshot_can_rename ::
  "('md, 'db) world \<Rightarrow> 'db snapshot option \<Rightarrow> path \<Rightarrow> u32 \<Rightarrow> u32 \<Rightarrow> (read_error, range_dto option) result" where
  "snapshot_can_rename w sn p line column = snapshot_read w sn (\<lambda>st. compute_can_rename st p line column)"

definition snapshot_rename ::
  "('md, 'db) world \<Rightarrow> 'db snapshot option \<Rightarrow> path \<Rightarrow> u32 \<Rightarrow> u32 \<Rightarrow> str \<Rightarrow> (read_error, workspace_edit_dto option) result" where
  "snapshot_rename w sn p line column new_name = snapshot_read w sn (\<lambda>st. compute_rename st p line column new_name)"

definition snapshot_hover ::
  "('md, 'db) world \<Rightarrow> 'db snapshot option \<Rightarrow> path \<Rightarrow> u32 \<Rightarrow> u32 \<Rightarrow> (read_error, hover_dto option) result" where
  "snapshot_hover w sn p line column = snapshot_read w sn (\<lambda>st. compute_hover st p line column)"

section \<open>The floating view\<close>

type_synonym 'db head_view = "(nat \<Rightarrow> 'db project) \<times> (nat \<Rightarrow> outside) \<times> (nat \<Rightarrow> bool)"

text \<open>A view sees the project, the operating system and cancellation as each attempt finds them.\<close>

definition head_read ::
  "('md, 'db) world \<Rightarrow> 'db head_view \<Rightarrow> (read_state \<Rightarrow> (analysis_error, 'a) result) \<Rightarrow> (read_error, 'a) result" where
  "head_read w v query =
     (case v of (pjs, oss, cancelled) \<Rightarrow>
        rbind (read_head_with_retry pjs oss cancelled (\<lambda>st. query (state_view w st))) py_result)"

definition project_head_view :: "'db project \<Rightarrow> (read_error, unit) result" where
  "project_head_view pj = read_state_of (pj_inner pj) (\<lambda>_. ())"

definition head_view_document_symbols ::
  "('md, 'db) world \<Rightarrow> 'db head_view \<Rightarrow> path \<Rightarrow> (read_error, symbol_dto list) result" where
  "head_view_document_symbols w v p = head_read w v (\<lambda>st. compute_document_symbols st p)"

definition head_view_check ::
  "('md, 'db) world \<Rightarrow> 'db head_view \<Rightarrow> (read_error, check_result) result" where
  "head_view_check w v = head_read w v (\<lambda>st. Inr (compute_check st))"

definition head_view_check_file ::
  "('md, 'db) world \<Rightarrow> 'db head_view \<Rightarrow> path \<Rightarrow> (read_error, check_result) result" where
  "head_view_check_file w v p = head_read w v (\<lambda>st. compute_check_file st p)"

definition head_view_workspace_symbols ::
  "('md, 'db) world \<Rightarrow> 'db head_view \<Rightarrow> str \<Rightarrow> (read_error, symbol_dto list) result" where
  "head_view_workspace_symbols w v query = head_read w v (\<lambda>st. Inr (compute_workspace_symbols st query))"

definition head_view_goto_definition ::
  "('md, 'db) world \<Rightarrow> 'db head_view \<Rightarrow> path \<Rightarrow> u32 \<Rightarrow> u32 \<Rightarrow> (read_error, definition_target list) result" where
  "head_view_goto_definition w v p line column = head_read w v (\<lambda>st. compute_navigate st p line column (ide_navigate (rs_ide st)))"

definition head_view_goto_declaration ::
  "('md, 'db) world \<Rightarrow> 'db head_view \<Rightarrow> path \<Rightarrow> u32 \<Rightarrow> u32 \<Rightarrow> (read_error, definition_target list) result" where
  "head_view_goto_declaration w v p line column = head_read w v (\<lambda>st. compute_navigate st p line column (ide_goto_declaration (rs_ide st)))"

definition head_view_goto_type_definition ::
  "('md, 'db) world \<Rightarrow> 'db head_view \<Rightarrow> path \<Rightarrow> u32 \<Rightarrow> u32 \<Rightarrow> (read_error, definition_target list) result" where
  "head_view_goto_type_definition w v p line column = head_read w v (\<lambda>st. compute_navigate st p line column (ide_goto_type_definition (rs_ide st)))"

definition head_view_find_references ::
  "('md, 'db) world \<Rightarrow> 'db head_view \<Rightarrow> path \<Rightarrow> u32 \<Rightarrow> u32 \<Rightarrow> bool \<Rightarrow> (read_error, reference_dto list) result" where
  "head_view_find_references w v p line column include_declaration = head_read w v (\<lambda>st. compute_find_references st p line column include_declaration)"

definition head_view_semantic_tokens ::
  "('md, 'db) world \<Rightarrow> 'db head_view \<Rightarrow> path \<Rightarrow> u32 option \<Rightarrow> u32 option \<Rightarrow> u32 option \<Rightarrow> u32 option \<Rightarrow> (read_error, semantic_token_dto list) result" where
  "head_view_semantic_tokens w v p start_line start_col end_line end_col = head_read w v (\<lambda>st. compute_semantic_tokens st p start_line start_col end_line end_col)"

definition head_view_inlay_hints ::
  "('md, 'db) world \<Rightarrow> 'db head_view \<Rightarrow> path \<Rightarrow> (read_error, inlay_hint_dto list) result" where
  "head_view_inlay_hints w v p = head_read w v (\<lambda>st. compute_inlay_hints st p)"

definition head_view_hints ::
  "('md, 'db) world \<Rightarrow> 'db head_view \<Rightarrow> path \<Rightarrow> (read_error, hint_dto list) result" where
  "head_view_hints w v p = head_read w v (\<lambda>st. compute_hints st p)"

definition head_view_code_actions ::
  "('md, 'db) world \<Rightarrow> 'db head_view \<Rightarrow> path \<Rightarrow> u32 \<Rightarrow> u32 \<Rightarrow> u32 \<Rightarrow> u32 \<Rightarrow> str \<Rightarrow> (read_error, quick_fix_dto list) result" where
  "head_view_code_actions w v p start_line start_col end_line end_col diagnostic_id = head_read w v (\<lambda>st. compute_code_actions st p start_line start_col end_line end_col diagnostic_id)"

definition head_view_selection_ranges ::
  "('md, 'db) world \<Rightarrow> 'db head_view \<Rightarrow> path \<Rightarrow> u32 \<Rightarrow> u32 \<Rightarrow> (read_error, range_dto list) result" where
  "head_view_selection_ranges w v p line column = head_read w v (\<lambda>st. compute_selection_ranges st p line column)"

definition head_view_folding_ranges ::
  "('md, 'db) world \<Rightarrow> 'db head_view \<Rightarrow> path \<Rightarrow> (read_error, folding_range_dto list) result" where
  "head_view_folding_ranges w v p = head_read w v (\<lambda>st. compute_folding_ranges st p)"

definition head_view_signature_help ::
  "('md, 'db) world \<Rightarrow> 'db head_view \<Rightarrow> path \<Rightarrow> u32 \<Rightarrow> u32 \<Rightarrow> (read_error, signature_help_dto option) result" where
  "head_view_signature_help w v p line column = head_read w v (\<lambda>st. compute_signature_help st p line column)"

definition head_view_completions ::
  "('md, 'db) world \<Rightarrow> 'db head_view \<Rightarrow> path \<Rightarrow> u32 \<Rightarrow> u32 \<Rightarrow> bool \<Rightarrow> (read_error, completion_dto list) result" where
  "head_view_completions w v p line column auto_import = head_read w v (\<lambda>st. compute_completions st p line column auto_import)"

definition head_view_file_occurrences ::
  "('md, 'db) world \<Rightarrow> 'db head_view \<Rightarrow> path \<Rightarrow> (read_error, occurrence list) result" where
  "head_view_file_occurrences w v p = head_read w v (\<lambda>st. compute_file_occurrences st p)"

definition head_view_type_hierarchy ::
  "('md, 'db) world \<Rightarrow> 'db head_view \<Rightarrow> path \<Rightarrow> u32 \<Rightarrow> u32 \<Rightarrow> (read_error, type_hierarchy_dto option) result" where
  "head_view_type_hierarchy w v p line column = head_read w v (\<lambda>st. compute_type_hierarchy st p line column)"

definition head_view_class_supertypes ::
  "('md, 'db) world \<Rightarrow> 'db head_view \<Rightarrow> path \<Rightarrow> u32 \<Rightarrow> u32 \<Rightarrow> (read_error, hierarchy_item_dto list) result" where
  "head_view_class_supertypes w v p line column = head_read w v (\<lambda>st. compute_supertypes st p line column)"

definition head_view_document_highlights ::
  "('md, 'db) world \<Rightarrow> 'db head_view \<Rightarrow> path \<Rightarrow> u32 \<Rightarrow> u32 \<Rightarrow> (read_error, reference_dto list) result" where
  "head_view_document_highlights w v p line column = head_read w v (\<lambda>st. compute_document_highlights st p line column)"

definition head_view_can_rename ::
  "('md, 'db) world \<Rightarrow> 'db head_view \<Rightarrow> path \<Rightarrow> u32 \<Rightarrow> u32 \<Rightarrow> (read_error, range_dto option) result" where
  "head_view_can_rename w v p line column = head_read w v (\<lambda>st. compute_can_rename st p line column)"

definition head_view_rename ::
  "('md, 'db) world \<Rightarrow> 'db head_view \<Rightarrow> path \<Rightarrow> u32 \<Rightarrow> u32 \<Rightarrow> str \<Rightarrow> (read_error, workspace_edit_dto option) result" where
  "head_view_rename w v p line column new_name = head_read w v (\<lambda>st. compute_rename st p line column new_name)"

definition head_view_hover ::
  "('md, 'db) world \<Rightarrow> 'db head_view \<Rightarrow> path \<Rightarrow> u32 \<Rightarrow> u32 \<Rightarrow> (read_error, hover_dto option) result" where
  "head_view_hover w v p line column = head_read w v (\<lambda>st. compute_hover st p line column)"

text \<open>Identity reads take the lock once and do not retry.\<close>

definition head_view_locate :: "'db project \<Rightarrow> str \<Rightarrow> (read_error, str option) result" where
  "head_view_locate pj durable_id = read_state_of (pj_inner pj) (\<lambda>h. locate (h_registry h) durable_id)"

definition head_view_needs_review :: "'db project \<Rightarrow> (read_error, str list) result" where
  "head_view_needs_review pj =
     read_state_of (pj_inner pj) (\<lambda>h. identity_needs_review (h_config h) (Some (h_authored h)) (h_registry h))"

definition head_view_orphaned :: "'db project \<Rightarrow> (read_error, str list) result" where
  "head_view_orphaned pj = read_state_of (pj_inner pj) (\<lambda>h. orphaned (h_registry h))"

section \<open>The project\<close>

definition config_json ::
  "(validated_config \<Rightarrow> (str, str) result) \<Rightarrow> 'db project \<Rightarrow> (read_error, str) result" where
  "config_json encode pj =
     (case pj_inner pj of
        None \<Rightarrow> Inl (StateError ProjectClosedError)
      | Some h \<Rightarrow> (case encode (h_config h) of Inl _ \<Rightarrow> Inl (StateError PyConfigError) | Inr text \<Rightarrow> Inr text))"

definition project_content_disk_reads :: "'db project \<Rightarrow> (read_error, nat) result" where
  "project_content_disk_reads pj = read_state_of (pj_inner pj) (\<lambda>h. disk_read_count (h_store h))"

end
