(* ===== verification/Demo.thy ===== *)
theory Demo
  imports Writes Handles
begin

text \<open>
  A concrete project for the witnesses of the session's properties: one source file with one
  function, a type checker whose database is trivial, encoders that never fail.  Definitions
  are evaluated by the simplifier; nothing here models code.
\<close>

section \<open>Parameters\<close>

definition demo_hierarchy :: hierarchical where
  "demo_hierarchy = \<lparr>hs_iter = [0], hs_children = [],
     hs_info = \<lambda>_. \<lparr>si_name = ''f'', si_kind = IFunction, si_deprecated = False, si_name_range = (0, 1), si_full_range = (0, 5)\<rparr>\<rparr>"

definition demo_checker :: "overlay_system \<Rightarrow> checker" where
  "demo_checker ov =
     (let text = (\<lambda>p. case read_to_string ov p of Inl _ \<Rightarrow> [] | Inr t \<Rightarrow> t)
      in \<lparr>ck_files = [''/w/a.py''], ck_canonicalize = (\<lambda>_. Inl []), ck_to_file = Inr, ck_source = text,
          ck_line_index = (\<lambda>_. sample_index), ck_symbols = (\<lambda>_. demo_hierarchy), ck_parsed = (\<lambda>_. [])\<rparr>)"

definition demo_world :: "(unit, unit) world" where
  "demo_world = \<lparr>w_xxh3 = (\<lambda>s. of_nat (length s)), w_mint = (\<lambda>n. DurableId (nat_to_string n)), w_py_ext = (\<lambda>e. e = ''py''),
     w_to_vec_pretty = (\<lambda>_. Inr [1]), w_encode_doc = (\<lambda>doc. Inr [of_nat (length (ad_history doc))]),
     w_discover = (\<lambda>_ _. Inl []), w_meta_root = (\<lambda>_. []), w_meta_new = (\<lambda>_ _. ()), w_configure = (\<lambda>_ _. Inl []),
     w_fallible = (\<lambda>_ _. Inl []), w_use_defaults = (\<lambda>_ _. ()), w_apply_changes = (\<lambda>_ _ _. ((), False, False)),
     w_try_system = (\<lambda>_ _ _. None), w_try_virtual = (\<lambda>_ _. False), w_is_file = (\<lambda>ov p. read_to_string ov p \<noteq> Inl NotFound),
     w_checker = (\<lambda>_. demo_checker), w_ide = (\<lambda>_ _. sample_ide)\<rparr>"

definition demo_native :: native_system where
  "demo_native = \<lparr>native_metadata = \<lambda>_. Inl NotFound, native_read = \<lambda>_. Inl NotFound, native_read_virtual = \<lambda>_. Inl NotFound,
     native_source_type = \<lambda>_. None, native_virtual_source_type = \<lambda>_. None, native_read_directory = \<lambda>_. Inl NotFound,
     native_canonicalize = Inr, native_read_notebook = \<lambda>_. Inl [], native_read_virtual_notebook = \<lambda>_. Inl [], native_which = \<lambda>_. Inl [],
     native_path_exists_case_sensitive = \<lambda>_ _. False, native_case_sensitivity = CaseSensitive, native_current_directory = ''/'',
     native_user_config_directory = None, native_cache_dir = None, native_walk_directory = \<lambda>_. [], native_env_var = \<lambda>_. Inl []\<rparr>"

definition demo_outside :: outside where
  "demo_outside = \<lparr>o_disk = \<lparr>os_read = (\<lambda>p. if p = ''/w/a.py'' then Inr ''x = 1'' else Inl NotFound),
       os_walk = \<lambda>_. [Inr \<lparr>entry_path = ''/w/a.py'', entry_type = File\<rparr>]\<rparr>,
     o_native = demo_native, o_io = io_ok\<rparr>"

definition demo_env :: open_env where
  "demo_env = \<lparr>op_parse_toml = \<lambda>_. Inl [], op_de_config = \<lambda>_. Inl [], op_env = Map.empty, op_from_utf8 = \<lambda>_. Inl [],
     op_from_str = \<lambda>_. Inl [], op_decode_doc = \<lambda>_. Inl [], op_is_dir = \<lambda>_. False, op_read_dir = \<lambda>_. None,
     op_io_gitignore = io_ok, op_io_layout = io_ok\<rparr>"

definition demo_opened :: "disk \<times> (commit_error, unit project) result" where
  "demo_opened = open_project demo_world demo_outside demo_env ''/w'' Map.empty 0"

text \<open>A head with one anchor and one authored record that has been revised twice.\<close>

definition demo_version :: "nat \<Rightarrow> authored_version" where
  "demo_version r = \<lparr>av_value = JNull, av_revision = r, av_reviewed_hash = None\<rparr>"

definition demo_config :: validated_config where
  "demo_config = \<lparr>vc_raw = raw_defaults\<lparr>layers := [(''notes'', registered_layer True True)]\<rparr>, vc_topo_order = [''code'', ''notes'']\<rparr>"

definition demo_store :: content_store where
  "demo_store = fst (insert_text (w_xxh3 demo_world) ''/w/a.py'' ''x = 1'' (with_retain_cap 4))"

definition demo_head :: "unit head" where
  "demo_head = \<lparr>h_db = (), h_root = ''/w'', h_store = demo_store, h_system = overlay_live demo_native (generation demo_store),
     h_registry = registry_insert \<lparr>a_id = DurableId ''0'', a_qualified_path = ''/w/a.py::f'', a_content_hash = ContentHash 5,
       a_kind = Function, a_first_seen_rev = 1, a_last_seen_rev = 1, a_status = Active\<rparr> registry_default,
     h_hash_policy = hash_policy_default, h_hash_policies = [], h_default_hash_profile = ''structure'',
     h_config = demo_config, h_sidecar = sidecar_new ''/w'',
     h_authored = [((''notes'', ''0''), \<lparr>ar_current = demo_version 3, ar_history = [demo_version 1, demo_version 2]\<rparr>)],
     h_code_layer = code_layer_new, h_unsaved = {''/w/a.py''}, h_armed = None, h_disk = Map.empty, h_mints = 1\<rparr>"

definition demo_project :: "unit head \<Rightarrow> unit project" where
  "demo_project h = \<lparr>pj_inner = Some h, pj_pending = [EvChanged ''/w/a.py'' ChangedContent], pj_watching = True\<rparr>"

section \<open>Evaluations\<close>

lemma demo_opens:
  "case demo_opened of
     (d, Inr pj) \<Rightarrow> (case pj_inner pj of Some h \<Rightarrow> revision (h_store h) = 1 \<and> retain_cap (h_store h) = 256 | None \<Rightarrow> False)
   | _ \<Rightarrow> False"
  by code_simp

lemma demo_session:
  obtains d pj h where "demo_opened = (d, Inr pj)" "session demo_world pj" "pj_inner pj = Some h"
    "revision (h_store h) = 1" "retain_cap (h_store h) = 256"
proof -
  from demo_opens obtain d pj h where o: "demo_opened = (d, Inr pj)" and h: "pj_inner pj = Some h"
    "revision (h_store h) = 1" "retain_cap (h_store h) = 256"
    by (auto split: prod.splits sum.splits option.splits)
  from o have "session demo_world pj" unfolding demo_opened_def by (rule session_open)
  with o h that show ?thesis by blast
qed

lemma demo_fault:
  "snd (commit demo_world demo_outside SyncAll (demo_head\<lparr>h_armed := Some ''code_layer''\<rparr>)) = Inl CommitFailed"
  by code_simp

lemma demo_edit:
  "case edit demo_world demo_outside ''b.py'' ''y = 2'' (demo_project demo_head) of
     (pj', Inr _) \<Rightarrow> pj_inner pj' \<noteq> None | _ \<Rightarrow> False"
  by code_simp

lemma demo_reload:
  "case reload demo_world demo_outside (demo_project demo_head) of
     (pj1, Inr _) \<Rightarrow>
       (case author demo_world demo_outside (\<lambda>_. Inr JNull) ''notes'' ''0'' ''null'' pj1 of (pj2, Inr _) \<Rightarrow> True | _ \<Rightarrow> False)
   | _ \<Rightarrow> False"
  by code_simp

section \<open>Witnesses\<close>

theorem commit_rolls_back_witness:
  "\<exists>h'. commit demo_world demo_outside SyncAll (demo_head\<lparr>h_armed := Some ''code_layer''\<rparr>) = (h', Inl CommitFailed)
     \<and> h_registry h' = h_registry demo_head \<and> revision (h_store h') = 1 \<and> content (h_system h') = generation demo_store"
proof -
  let ?h = "demo_head\<lparr>h_armed := Some ''code_layer''\<rparr>"
  obtain h' where c: "commit demo_world demo_outside SyncAll ?h = (h', Inl CommitFailed)"
    using demo_fault by (metis prod.collapse)
  have live: "content (h_system ?h) = generation (h_store ?h)" by (simp add: demo_head_def overlay_live_def)
  note r = commit_rolls_back [OF live c]
  have "h_registry h' = h_registry ?h" "h_system h' = h_system ?h" by (subst conjunct1 [OF r], simp)+
  moreover have "revision (h_store h') = revision (h_store ?h)" by (subst conjunct1 [OF conjunct2 [OF r]], simp)
  moreover have "revision (h_store ?h) = 1"
    by (simp add: demo_head_def demo_store_def insert_text_def apply_batch_def mutate_def with_retain_cap_def record_retained_def)
  ultimately show ?thesis using c live by (simp add: demo_head_def overlay_live_def)
qed

theorem session_consistent_witness:
  "\<exists>d pj h. demo_opened = (d, Inr pj) \<and> pj_inner pj = Some h \<and> revision (h_store h) = 1
     \<and> content (h_system h) = generation (h_store h) \<and> index_sound (h_registry h)"
proof -
  obtain d pj h where "demo_opened = (d, Inr pj)" "session demo_world pj" "pj_inner pj = Some h" "revision (h_store h) = 1"
    by (rule demo_session)
  with session_consistent [of demo_world pj h] show ?thesis by blast
qed

theorem snapshot_isolation_witness:
  "\<exists>d pj sn. demo_opened = (d, Inr pj) \<and> take_snapshot demo_world demo_outside (Some 1) pj = Inr sn
     \<and> \<not> (\<exists>sn. take_snapshot demo_world demo_outside (Some 2) pj = Inr sn)
     \<and> (\<forall>sn'. take_snapshot demo_world demo_outside (Some 1) (fst (edit demo_world demo_outside ''a.py'' ''y = 2'' pj)) = Inr sn'
          \<longrightarrow> content (ts_system (sn_state sn')) = content (ts_system (sn_state sn)))"
proof -
  obtain d pj h where o: "demo_opened = (d, Inr pj)" and s: "session demo_world pj" and h: "pj_inner pj = Some h"
    and r: "revision (h_store h) = 1" "retain_cap (h_store h) = 256" by (rule demo_session)
  let ?pj' = "fst (edit demo_world demo_outside ''a.py'' ''y = 2'' pj)"
  have steps: "(project_step demo_world)\<^sup>*\<^sup>* pj ?pj'" by (rule r_into_rtranclp, rule step_edit)
  have pos: "0 < retain_cap (h_store h)" using r by simp
  note iso = snapshot_isolation [OF s steps h pos, of demo_outside demo_outside]
  obtain sn where sn: "take_snapshot demo_world demo_outside (Some 1) pj = Inr sn" using iso [of 1] r by auto
  have rev: "sn_revision x = q" if "take_snapshot demo_world demo_outside (Some q) p = Inr x" for q p x
    using that by (auto simp: take_snapshot_def split: option.splits)
  have "\<not> (\<exists>sn. take_snapshot demo_world demo_outside (Some 2) pj = Inr sn)" using iso [of 2] r by simp
  moreover have "content (ts_system (sn_state sn')) = content (ts_system (sn_state sn))"
    if "take_snapshot demo_world demo_outside (Some 1) ?pj' = Inr sn'" for sn'
    using conjunct1 [OF iso [of 1], rule_format, of "Some 1" sn "Some 1" sn'] that sn rev [OF that] rev [OF sn] by simp
  ultimately show ?thesis using o sn by blast
qed

theorem edit_publishes_witness:
  "\<exists>pj' h' delta. edit demo_world demo_outside ''b.py'' ''y = 2'' (demo_project demo_head) = (pj', Inr delta)
     \<and> pj_inner pj' = Some h' \<and> read_to_string (h_system h') ''/w/b.py'' = Inr ''y = 2'' \<and> h_unsaved h' = {''/w/b.py'', ''/w/a.py''}
     \<and> h_disk h' (identity_db_path (h_sidecar h')) \<noteq> None"
proof -
  have "pj_inner (demo_project demo_head) = Some demo_head" "o_io demo_outside = io_ok" "h_armed demo_head = None"
    "\<forall>j. \<exists>bytes. w_to_vec_pretty demo_world j = Inr bytes"
    by (simp_all add: demo_project_def demo_outside_def demo_head_def demo_world_def)
  note e = edit_publishes [OF this, of "''b.py''" "''y = 2''"]
  have "resolve_sync_path (h_root demo_head) ''b.py'' = ''/w/b.py''" "h_unsaved demo_head = {''/w/a.py''}"
    by (simp_all add: demo_head_def resolve_sync_path_def join_path_def is_absolute_def suffix_def)
  with e show ?thesis by fastforce
qed

theorem unsaved_buffers_win_witness:
  "''/w/a.py'' \<in> h_unsaved demo_head
   \<and> poll_changes demo_world demo_outside (demo_project demo_head) = ((demo_project demo_head)\<lparr>pj_pending := []\<rparr>, Inr None)"
proof -
  have "pj_inner (demo_project demo_head) = Some demo_head" by (simp add: demo_project_def)
  note u = conjunct2 [OF unsaved_buffers_win [OF this, of demo_world demo_outside]]
  have "''/w/a.py'' \<in> h_unsaved demo_head" by (simp add: demo_head_def)
  with u show ?thesis by (simp add: demo_project_def)
qed

text \<open>Three attempts are cancelled; the fourth answers.\<close>

theorem head_read_retries_witness:
  "read_head_with_retry (\<lambda>_. demo_project demo_head) (\<lambda>_. demo_outside) (\<lambda>k. k < 3) ts_root = Inr ''/w''"
  using head_read_retries [of 3 "\<lambda>k. k < 3" "\<lambda>_. demo_project demo_head" demo_head "\<lambda>_. demo_outside" ts_root]
  by (simp add: demo_project_def read_clone_def) (simp add: demo_head_def)

theorem edit_local_witness:
  "\<exists>pj' h' delta. edit demo_world demo_outside ''b.py'' ''y = 2'' (demo_project demo_head) = (pj', Inr delta) \<and> pj_inner pj' = Some h'
     \<and> registry_get (h_registry h') (DurableId ''0'') = registry_get (h_registry demo_head) (DurableId ''0'')
     \<and> registry_get (h_registry h') (DurableId ''0'') \<noteq> None"
proof -
  let ?pj = "demo_project demo_head"
  obtain pj' h' delta where e: "edit demo_world demo_outside ''b.py'' ''y = 2'' ?pj = (pj', Inr delta)" "pj_inner pj' = Some h'"
    using demo_edit by (auto split: prod.splits sum.splits option.splits)
  have abs: "resolve_sync_path (h_root demo_head) ''b.py'' = ''/w/b.py''"
    by (simp add: demo_head_def resolve_sync_path_def join_path_def is_absolute_def suffix_def)
  have py: "is_python_path demo_world ''/w/b.py''" by code_simp
  let ?a = "\<lparr>a_id = DurableId ''0'', a_qualified_path = ''/w/a.py::f'', a_content_hash = ContentHash 5,
       a_kind = Function, a_first_seen_rev = 1, a_last_seen_rev = 1, a_status = Active\<rparr>"
  have reg: "h_registry demo_head = registry_insert ?a registry_default" by (simp add: demo_head_def)
  have sound: "index_sound (h_registry demo_head)" unfolding reg using index_sound_insert [OF index_sound_default] by simp
  have get: "registry_get (h_registry demo_head) i = (if i = DurableId ''0'' then Some ?a else None)" for i
    unfolding reg by (simp add: registry_get_insert) (simp add: registry_default_def registry_get_def)
  have num: "a = b" if "nat_to_string a = nat_to_string b" for a b
  proof -
    have "a < Suc (a + b)" "b < Suc (a + b)" by simp_all
    from this [THEN parse_nat_to_string] that show ?thesis by (metis option.inject)
  qed
  then have "inj (w_mint demo_world)" by (simp add: demo_world_def inj_def)
  moreover have "w_mint demo_world k \<noteq> DurableId ''0''" if "h_mints demo_head \<le> k" for k
  proof -
    have "k \<noteq> 0" using that by (simp add: demo_head_def)
    moreover have "nat_to_string 0 = ''0''" by code_simp
    ultimately have "nat_to_string k \<noteq> ''0''" using num [of k 0] by auto
    then show ?thesis by (simp add: demo_world_def)
  qed
  ultimately have fresh: "fresh_mint (w_mint demo_world) (h_registry demo_head) (h_mints demo_head)" by (simp add: fresh_mint_def get)
  have "anchor_file ''/w/a.py::f'' = Some ''/w/a.py''"
    using split_once_append [of "''::''" "''/w/a.py''" "''f''"] by (simp add: anchor_file_def)
  then have "registry_get (h_registry h') (DurableId ''0'') = Some ?a"
    using edit_local [of ?pj demo_head demo_world demo_outside "''b.py''" "''y = 2''" pj' delta h' "DurableId ''0''" ?a]
      e abs py sound fresh get by (simp add: demo_project_def)
  with e get show ?thesis by simp
qed

theorem reload_loses_authored_history_witness:
  "\<exists>pj1 pj2 delta h2 version. length (ar_history (snd (hd (h_authored demo_head)))) = 2
     \<and> reload demo_world demo_outside (demo_project demo_head) = (pj1, Inr ())
     \<and> author demo_world demo_outside (\<lambda>_. Inr JNull) ''notes'' ''0'' ''null'' pj1 = (pj2, Inr delta)
     \<and> pj_inner pj2 = Some h2 \<and> h_authored h2 = [((''notes'', ''0''), \<lparr>ar_current = version, ar_history = []\<rparr>)]"
proof -
  have l: "length (ar_history (snd (hd (h_authored demo_head)))) = 2" by (simp add: demo_head_def)
  obtain pj1 pj2 delta where r: "reload demo_world demo_outside (demo_project demo_head) = (pj1, Inr ())"
    "author demo_world demo_outside (\<lambda>_. Inr JNull) ''notes'' ''0'' ''null'' pj1 = (pj2, Inr delta)"
    using demo_reload by (auto split: prod.splits sum.splits)
  from reload_loses_authored_history [OF r] l r show ?thesis by blast
qed

end
