(* ===== verification/Meaning.thy ===== *)
theory Meaning
  imports Symbols
begin

text \<open>
  Content hashes follow meaning, not formatting, end to end: from the syntax tree through the
  rendering (\<open>rust/src/hash.rs\<close>) and the extracted entities (\<open>rust/src/entity.rs\<close>) to what
  reconciliation reports (\<open>rust/src/identity.rs\<close>).
\<close>

section \<open>Ranges do not reach the rendering\<close>

text \<open>
  The tree without any position: neither the ranges of its nodes nor those its nodes keep of the
  name of a function or class, of an imported name and its alias, and of an attribute.
\<close>

definition erase_alias :: "alias_node \<Rightarrow> alias_node" where
  "erase_alias a = a\<lparr>al_name_range := (0, 0), al_asname_range := map_option (\<lambda>_. (0, 0)) (al_asname_range a)\<rparr>"

fun erase_stmt_data :: "stmt_data \<Rightarrow> stmt_data" where
  "erase_stmt_data (FunctionDef name _ is_async) = FunctionDef name (0, 0) is_async"
| "erase_stmt_data (ClassDef name _) = ClassDef name (0, 0)"
| "erase_stmt_data (ImportStmt names) = ImportStmt (map erase_alias names)"
| "erase_stmt_data (ImportFrom names) = ImportFrom (map erase_alias names)"
| "erase_stmt_data d = d"

fun erase_expr_data :: "expr_data \<Rightarrow> expr_data" where
  "erase_expr_data (Attribute name _ ctx) = Attribute name (0, 0) ctx"
| "erase_expr_data d = d"

fun erase_ranges :: "ast \<Rightarrow> ast" where
  "erase_ranges (Stmt d _ kind cs) = Stmt (erase_stmt_data d) (0, 0) kind (map erase_ranges cs)"
| "erase_ranges (Expr d _ kind cs) = Expr (erase_expr_data d) (0, 0) kind (map erase_ranges cs)"
| "erase_ranges (Body ss) = Body (map erase_ranges ss)"
| "erase_ranges (StringLiteral v kind cs) = StringLiteral v kind (map erase_ranges cs)"
| "erase_ranges (BytesLiteral v kind cs) = BytesLiteral v kind (map erase_ranges cs)"
| "erase_ranges (InterpolatedElement lit kind cs) = InterpolatedElement lit kind (map erase_ranges cs)"
| "erase_ranges (Identifier s) = Identifier s"
| "erase_ranges (Node kind cs) = Node kind (map erase_ranges cs)"

lemma erased_data [simp]:
  "opens_doc_scope (erase_stmt_data d) = opens_doc_scope d" "stmt_is_async (erase_stmt_data d) = stmt_is_async d"
  "expr_tokens (erase_expr_data x) = expr_tokens x"
  by (cases d; simp add: opens_doc_scope_def stmt_is_async_def)+ (cases x; simp)

lemma docstring_erase [simp]: "is_docstring_stmt (erase_ranges s) = is_docstring_stmt s"
proof (cases s)
  case (Stmt d r kind cs)
  then show ?thesis
  proof (cases cs)
    case (Cons c rest)
    with Stmt show ?thesis by (cases d; cases c) (auto simp: is_docstring_stmt_def split: expr_data.splits elim: erase_expr_data.elims)
  qed (auto simp: is_docstring_stmt_def split: stmt_data.splits)
qed (auto simp: is_docstring_stmt_def)

lemma doc_body_erase: "doc_body policy doc (map erase_ranges ss) = map erase_ranges (doc_body policy doc ss)"
  by (cases ss) (auto simp: doc_body_def skip_first_def)

lemma render_erase: "render policy doc (erase_ranges t) = render policy doc t"
proof (induction t arbitrary: doc)
  case (Body ss)
  have "render_all policy False (map erase_ranges us) = render_all policy False us" if "set us \<subseteq> set ss" for us
    using that Body by (auto simp: render_all_concat comp_def subset_iff intro!: arg_cong [where f = concat])
  moreover have "set (doc_body policy doc ss) \<subseteq> set ss" by (auto simp: doc_body_def dest: in_set_dropD)
  ultimately show ?case by (simp add: doc_body_erase)
qed (auto simp: render_all_concat comp_def intro!: arg_cong [where f = concat] split: option.splits)

text \<open>Two statements that differ only in positions and docstrings.\<close>

definition same_meaning :: "ast \<Rightarrow> ast \<Rightarrow> bool" where
  "same_meaning s s' \<longleftrightarrow> erase_ranges (strip_docs False s) = erase_ranges (strip_docs False s')"

lemma same_meaning_render:
  assumes "same_meaning s s'" "well_formed s" "well_formed s'" "is_stmt s" "is_stmt s'" "\<not> include_docstrings policy"
  shows "render_stmt s policy = render_stmt s' policy"
proof -
  have "render_stmt t policy = render (policy\<lparr>include_docstrings := True\<rparr>) False (erase_ranges (strip_docs False t))"
    if "well_formed t" "is_stmt t" for t
    using that assms(6) is_stmt_not_body render_strip [where doc' = False]
    by (simp add: render_stmt_structural render_erase)
  with assms show ?thesis by (simp add: same_meaning_def)
qed

section \<open>Entities\<close>

definition without_ranges :: "entity \<Rightarrow> entity" where
  "without_ranges e = e\<lparr>e_full_range := (0, 0), e_name_range := (0, 0)\<rparr>"

text \<open>The same symbols under the same containers, wherever they stand.\<close>

definition same_outline :: "hierarchical \<Rightarrow> hierarchical \<Rightarrow> bool" where
  "same_outline hs hs' \<longleftrightarrow>
     hs_iter hs' = hs_iter hs \<and> hs_children hs' = hs_children hs
     \<and> (\<forall>i\<in>set (all_symbols hs). si_name (hs_info hs' i) = si_name (hs_info hs i) \<and> si_kind (hs_info hs' i) = si_kind (hs_info hs i))"

definition walks_alike :: "entity_walk \<Rightarrow> entity_walk \<Rightarrow> bool" where
  "walks_alike cx cx' \<longleftrightarrow>
     same_outline (ew_hierarchical cx) (ew_hierarchical cx') \<and> ew_file_path cx' = ew_file_path cx \<and> ew_xxh3 cx' = ew_xxh3 cx
     \<and> (\<forall>i\<in>set (all_symbols (ew_hierarchical cx)).
          ew_normal_form cx' (si_full_range (hs_info (ew_hierarchical cx') i))
            = ew_normal_form cx (si_full_range (hs_info (ew_hierarchical cx) i)))"

lemma entity_of_alike:
  "walks_alike cx cx' \<Longrightarrow> i \<in> set (all_symbols (ew_hierarchical cx)) \<Longrightarrow>
   without_ranges (entity_of cx' i pq pd) = without_ranges (entity_of cx i pq pd)"
  by (simp add: walks_alike_def same_outline_def entity_of_def without_ranges_def Let_def)

definition states_alike :: "walk_state \<Rightarrow> walk_state \<Rightarrow> bool" where
  "states_alike st st' \<longleftrightarrow> map without_ranges (fst st') = map without_ranges (fst st) \<and> snd st' = snd st"

lemma fold_option_rel:
  "R s s' \<Longrightarrow> (\<And>x s s'. x \<in> set xs \<Longrightarrow> R s s' \<Longrightarrow> rel_option R (f x s) (g x s')) \<Longrightarrow>
   rel_option R (fold_option f xs s) (fold_option g xs s')"
proof (induction xs arbitrary: s s')
  case (Cons x xs)
  from Cons.prems(2) [of x s s'] Cons.prems(1) have "rel_option R (f x s) (g x s')" by simp
  then show ?case using Cons by (cases rule: option.rel_cases) auto
qed simp

lemma collect_alike:
  "walks_alike cx cx' \<Longrightarrow> i \<in> set (all_symbols (ew_hierarchical cx)) \<Longrightarrow> states_alike st st' \<Longrightarrow>
   rel_option states_alike (collect_entities_recursive fuel cx pq pd i st) (collect_entities_recursive fuel cx' pq pd i st')"
proof (induction fuel arbitrary: i st st' pq pd)
  case (Suc fuel)
  define e e' where e: "e = entity_of cx i pq pd" "e' = entity_of cx' i pq pd"
  have same: "without_ranges e' = without_ranges e" unfolding e by (rule entity_of_alike [OF Suc.prems(1,2)])
  then have keys: "e_qualified_path e' = e_qualified_path e" "e_qualified_name e' = e_qualified_name e"
    by (auto simp: without_ranges_def dest: arg_cong [where f = e_qualified_path] arg_cong [where f = e_qualified_name])
  have ch: "children (ew_hierarchical cx') i = children (ew_hierarchical cx) i"
    using Suc.prems(1) by (simp add: walks_alike_def same_outline_def children_def)
  have "rel_option states_alike
      (fold_option (\<lambda>c st. if c \<in> snd st then Some st
         else collect_entities_recursive fuel cx (Some (e_qualified_path e)) (Some (e_qualified_name e)) c st)
        (children (ew_hierarchical cx) i) (fst st @ [e], insert i (snd st)))
      (fold_option (\<lambda>c st. if c \<in> snd st then Some st
         else collect_entities_recursive fuel cx' (Some (e_qualified_path e)) (Some (e_qualified_name e)) c st)
        (children (ew_hierarchical cx) i) (fst st' @ [e'], insert i (snd st')))"
  proof (rule fold_option_rel)
    show "states_alike (fst st @ [e], insert i (snd st)) (fst st' @ [e'], insert i (snd st'))"
      using Suc.prems(3) same by (simp add: states_alike_def)
  next
    fix c s s' assume c: "c \<in> set (children (ew_hierarchical cx) i)" and s: "states_alike s s'"
    then have "snd s' = snd s" by (simp add: states_alike_def)
    with s Suc.IH [OF Suc.prems(1) children_all [OF c]] show "rel_option states_alike
        (if c \<in> snd s then Some s else collect_entities_recursive fuel cx (Some (e_qualified_path e)) (Some (e_qualified_name e)) c s)
        (if c \<in> snd s' then Some s' else collect_entities_recursive fuel cx' (Some (e_qualified_path e)) (Some (e_qualified_name e)) c s')"
      by simp
  qed
  then show ?case by (simp add: Let_def e [symmetric] ch keys cong: if_cong)
qed simp

lemma extract_alike:
  assumes "walks_alike (file_walk xxh3 ck policy file) (file_walk xxh3 ck' policy file)"
    and "extract_file xxh3 ck policy file [] = Some es" "extract_file xxh3 ck' policy file [] = Some es'"
  shows "map without_ranges es' = map without_ranges es"
proof -
  let ?cx = "file_walk xxh3 ck policy file" and ?cx' = "file_walk xxh3 ck' policy file"
  have hs: "hs_iter (ck_symbols ck' file) = hs_iter (ck_symbols ck file)"
      "all_symbols (ck_symbols ck' file) = all_symbols (ck_symbols ck file)"
    using assms(1) by (simp_all add: walks_alike_def same_outline_def file_walk_def all_symbols_def)
  have "rel_option states_alike (fold_option (walk_root ?cx) (hs_iter (ck_symbols ck file)) ([], {}))
      (fold_option (walk_root ?cx') (hs_iter (ck_symbols ck file)) ([], {}))"
  proof (rule fold_option_rel)
    fix i s s' assume i: "i \<in> set (hs_iter (ck_symbols ck file))" and s: "states_alike s s'"
    have "i \<in> set (all_symbols (ew_hierarchical ?cx))" using i by (simp add: all_symbols_def file_walk_def)
    note c = collect_alike [OF assms(1) this s]
    have "snd s' = snd s" using s by (simp add: states_alike_def)
    with s c show "rel_option states_alike (walk_root ?cx i s) (walk_root ?cx' i s')"
      using hs by (simp add: walk_root_def) (simp add: file_walk_def)
  qed (simp add: states_alike_def)
  with assms(2,3) hs(1) show ?thesis by (auto simp: extract_file_def states_alike_def)
qed

section \<open>Properties\<close>

text \<open>
  C7.  Formatting and docstrings are no change.  Let a file be edited so that its symbols stay
  the same and each symbol's statement changes only in positions (of any token) and docstrings,
  under a policy that leaves docstrings out, as the default one does; let the symbols of the file
  have distinct qualified paths.  Then for an entity the registry knows at its path with its hash,
  with the path index sound and fresh identifiers fresh, reconciling the entities extracted
  afterwards keeps it: bound to its identity by its path, active, with the same hash, and
  reported neither as created nor as changed.
\<close>

theorem formatting_is_no_change:
  assumes outline: "same_outline (ck_symbols ck file) (ck_symbols ck' file)"
    and statements: "\<forall>i\<in>set (all_symbols (ck_symbols ck file)). \<exists>s s'.
        index_statements (ck_parsed ck file) (si_full_range (hs_info (ck_symbols ck file) i)) = Some s
        \<and> index_statements (ck_parsed ck' file) (si_full_range (hs_info (ck_symbols ck' file) i)) = Some s'
        \<and> well_formed s \<and> well_formed s' \<and> is_stmt s \<and> is_stmt s' \<and> same_meaning s s'"
    and policy: "\<not> include_docstrings policy"
    and extracted: "extract_file xxh3 ck policy file [] = Some es" "extract_file xxh3 ck' policy file [] = Some es'"
    and recon: "reconcile_impl mint r es' rv scope n = Some (r', rc, n')"
    and sound: "index_sound r" "fresh_mint mint r n" "distinct (map e_qualified_path es)"
    and known: "e \<in> set es" "by_path r (e_qualified_path e) = Some i" "registry_get r i = Some a" "a_content_hash a = e_content_hash e"
  shows "(e_qualified_path e, Exact i (e_content_hash e)) \<in> set (bindings rc)
    \<and> registry_get r' i = Some (a\<lparr>a_last_seen_rev := rv, a_status := Active\<rparr>)
    \<and> i \<notin> set (created (classify rc es')) \<and> i \<notin> set (changed (classify rc es'))"
proof -
  have nf: "file_normal_form ck' file (si_full_range (hs_info (ck_symbols ck' file) j)) policy
      = file_normal_form ck file (si_full_range (hs_info (ck_symbols ck file) j)) policy"
    if "j \<in> set (all_symbols (ck_symbols ck file))" for j
    using statements [rule_format, OF that] policy
    by (auto simp: file_normal_form_def entity_normal_form_def same_meaning_render [where policy = policy])
  have "walks_alike (file_walk xxh3 ck policy file) (file_walk xxh3 ck' policy file)"
    using outline nf by (simp add: walks_alike_def file_walk_def)
  from extract_alike [OF this extracted] have alike: "map without_ranges es' = map without_ranges es" .
  then have "map (e_qualified_path \<circ> without_ranges) es' = map (e_qualified_path \<circ> without_ranges) es" by (metis map_map)
  then have paths: "map e_qualified_path es' = map e_qualified_path es" by (simp add: without_ranges_def comp_def)
  from known(1) have "without_ranges e \<in> set (map without_ranges es')" unfolding alike by simp
  then obtain e' where e': "e' \<in> set es'" "without_ranges e' = without_ranges e" by auto
  then have same: "e_qualified_path e' = e_qualified_path e" "e_content_hash e' = e_content_hash e"
    by (auto simp: without_ranges_def dest: arg_cong [where f = e_qualified_path] arg_cong [where f = e_content_hash])
  note d = sound(1,2) sound(3) [folded paths]
  have b: "(e_qualified_path e, Exact i (e_content_hash e)) \<in> set (bindings rc)
      \<and> registry_get r' i = Some (a\<lparr>a_last_seen_rev := rv, a_status := Active\<rparr>)"
    using reconcile_exact_registry [OF recon d e'(1), of i a] known same by (cases a) simp
  moreover have "i \<notin> set (created (classify rc es'))" "i \<notin> set (changed (classify rc es'))"
    using created_registry [OF recon d, of i] changed_registry [OF recon d, of i] b known(3) by auto
  ultimately show ?thesis by simp
qed

text \<open>A function whose docstring is removed and which has moved down a line, its name with it.\<close>

definition sample_undocumented :: ast where
  "sample_undocumented = Stmt (FunctionDef ''f'' (17, 18) False) (13, 31) ''StmtFunctionDef''
     [Identifier ''f'', Node ''Parameters'' [], Body [sample_return ''1'']]"

definition function_checker :: "text_range \<Rightarrow> ast \<Rightarrow> checker" where
  "function_checker full stmt = sample_checker\<lparr>ck_parsed := \<lambda>_. [stmt],
     ck_symbols := \<lambda>_. \<lparr>hs_iter = [0], hs_children = [], hs_info = \<lambda>_. \<lparr>si_name = ''f'', si_kind = IFunction, si_deprecated = False,
       si_name_range = (fst full + 4, fst full + 5), si_full_range = full\<rparr>\<rparr>\<rparr>"

definition known_anchor :: "entity \<Rightarrow> anchor" where
  "known_anchor e = \<lparr>a_id = DurableId ''A'', a_qualified_path = e_qualified_path e, a_content_hash = e_content_hash e,
     a_kind = e_kind e, a_first_seen_rev = 1, a_last_seen_rev = 1, a_status = NeedsReview\<rparr>"

lemma known_registry:
  "index_sound (registry_insert (known_anchor e) registry_default)"
  "fresh_mint mint_seq (registry_insert (known_anchor e) registry_default) 0"
  "by_path (registry_insert (known_anchor e) registry_default) (e_qualified_path e) = Some (DurableId ''A'')"
  "registry_get (registry_insert (known_anchor e) registry_default) i = (if i = DurableId ''A'' then Some (known_anchor e) else None)"
proof -
  show "index_sound (registry_insert (known_anchor e) registry_default)" by (rule index_sound_insert [OF index_sound_default])
  show get: "registry_get (registry_insert (known_anchor e) registry_default) i = (if i = DurableId ''A'' then Some (known_anchor e) else None)" for i
    by (simp add: registry_get_insert known_anchor_def) (simp add: registry_default_def registry_get_def)
  show "by_path (registry_insert (known_anchor e) registry_default) (e_qualified_path e) = Some (DurableId ''A'')"
    by (simp add: registry_insert_def registry_default_def registry_get_def known_anchor_def Let_def)
  have "mint_seq k \<noteq> DurableId ''A''" for k
    using nat_to_string_digits [of "CHR ''A''" k] by (auto simp: mint_seq_def digit_value_def)
  with mint_seq_inj show "fresh_mint mint_seq (registry_insert (known_anchor e) registry_default) 0" by (simp add: fresh_mint_def get)
qed

theorem formatting_is_no_change_witness:
  "\<exists>e es' r' rc n'. extract_file (\<lambda>s. of_nat (length s)) (function_checker (12, 38) (sample_method ''1'')) hash_policy_default ''/w/a.py'' [] = Some [e]
     \<and> extract_file (\<lambda>s. of_nat (length s)) (function_checker (13, 31) sample_undocumented) hash_policy_default ''/w/a.py'' [] = Some es'
     \<and> reconcile_impl mint_seq (registry_insert (known_anchor e) registry_default) es' 2 None 0 = Some (r', rc, n')
     \<and> status_of r' (DurableId ''A'') = Some Active"
proof -
  let ?x = "\<lambda>s. of_nat (length s)" and ?ck = "function_checker (12, 38) (sample_method ''1'')" and ?ck' = "function_checker (13, 31) sample_undocumented"
  obtain es' where es': "extract_file ?x ?ck' hash_policy_default ''/w/a.py'' [] = Some es'" using extract_file_total by blast
  obtain e where e: "extract_file ?x ?ck hash_policy_default ''/w/a.py'' [] = Some [e]"
    by (simp add: extract_file_def walk_root_def file_walk_def function_checker_def all_symbols_def children_def Let_def)
  let ?r = "registry_insert (known_anchor e) registry_default"
  obtain r' rc n' where rc: "reconcile_impl mint_seq ?r es' 2 None 0 = Some (r', rc, n')" using reconcile_total by (metis prod_cases3)
  have outline: "same_outline (ck_symbols ?ck ''/w/a.py'') (ck_symbols ?ck' ''/w/a.py'')"
    by (simp add: same_outline_def function_checker_def)
  have "well_formed sample_undocumented" "is_stmt sample_undocumented" "same_meaning (sample_method ''1'') sample_undocumented"
    by (auto simp: sample_undocumented_def sample_class_simps same_meaning_def is_docstring_stmt_def)
  then have statements: "\<forall>i\<in>set (all_symbols (ck_symbols ?ck ''/w/a.py'')). \<exists>s s'.
        index_statements (ck_parsed ?ck ''/w/a.py'') (si_full_range (hs_info (ck_symbols ?ck ''/w/a.py'') i)) = Some s
        \<and> index_statements (ck_parsed ?ck' ''/w/a.py'') (si_full_range (hs_info (ck_symbols ?ck' ''/w/a.py'') i)) = Some s'
        \<and> well_formed s \<and> well_formed s' \<and> is_stmt s \<and> is_stmt s' \<and> same_meaning s s'"
    using sample_class_well_formed(2,3) [of "''1''"] index_statements_exact [of "[sample_method ''1'']" "sample_method ''1''"]
      index_statements_exact [of "[sample_undocumented]" sample_undocumented]
    by (intro ballI exI [of _ "sample_method ''1''"] exI [of _ sample_undocumented])
      (simp add: function_checker_def, simp add: sample_class_simps sample_undocumented_def)
  have "registry_get r' (DurableId ''A'') = Some ((known_anchor e)\<lparr>a_last_seen_rev := 2, a_status := Active\<rparr>)"
    using formatting_is_no_change [OF outline statements _ e es' rc known_registry(1,2), of e "DurableId ''A''" "known_anchor e"]
      known_registry(3,4) [of e] by (simp add: hash_policy_default_def known_anchor_def)
  with e es' rc show ?thesis by (auto simp: status_of_def)
qed

text \<open>
  C8.  An edit of a member reaches its containers.  Let a statement anywhere inside a function or
  class be replaced so that its own normal form changes, everything else of the container keeping
  its text but not its positions; where the policy leaves docstrings out, neither the old nor the
  new statement is a bare string.  Let the entity of the container be known to the registry at its
  path with its old hash, the entities of the reconciliation have distinct qualified paths, the
  path index be sound and fresh identifiers fresh.  Then, unless the hash function collides on the
  two renderings of the container, the container is reported as changed and its identity asks for
  review.
\<close>

theorem member_edit_reaches_container:
  assumes container: "index_statements (ck_parsed ck file) at0 = Some c" "well_formed c" "is_stmt c"
    and edited: "index_statements (ck_parsed ck' file) at1 = Some c'" "well_formed c'" "is_stmt c'"
      "erase_ranges c' = erase_ranges (replace_at p m' c)"
    and member: "node_at p c = Some m" "is_stmt m" "is_stmt m'" "well_formed m'"
      "include_docstrings policy \<or> \<not> is_docstring_stmt m \<and> \<not> is_docstring_stmt m'"
      "render_stmt m' policy \<noteq> render_stmt m policy"
    and hashes: "inj_on xxh3 {render_stmt c policy, render_stmt c' policy}"
    and recon: "reconcile_impl mint r es rv scope n = Some (r', rc, n')"
      "index_sound r" "fresh_mint mint r n" "distinct (map e_qualified_path es)"
    and known: "e \<in> set es" "e_content_hash e = hash_entity xxh3 (file_normal_form ck' file at1 policy)"
      "by_path r (e_qualified_path e) = Some i" "registry_get r i = Some a"
      "a_content_hash a = hash_entity xxh3 (file_normal_form ck file at0 policy)"
  shows "i \<in> set (changed (classify rc es)) \<and> status_of r' i = Some NeedsReview"
proof -
  have "\<not> is_body c" "\<not> is_body c'" "\<not> is_body (replace_at p m' c)" "well_formed (replace_at p m' c)"
    using container edited(3) member is_stmt_not_body replace_is_body [OF member(1-3)] well_formed_replace [OF container(2) member(1-4)]
    by auto
  then have "render_stmt c' policy = render_stmt (replace_at p m' c) policy"
    using edited(2,4) render_erase [of policy False c'] render_erase [of policy False "replace_at p m' c"]
    by (simp add: render_stmt_structural)
  then have "render_stmt c' policy \<noteq> render_stmt c policy"
    using container_subsumes_members [OF container(2,3) member(1-5)] member(6) by simp
  with hashes have "xxh3 (render_stmt c' policy) \<noteq> xxh3 (render_stmt c policy)" by (auto simp: inj_on_def)
  then have ne: "a_content_hash a \<noteq> e_content_hash e"
    using known(2,5) container(1) edited(1) by (simp add: file_normal_form_def entity_normal_form_def hash_entity_def hash_bytes_def)
  have get: "registry_get r' i = Some (a\<lparr>a_content_hash := e_content_hash e, a_last_seen_rev := rv, a_status := NeedsReview\<rparr>)"
    using reconcile_exact_registry [OF recon known(1,3,4)] ne by simp
  with changed_registry [OF recon, of i] known(4) ne show ?thesis by (auto simp: status_of_def)
qed

text \<open>The number a method of a class returns is changed.\<close>

theorem member_edit_reaches_container_witness:
  "\<exists>e r' rc n'. reconcile_impl mint_seq (registry_insert (known_anchor (e\<lparr>e_content_hash := hash_entity (\<lambda>s. of_nat (length s))
         (file_normal_form (function_checker (12, 38) (sample_class ''1'')) ''/w/a.py'' (0, 38) hash_policy_default)\<rparr>)) registry_default) [e] 2 None 0
       = Some (r', rc, n')
     \<and> DurableId ''A'' \<in> set (changed (classify rc [e])) \<and> status_of r' (DurableId ''A'') = Some NeedsReview"
proof -
  let ?x = "\<lambda>s. of_nat (length s) :: u128"
  let ?ck = "function_checker (12, 38) (sample_class ''1'')" and ?ck' = "function_checker (12, 38) (sample_class ''23'')"
  let ?old = "hash_entity ?x (file_normal_form ?ck ''/w/a.py'' (0, 38) hash_policy_default)"
  define e where "e = (sample_entity ''C'' 0)\<lparr>e_content_hash := hash_entity ?x (file_normal_form ?ck' ''/w/a.py'' (0, 38) hash_policy_default)\<rparr>"
  let ?a = "known_anchor (e\<lparr>e_content_hash := ?old\<rparr>)"
  let ?r = "registry_insert ?a registry_default"
  obtain r' rc n' where rc: "reconcile_impl mint_seq ?r [e] 2 None 0 = Some (r', rc, n')" using reconcile_total by (metis prod_cases3)
  have index: "index_statements (ck_parsed (function_checker (12, 38) (sample_class v)) ''/w/a.py'') (0, 38) = Some (sample_class v)" for v
    using index_statements_exact [of "[sample_class v]" "sample_class v"] by (simp add: function_checker_def) (simp add: sample_class_simps)
  have c: "is_stmt (sample_class v)" for v by (simp add: sample_class_def)
  have edit: "erase_ranges (sample_class ''23'') = erase_ranges (replace_at [1, 0] (sample_method ''23'') (sample_class ''1''))"
    "node_at [1, 0] (sample_class ''1'') = Some (sample_method ''1'')" by (simp_all add: sample_class_simps)
  have nd: "include_docstrings hash_policy_default \<or> \<not> is_docstring_stmt (sample_method ''1'') \<and> \<not> is_docstring_stmt (sample_method ''23'')"
    by (simp add: sample_method_def is_docstring_stmt_def)
  have diff: "render_stmt (sample_method ''23'') hash_policy_default \<noteq> render_stmt (sample_method ''1'') hash_policy_default" by code_simp
  have "?x (render_stmt (sample_class ''1'') hash_policy_default) \<noteq> ?x (render_stmt (sample_class ''23'') hash_policy_default)" by code_simp
  then have inj: "inj_on ?x {render_stmt (sample_class ''1'') hash_policy_default, render_stmt (sample_class ''23'') hash_policy_default}"
    by (auto simp: inj_on_def)
  note known = known_registry [of "e\<lparr>e_content_hash := ?old\<rparr>"]
  have "DurableId ''A'' \<in> set (changed (classify rc [e])) \<and> status_of r' (DurableId ''A'') = Some NeedsReview"
    by (rule member_edit_reaches_container [OF index sample_class_well_formed(1) c index sample_class_well_formed(1) c edit
          sample_class_well_formed(3,3,2) nd diff inj rc known(1,2), of e "DurableId ''A''" ?a])
      (use known(3,4) in \<open>simp_all add: e_def known_anchor_def\<close>)
  with rc show ?thesis by blast
qed

end
