(* ===== verification/Spec2Isabelle.thy ===== *)
theory Spec2Isabelle
  imports Layer_Order Demo Meaning
begin

text \<open>
  \<^bold>\<open>A verification of TyO3's native core.\<close>

  TyO3 wraps the ty type checker in a session that Python code edits and queries.  Its core is
  the Rust crate under \<open>rust/src\<close>.  A session holds the content of a project as a sequence of
  revisions, gives every function, class and variable an identity that survives edits and
  moves, keeps notes that people attach to those identities, and maintains a graph of the
  code.  This library models that core as executable functions and proves what it promises.

  \<^bold>\<open>The parts and how they interact.\<close>  A write method of the session builds a mutation and
  hands it to the commit funnel.  The funnel stages the next generation of content, shows it to
  the type checker through the overlay, extracts the entities of the touched files, reconciles
  them with the identity registry, rebuilds the touched part of the code layer, persists what
  has to survive the process to the sidecar directory, and publishes the revision last; any
  failure before that is rolled back.  Readers either pin a revision in a snapshot or read the
  live head and retry when a write cancels them.

  \<^bold>\<open>Theories, in the order of their imports.\<close>

    \<^item> \<open>Prelude\<close>, \<open>Decimal\<close>, \<open>Paths\<close>: Rust's maps and sets, results, string searching, decimal
      numerals, byte slices and the path API, with the lemmas the components share.
    \<^item> \<open>Content\<close> (\<open>content.rs\<close>, part of \<open>hash.rs\<close>): the content store, its retention ring, staging
      and publishing, ingestion from disk.
    \<^item> \<open>Overlay\<close> (\<open>overlay.rs\<close>): the file system the type checker reads through, live and frozen.
    \<^item> \<open>Sidecar\<close> (\<open>sidecar.rs\<close>): the paths below \<open>.tyo3\<close> and the atomic write, with each system
      call able to fail.
    \<^item> \<open>Config\<close>, \<open>Layer_Order\<close> (\<open>config.rs\<close>): layered configuration, validation, the topological
      order of layers, variable expansion, the secret lint.
    \<^item> \<open>Registry\<close>, \<open>Edit_Distance\<close>, \<open>Reconcile\<close> (\<open>identity.rs\<close>): the registry and its mutators, its
      JSON form, the four matching passes, application, retirement and classification.
    \<^item> \<open>Authored\<close> (\<open>authored.rs\<close>, and the authored parts of \<open>project/open.rs\<close>, \<open>commit.rs\<close> and
      \<open>snapshot.rs\<close>): records, their files, reads at a revision, review state.
    \<^item> \<open>CodeLayer\<close>, \<open>Builder\<close>, \<open>Producer\<close> (\<open>code_layer.rs\<close>): the graph with its reverse index,
      the affected closure, deltas, and the full and scoped six-pass builders.
    \<^item> \<open>Coordinates\<close> (\<open>coordinates.rs\<close>): positions and offsets.
    \<^item> \<open>Rendering\<close> (\<open>hash.rs\<close>): the canonical renderer over the syntax tree, the statement index
      and the normal form of an entity.
    \<^item> \<open>Symbols\<close> (\<open>entity.rs\<close>, \<open>convert/symbols.rs\<close>, \<open>build_qualified_path\<close>): the walks over the
      symbols of a file.
    \<^item> \<open>Meaning\<close>: what an edit of the text does to identities, from the tree to the registry.
    \<^item> \<open>Occurrences\<close> (\<open>convert/occurrences.rs\<close>): the visitor that lists the names of a file.
    \<^item> \<open>Conversions\<close> (\<open>convert\<close>, \<open>dto\<close>): diagnostics, completions, signatures, hover, folding
      ranges, hints and semantic tokens as the checker reports them and as Python receives them.
    \<^item> \<open>Analysis\<close> (\<open>project/analysis.rs\<close>, \<open>files.rs\<close>, \<open>convert\<close>, \<open>project/identity_ops.rs\<close>): the
      navigation queries, and the engine the producers run on.
    \<^item> \<open>Queries\<close> (\<open>project/analysis.rs\<close>): the other queries, and what all answers share.
    \<^item> \<open>Commit\<close> (\<open>project/commit.rs\<close>, \<open>HeadState\<close> of \<open>project.rs\<close>): classification, plans, the
      staged transaction, rollback.
    \<^item> \<open>Transaction\<close>: what a failed and what a successful commit leaves behind.
    \<^item> \<open>Session\<close> (\<open>project.rs\<close>, \<open>project/open.rs\<close>, \<open>project/methods.rs\<close>): open, the write methods,
      the watcher queue, snapshots, reload, close.
    \<^item> \<open>Isolation\<close>: the methods as steps, the session invariant, snapshot isolation.
    \<^item> \<open>Reads\<close> (\<open>project/identity_ops.rs\<close>, \<open>head_view.rs\<close>, \<open>snapshot.rs\<close>, \<open>methods.rs\<close>): the three
      read handles with their identity reads, and the retry loop.
    \<^item> \<open>Handles\<close> (\<open>snapshot.rs\<close>, \<open>head_view.rs\<close>): the analysis methods of snapshots and head views.
    \<^item> \<open>Writes\<close>: what the write methods guarantee end to end.
    \<^item> \<open>Demo\<close>: a concrete project at which the session's theorems are instantiated.

  \<^bold>\<open>How code becomes definitions.\<close>  A struct is a record, an enum a datatype, a method that
  mutates its receiver a function that returns the new state, with the result beside it when
  it can fail.  Errors are values: \<open>Inl\<close> of an error type per component, or \<open>None\<close> where the
  code would panic.  A \<open>BTreeMap\<close> is an ordered association list, a \<open>HashMap\<close> that is iterated
  an association list in an arbitrary order, any other one a map.  Hashes and positions are
  words of their width; lengths and revisions, which the code only counts up, are natural
  numbers.  Locks are held for the whole of a write method, so a method is one step and a
  session is a sequence of steps; only the head view's reads interleave with writes, and its
  retry loop takes the state as each attempt finds it.

  Two simplifications go with this.  Paths are compared as strings, in the content maps, the
  overlay and the set of unsaved buffers, where Rust compares them component by component: two
  spellings of a path that differ in repeated or trailing separators are one key there and two
  here.  The model is exact where each file is named by one spelling.  And the commit rolls back when a step would panic, where Rust would unwind;
  reconciliation and extraction are total (\<open>reconcile_total\<close>, \<open>extraction_total\<close>), so that branch
  is never taken.

  \<^bold>\<open>Parameters.\<close>  What the crate takes from outside is an argument: the operating system as an
  operation finds it (\<open>os_system\<close>, \<open>native_system\<close>, \<open>io_plan\<close>), the hash function, the source of
  fresh identifiers, the JSON and TOML codecs, and the type checker.  The checker's answers are
  the records \<open>checker\<close>, \<open>ide\<close>, \<open>semantic_model\<close> and \<open>line_index\<close>, behind an abstract database
  type in the session; the parser's is a tree \<open>ast\<close> per file (\<open>ck_parsed\<close>), a node with its
  children in source order, which is the order the parser's generated walk visits them.  Theorems assume of them only what they state as hypotheses: that fresh
  identifiers are fresh (\<open>fresh_mint\<close>), that symbols form a forest (\<open>symbol_forest\<close>), that a
  line index inverts its offsets, that a parsed tree nests its bodies as Python does
  (\<open>well_formed\<close>), that the checker's ranges lie in its files (\<open>ide_ranges_fit\<close>), that a codec
  decodes what it encoded.

  \<^bold>\<open>Interfaces.\<close>  Locales state what components rely on and are interpreted on the model's
  definitions: finite maps for both map models, the registry's mutators, a step of matching,
  the steps of a staged commit (\<open>staged_step\<close>), and the methods of a session
  (\<open>session_method\<close>), from which the session invariant follows once for all of them.

  \<^bold>\<open>What is shown.\<close>

    \<^item> \<^emph>\<open>Transactions.\<close>  A failed commit changes nothing a reader can see; a sidecar write is all
      or nothing and touches no file but its own and its temporary one; an edit with a working
      sidecar always publishes; no write to disk overrides an unsaved buffer.
    \<^item> \<^emph>\<open>Revisions.\<close>  Every retained revision shows the content it was published with, exactly the
      last \<open>retain_cap\<close> are retained, and snapshots are isolated from everything later.
    \<^item> \<^emph>\<open>Identity.\<close>  Reconciliation is one to one, keeps the identity of an unmoved entity, does
      not depend on the extraction order, reports exactly the registry's difference (the first
      for any entities, the others for entities with distinct paths), and an edit touches no
      identity of another file.  Extraction ends on any hierarchy; positions, symbols and
      entities use the same keys.  The identity at a position is that of the smallest enclosing
      symbol among those the hierarchy's iterator yields: a member is found when the iterator
      yields members, and only its outermost container when it does not.
    \<^item> \<^emph>\<open>Meaning.\<close>  The hash of an entity is that of the rendering of the statement at its
      range; it ignores docstrings exactly at docstring positions.  An edit that only moves
      or reformats code, names, aliases and attributes included, changes no identity and reports
      nothing as changed; an edit inside a
      member is reported for every container around it, unless the hash collides.
    \<^item> \<^emph>\<open>Queries.\<close>  The occurrences of a file are the name sites of its tree in the order of the walk
      (a node before its parts), each with its range, kind and targets; the eleven queries at a
      position fail alike; every range in the answer of any query is well formed.
    \<^item> \<^emph>\<open>Code layer.\<close>  Indexes are exact after every build, the affected closure is the set of
      transitive dependents, a delta replayed on the old graph gives the new one.  A full build
      has no dangling edge, a scoped one no unreferenced stub and no new edge without a target;
      the converses fail.
    \<^item> \<^emph>\<open>Configuration and authored data.\<close>  The layer order is the least topological one or a
      cycle is reported; validated configurations are closed; records are read back when the
      project is opened, and at any revision, as far as their layer keeps history.
    \<^item> \<^emph>\<open>Errors and bounds.\<close>  Positions are accepted exactly when they lie in the file; floating
      reads end after at most two hundred attempts.

  Theorems that exhibit behaviour the code's comments rule out stand beside the ones above:
  \<open>identity_lost_after_orphan_move\<close>, \<open>scoped_build_can_dangle\<close>, \<open>full_build_leaves_dead_stub\<close>,
  \<open>head_read_can_be_stale\<close>, \<open>reload_loses_authored_history\<close>, \<open>sibling_directory_in_project\<close>,
  \<open>outermost_paths\<close>, \<open>reversed_range_panics\<close>, \<open>lone_carriage_return\<close>,
  \<open>zero_capacity_retains_nothing\<close>, \<open>rendering_ambiguous\<close> (two calls that differ in nesting have one
  rendering), \<open>notebooks_bypass_overlay\<close>.

  \<^bold>\<open>Loops and fuel.\<close>  Loops are recursive functions with a termination proof (the closure over
  reverse dependencies, eviction, the topological order, the retry loop).  Three walks over
  symbol hierarchies take fuel because nothing in their types bounds them: the entity walk gets
  as many nested calls as the file has symbols, which \<open>extraction_total\<close> shows to be enough for
  any hierarchy; the symbol walk the same, and the climb to the containers as many as the
  iterator yields symbols, which is enough for a forest (\<open>document_symbols_agree\<close>,
  \<open>id_for_innermost\<close>).

  The normal form of a range with no statement is a byte slice of the source, which aborts when
  the range does not fall between characters: \<open>entity_normal_form\<close> is \<open>None\<close> there.  The checker's
  ranges lie between characters, and \<open>file_normal_form\<close>, which the extraction uses, puts the empty
  text for the case that does not arise.

  \<^bold>\<open>Not modelled.\<close>  The parser and the type checker are third-party code and appear as
  parameters.  The Python bindings of \<open>lib.rs\<close>, the names of fields in serialised transfer objects,
  the watcher's threads (only its queue is modelled, so \<open>flush_watch\<close> has no effect to state),
  logging, and the Python and Lua code around the crate are left out.  The type checker's
  database is not rolled back by a failed commit, in the code as in the model, and no theorem
  speaks of its state then.
\<close>

end
